(* ===== verification/Zeos_Prelude.thy ===== *)
theory Zeos_Prelude
  imports Main "HOL-Library.Word" "HOL-Library.Monad_Syntax"
begin

unbundle bit_operations_syntax

text \<open>
  Shared vocabulary of the ZeOS development: the C integer types, the configuration
  constants of \<^verbatim>\<open>include/mm_address.h\<close>, \<^verbatim>\<open>include/sched.h\<close> and
  \<^verbatim>\<open>include/errno.h\<close>, the addressing of the page-aligned kernel arrays
  (\<^verbatim>\<open>task\<close>, \<^verbatim>\<open>dir_pages\<close>, \<^verbatim>\<open>pagusr_table\<close>), and the facts on words and
  options that every component uses.
  A result \<^term>\<open>None\<close> of an operation stands for a processor fault (a null pointer, an
  access outside every object, a page fault, a divide error) or for a loop that never ends.
\<close>

section \<open>C integer types\<close>

type_synonym byte = "8 word"
type_synonym hword = "16 word"
type_synonym dword = "32 word"
type_synonym cint = "32 word"
type_synonym qword = "64 word"

named_theorems ksimps \<open>rewrite rules of the kernel model\<close>
named_theorems kdefs \<open>definitions unfolded in component proofs\<close>

section \<open>Configuration constants\<close>

definition NR_TASKS :: nat where [simp]: "NR_TASKS = 10"
definition KERNEL_STACK_SIZE :: nat where [simp]: "KERNEL_STACK_SIZE = 1024"
definition INITIAL_QUANTUM :: cint where [simp]: "INITIAL_QUANTUM = 18"

definition ENTRY_DIR_PAGES :: nat where [simp]: "ENTRY_DIR_PAGES = 0"
definition TOTAL_PAGES :: nat where [simp]: "TOTAL_PAGES = 1024"
definition NUM_PAG_KERNEL :: nat where [simp]: "NUM_PAG_KERNEL = 256"
definition NUM_PAG_CODE :: nat where [simp]: "NUM_PAG_CODE = 8"
definition NUM_PAG_DATA :: nat where [simp]: "NUM_PAG_DATA = 20"
definition PAGE_SIZE :: nat where [simp]: "PAGE_SIZE = 4096"
definition KERNEL_START :: dword where [simp]: "KERNEL_START = 0x10000"
definition L_USER_START :: dword where [simp]: "L_USER_START = 0x100000"
definition PH_USER_START :: dword where [simp]: "PH_USER_START = 0x100000"
definition USER_ESP :: dword where
  [simp]: "USER_ESP = L_USER_START + of_nat (NUM_PAG_CODE + NUM_PAG_DATA) * 0x1000 - 16"
definition USER_FIRST_PAGE :: dword where [simp]: "USER_FIRST_PAGE = drop_bit 12 L_USER_START"
definition PAG_LOG_INIT_CODE_P0 :: nat where
  [simp]: "PAG_LOG_INIT_CODE_P0 = unat (drop_bit 12 L_USER_START)"
definition PAG_LOG_INIT_DATA_P0 :: nat where
  [simp]: "PAG_LOG_INIT_DATA_P0 = PAG_LOG_INIT_CODE_P0 + NUM_PAG_CODE"

definition ESRCH :: cint where [simp]: "ESRCH = 3"
definition EBADF :: cint where [simp]: "EBADF = 9"
definition EAGAIN :: cint where [simp]: "EAGAIN = 11"
definition ENOMEM :: cint where [simp]: "ENOMEM = 12"
definition EACCES :: cint where [simp]: "EACCES = 13"
definition EFAULT :: cint where [simp]: "EFAULT = 14"
definition EDNALL :: cint where [simp]: "EDNALL = 15"
definition ENFPCB :: cint where [simp]: "ENFPCB = 16"
definition EINVAL :: cint where [simp]: "EINVAL = 22"
definition ENOSYS :: cint where [simp]: "ENOSYS = 38"

section \<open>Words and natural numbers\<close>

lemma unat_of_nat32: "n < 2 ^ 32 \<Longrightarrow> unat (of_nat n :: dword) = n"
  by (simp add: unsigned_of_nat take_bit_nat_eq_self)

lemma unat32_less: "unat (w :: dword) < 4294967296"
  by (rule order_less_le_trans [OF unsigned_less]) simp

lemma unat_plus_of_nat32:
  "unat w + n < 2 ^ 32 \<Longrightarrow> unat ((w :: dword) + of_nat n) = unat w + n"
  by (simp add: unat_word_ariths unsigned_of_nat take_bit_eq_mod mod_add_right_eq)

section \<open>Arrays of page-sized elements\<close>

text \<open>
  \<^verbatim>\<open>task\<close>, \<^verbatim>\<open>dir_pages\<close> and \<^verbatim>\<open>pagusr_table\<close> are arrays of \<^const>\<open>NR_TASKS\<close> elements of
  4096 bytes, each read as 1024 words of 32 bits.  \<open>elem_addr b i j\<close> is the address of
  word \<open>j\<close> of element \<open>i\<close> of the array at \<open>b\<close>; \<open>slot_of b a\<close> is the converse, undefined for
  an address that is unaligned or outside the array.
\<close>

definition elem_addr :: "dword \<Rightarrow> nat \<Rightarrow> nat \<Rightarrow> dword" where
  "elem_addr b i j = b + of_nat (4096 * i + 4 * j)"

definition slot_of :: "dword \<Rightarrow> dword \<Rightarrow> (nat \<times> nat) option" where
  "slot_of b a =
     (let off = unat (a - b)
      in if off < 4096 * NR_TASKS \<and> off mod 4 = 0
         then Some (off div 4096, off mod 4096 div 4) else None)"

lemma slot_of_elem_addr [simp, ksimps]:
  assumes "i < 10" and "j < 1024"
  shows "slot_of b (elem_addr b i j) = Some (i, j)"
proof -
  have "4096 * i + 4 * j < 2 ^ 32" using assms by simp
  then have off: "unat (elem_addr b i j - b) = 4096 * i + 4 * j"
    unfolding elem_addr_def by (simp only: add_diff_cancel_left' unat_of_nat32)
  have "(4096 * i + 4 * j) div 4096 = i" and "(4096 * i + 4 * j) mod 4096 div 4 = j"
    using assms by simp_all
  moreover have "4096 * i + 4 * j = 4 * (1024 * i + j)" by simp
  then have "(4096 * i + 4 * j) mod 4 = 0" by (simp only: mod_mult_self1_is_0)
  ultimately show ?thesis using assms by (simp add: slot_of_def off)
qed

lemma slot_of_bounds: "slot_of b a = Some (i, j) \<Longrightarrow> i < 10 \<and> j < 1024"
  by (auto simp: slot_of_def Let_def split: if_splits)

text \<open>Masking the low twelve bits is the page base, as \<^verbatim>\<open>current()\<close> computes it.\<close>

lemma and_page_mask: "(w :: dword) AND 0xfffff000 = push_bit 12 (drop_bit 12 w)"
proof -
  have "(0xfffff000 :: dword) = NOT (mask 12)" by (simp add: mask_eq_exp_minus_1)
  then show ?thesis
    by (auto simp add: bit_eq_iff bit_simps)
qed

lemma unat_and_page_mask: "unat ((w :: dword) AND 0xfffff000) = 4096 * (unat w div 4096)"
proof -
  have "4096 * (unat w div 4096) < 4294967296"
    using unat32_less [of w] by simp
  then show ?thesis
    unfolding and_page_mask unsigned_push_bit_eq unsigned_drop_bit_eq
    by (simp add: drop_bit_eq_div push_bit_eq_mult take_bit_eq_mod del: push_bit_of_1)
qed

definition page_array :: "dword \<Rightarrow> bool" where
  "page_array b \<longleftrightarrow> unat b mod 4096 = 0 \<and> unat b + 4096 * NR_TASKS \<le> 2 ^ 20 \<and> 0 < unat b"

lemma unat_elem_addr:
  "page_array b \<Longrightarrow> i < 10 \<Longrightarrow> j < 1024 \<Longrightarrow> unat (elem_addr b i j) = unat b + (4096 * i + 4 * j)"
  unfolding page_array_def elem_addr_def
  by (subst unat_plus_of_nat32) auto

lemma page_base_of_elem [simp]:
  assumes "page_array b" "i < 10" "j < 1024"
  shows "elem_addr b i j AND 0xfffff000 = elem_addr b i 0"
proof -
  obtain k where k: "unat b = 4096 * k" using assms(1)
    by (auto simp: page_array_def mod_eq_0_iff_dvd elim: dvdE)
  have "4096 * ((unat b + (4096 * i + 4 * j)) div 4096) = unat b + 4096 * i"
    using assms(3) by (simp add: k)
  then have "unat (elem_addr b i j AND 0xfffff000) = unat (elem_addr b i 0)"
    using assms by (simp only: unat_and_page_mask unat_elem_addr)
  then show ?thesis by (simp only: word_unat_eq_iff)
qed

lemma page_base_eq [simp]: "page_array b \<Longrightarrow> i < 10 \<Longrightarrow> push_bit 12 (drop_bit 12 (elem_addr b i 0)) = elem_addr b i 0"
  by (simp flip: and_page_mask)

section \<open>Counting loops over a state that may fault\<close>

text \<open>A \<^verbatim>\<open>for\<close> loop over a list of indices whose body may fault.\<close>

primrec mfold :: "('a \<Rightarrow> 's \<Rightarrow> 's option) \<Rightarrow> 'a list \<Rightarrow> 's \<Rightarrow> 's option" where
  "mfold f [] s = Some s"
| "mfold f (i # is) s = Option.bind (f i s) (mfold f is)"

lemma mfold_append: "mfold f (xs @ ys) s = Option.bind (mfold f xs s) (mfold f ys)"
proof (induction xs arbitrary: s)
  case (Cons x xs)
  then show ?case by (cases "f x s") simp_all
qed simp

lemma mfold_upt_rule:
  assumes "a \<le> b" and "I a s"
    and "\<And>k s. a \<le> k \<Longrightarrow> k < b \<Longrightarrow> I k s \<Longrightarrow> \<exists>s'. f k s = Some s' \<and> I (Suc k) s'"
  shows "\<exists>s'. mfold f [a..<b] s = Some s' \<and> I b s'"
  using assms
proof (induction "b - a" arbitrary: a s)
  case 0
  then show ?case by simp
next
  case (Suc n)
  then obtain s1 where s1: "f a s = Some s1" "I (Suc a) s1" by force
  have "\<exists>s'. mfold f [Suc a..<b] s1 = Some s' \<and> I b s'"
    by (rule Suc.hyps(1)) (use Suc s1 in auto)
  moreover have "[a..<b] = a # [Suc a..<b]" using Suc.hyps(2) by (simp add: upt_rec)
  ultimately show ?case using s1 by simp
qed

end
