(* ===== verification/Kernel_List.thy ===== *)
theory Kernel_List
  imports Zeos_Prelude
begin

text \<open>
  The intrusive doubly linked lists of \<^verbatim>\<open>list.c\<close> and \<^verbatim>\<open>include/list.h\<close>.  A
  \<^verbatim>\<open>struct list_head\<close> is a pair of pointers; the memory that holds the anchors is a
  function from locations to such pairs, and a null pointer has no location.  The operations
  are the source's pointer assignments in the source's order; the abstraction
  \<open>dlist h q xs\<close> reads a circular list as the sequence of its entries, and the locale
  \<open>intrusive_queue\<close> is the contract the scheduler relies on.
\<close>

section \<open>Anchors and pointer assignments\<close>

datatype 'a ptr = Null | Ptr 'a

record 'a list_head =
  nxt :: "'a ptr"
  prv :: "'a ptr"

type_synonym 'a links = "'a \<Rightarrow> 'a list_head"

fun get_nxt :: "'a ptr \<Rightarrow> 'a links \<Rightarrow> 'a ptr option" where
  "get_nxt Null h = None"
| "get_nxt (Ptr a) h = Some (nxt (h a))"

fun get_prv :: "'a ptr \<Rightarrow> 'a links \<Rightarrow> 'a ptr option" where
  "get_prv Null h = None"
| "get_prv (Ptr a) h = Some (prv (h a))"

fun set_nxt :: "'a ptr \<Rightarrow> 'a ptr \<Rightarrow> 'a links \<Rightarrow> 'a links option" where
  "set_nxt Null p h = None"
| "set_nxt (Ptr a) p h = Some (h(a := (h a)\<lparr>nxt := p\<rparr>))"

fun set_prv :: "'a ptr \<Rightarrow> 'a ptr \<Rightarrow> 'a links \<Rightarrow> 'a links option" where
  "set_prv Null p h = None"
| "set_prv (Ptr a) p h = Some (h(a := (h a)\<lparr>prv := p\<rparr>))"

section \<open>The operations of list.c\<close>

definition INIT_LIST_HEAD :: "'a ptr \<Rightarrow> 'a links \<Rightarrow> 'a links option" where
  "INIT_LIST_HEAD l h = do { h \<leftarrow> set_nxt l l h; set_prv l l h }"

definition list_add_between :: "'a ptr \<Rightarrow> 'a ptr \<Rightarrow> 'a ptr \<Rightarrow> 'a links \<Rightarrow> 'a links option" where
  "list_add_between new prev nx h =
     do { h \<leftarrow> set_prv nx new h;
          h \<leftarrow> set_nxt new nx h;
          h \<leftarrow> set_prv new prev h;
          set_nxt prev new h }"

definition list_add :: "'a ptr \<Rightarrow> 'a ptr \<Rightarrow> 'a links \<Rightarrow> 'a links option" where
  "list_add new head h = do { n \<leftarrow> get_nxt head h; list_add_between new head n h }"

definition list_add_tail :: "'a ptr \<Rightarrow> 'a ptr \<Rightarrow> 'a links \<Rightarrow> 'a links option" where
  "list_add_tail new head h = do { p \<leftarrow> get_prv head h; list_add_between new p head h }"

definition list_del_between :: "'a ptr \<Rightarrow> 'a ptr \<Rightarrow> 'a links \<Rightarrow> 'a links option" where
  "list_del_between prev nx h = do { h \<leftarrow> set_prv nx prev h; set_nxt prev nx h }"

definition list_del :: "'a ptr \<Rightarrow> 'a links \<Rightarrow> 'a links option" where
  "list_del entry h =
     do { p \<leftarrow> get_prv entry h;
          n \<leftarrow> get_nxt entry h;
          h \<leftarrow> list_del_between p n h;
          h \<leftarrow> set_nxt entry Null h;
          set_prv entry Null h }"

definition list_is_last :: "'a ptr \<Rightarrow> 'a ptr \<Rightarrow> 'a links \<Rightarrow> bool option" where
  "list_is_last l head h = do { n \<leftarrow> get_nxt l h; Some (n = head) }"

definition list_empty :: "'a ptr \<Rightarrow> 'a links \<Rightarrow> bool option" where
  "list_empty head h = do { n \<leftarrow> get_nxt head h; Some (n = head) }"

definition list_first :: "'a ptr \<Rightarrow> 'a links \<Rightarrow> 'a ptr option" where
  "list_first head h = get_nxt head h"

text \<open>
  \<^verbatim>\<open>list_for_each\<close>: the cursor runs from \<^verbatim>\<open>head->next\<close> until it meets the head again;
  the result is the sequence of cursors the loop body sees.  On a broken list the loop may
  not end, so not ending is a possible outcome of the definition.
\<close>

partial_function (option) list_for_each :: "'a ptr \<Rightarrow> 'a ptr \<Rightarrow> 'a links \<Rightarrow> 'a ptr list option" where
  "list_for_each pos head h =
     (if pos = head then Some []
      else Option.bind (get_nxt pos h) (\<lambda>p.
           Option.bind (list_for_each p head h) (\<lambda>rest. Some (pos # rest))))"

text \<open>
  \<^verbatim>\<open>list_for_each_safe\<close>: the successor is read before the body runs, so the body may take the
  cursor's entry out of the list.
\<close>

partial_function (option) safe_loop :: "('a ptr \<Rightarrow> 'a links \<Rightarrow> 'a links option) \<Rightarrow> 'a ptr \<Rightarrow> 'a ptr \<Rightarrow> 'a ptr \<Rightarrow> 'a links
    \<Rightarrow> ('a ptr list \<times> 'a links) option" where
  "safe_loop body head pos n h =
     (if pos = head then Some ([], h)
      else Option.bind (body pos h) (\<lambda>h.
           Option.bind (get_nxt n h) (\<lambda>n'.
           Option.bind (safe_loop body head n n' h) (\<lambda>r. Some (pos # fst r, snd r)))))"

definition list_for_each_safe :: "('a ptr \<Rightarrow> 'a links \<Rightarrow> 'a links option) \<Rightarrow> 'a ptr \<Rightarrow> 'a links \<Rightarrow> ('a ptr list \<times> 'a links) option" where
  "list_for_each_safe body head h =
     do { pos \<leftarrow> get_nxt head h;
          n \<leftarrow> get_nxt pos h;
          safe_loop body head pos n h }"

lemmas list_op_defs = INIT_LIST_HEAD_def list_add_between_def list_add_def list_add_tail_def
  list_del_between_def list_del_def list_is_last_def list_empty_def list_first_def

section \<open>Circular lists as sequences\<close>

fun chain :: "'a links \<Rightarrow> 'a \<Rightarrow> 'a list \<Rightarrow> 'a \<Rightarrow> bool" where
  "chain h a [] b \<longleftrightarrow> nxt (h a) = Ptr b \<and> prv (h b) = Ptr a"
| "chain h a (y # ys) b \<longleftrightarrow> nxt (h a) = Ptr y \<and> prv (h y) = Ptr a \<and> chain h y ys b"

definition dlist :: "'a links \<Rightarrow> 'a \<Rightarrow> 'a list \<Rightarrow> bool" where
  "dlist h q xs \<longleftrightarrow> chain h q xs q \<and> distinct (q # xs)"

lemma chain_append [simp]: "chain h a (xs @ y # ys) b \<longleftrightarrow> chain h a xs y \<and> chain h y ys b"
  by (induction xs arbitrary: a) auto

lemma chain_cong:
  assumes "\<And>z. z \<in> insert a (set xs) \<Longrightarrow> nxt (h' z) = nxt (h z)"
    and "\<And>z. z \<in> insert b (set xs) \<Longrightarrow> prv (h' z) = prv (h z)"
  shows "chain h' a xs b = chain h a xs b"
  using assms by (induction xs arbitrary: a) auto

lemma chain_nxt: "chain h a xs b \<Longrightarrow> nxt (h a) = Ptr (hd (xs @ [b]))"
  by (cases xs) auto

lemma chain_prv: "chain h a xs b \<Longrightarrow> prv (h b) = Ptr (last (a # xs))"
  by (induction xs arbitrary: a) auto

lemma dlist_nxt: "dlist h q xs \<Longrightarrow> nxt (h q) = Ptr (hd (xs @ [q]))"
  by (simp add: dlist_def chain_nxt)

lemma dlist_prv: "dlist h q xs \<Longrightarrow> prv (h q) = Ptr (last (q # xs))"
  unfolding dlist_def by (blast dest: chain_prv)

lemma dlist_distinct: "dlist h q xs \<Longrightarrow> distinct xs \<and> q \<notin> set xs"
  by (simp add: dlist_def)

lemma dlist_frame:
  assumes "dlist h q xs" and "\<And>z. z \<in> insert q (set xs) \<Longrightarrow> h' z = h z"
  shows "dlist h' q xs"
  using assms chain_cong [of q xs h' h q] by (auto simp: dlist_def)


lemma chain_cong_fst:
  assumes "chain h a xs b"
    and "\<And>z. z \<in> insert a (set xs) \<Longrightarrow> nxt (h' z) = nxt (h z)"
    and "\<And>z. z \<in> insert b (set xs) \<Longrightarrow> prv (h' z) = prv (h z)"
  shows "chain h' a xs b"
  using assms chain_cong [of a xs h' h b] by blast

section \<open>Every operation against the sequence\<close>

lemma INIT_LIST_HEAD_dlist:
  "\<exists>h'. INIT_LIST_HEAD (Ptr q) h = Some h' \<and> dlist h' q [] \<and> (\<forall>z. z \<noteq> q \<longrightarrow> h' z = h z)"
  by (simp add: INIT_LIST_HEAD_def dlist_def)

lemma list_add_dlist:
  assumes d: "dlist h q xs" and n: "n \<notin> insert q (set xs)"
  shows "\<exists>h'. list_add (Ptr n) (Ptr q) h = Some h' \<and> dlist h' q (n # xs)
    \<and> (\<forall>z. z \<notin> insert n (insert q (set xs)) \<longrightarrow> h' z = h z)"
proof (cases xs)
  case Nil
  with d n show ?thesis by (simp add: dlist_def list_add_def list_add_between_def)
next
  case (Cons y ys)
  define h' where "h' = h(y := (h y)\<lparr>prv := Ptr n\<rparr>, n := (h n)\<lparr>nxt := Ptr y, prv := Ptr q\<rparr>,
    q := (h q)\<lparr>nxt := Ptr n\<rparr>)"
  from d Cons have c: "chain h y ys q" and q: "nxt (h q) = Ptr y" and dst: "distinct (q # y # ys)"
    by (auto simp: dlist_def)
  have "list_add (Ptr n) (Ptr q) h = Some h'"
    using q n Cons dst by (auto simp: list_add_def list_add_between_def h'_def fun_eq_iff)
  moreover have "chain h' y ys q"
    by (rule chain_cong_fst [OF c]) (use n Cons dst in \<open>auto simp: h'_def\<close>)
  then have "dlist h' q (n # xs)"
    using n Cons dst by (auto simp: dlist_def h'_def)
  ultimately show ?thesis using Cons by (auto simp: h'_def)
qed

lemma list_add_tail_dlist:
  assumes d: "dlist h q xs" and n: "n \<notin> insert q (set xs)"
  shows "\<exists>h'. list_add_tail (Ptr n) (Ptr q) h = Some h' \<and> dlist h' q (xs @ [n])
    \<and> (\<forall>z. z \<notin> insert n (insert q (set xs)) \<longrightarrow> h' z = h z)"
proof (cases xs rule: rev_cases)
  case Nil
  with d n show ?thesis by (simp add: dlist_def list_add_tail_def list_add_between_def)
next
  case (snoc ys y)
  define h' where "h' = h(q := (h q)\<lparr>prv := Ptr n\<rparr>, n := (h n)\<lparr>nxt := Ptr q, prv := Ptr y\<rparr>,
    y := (h y)\<lparr>nxt := Ptr n\<rparr>)"
  from d snoc have c: "chain h q ys y" and q: "prv (h q) = Ptr y" and dst: "distinct (q # y # ys)"
    by (auto simp: dlist_def)
  have "list_add_tail (Ptr n) (Ptr q) h = Some h'"
    using q n snoc dst by (auto simp: list_add_tail_def list_add_between_def h'_def fun_eq_iff)
  moreover have "chain h' q ys y"
    by (rule chain_cong_fst [OF c]) (use n snoc dst in \<open>auto simp: h'_def\<close>)
  then have "dlist h' q (xs @ [n])"
    using n snoc dst by (auto simp: dlist_def h'_def)
  ultimately show ?thesis using snoc by (auto simp: h'_def)
qed

text \<open>Unlinking: the two neighbours of the entry become neighbours of each other.\<close>

lemma chain_unlink:
  assumes c1: "chain h a ys e" and c2: "chain h e zs b"
    and dst: "distinct (ys @ e # zs)" "a \<notin> set (ys @ e # zs)" "b \<notin> set (ys @ e # zs)"
    and h': "h' = (h(hd (zs @ [b]) := (h (hd (zs @ [b])))\<lparr>prv := Ptr (last (a # ys))\<rparr>))"
    and h'': "h'' = (h'(last (a # ys) := (h' (last (a # ys)))\<lparr>nxt := Ptr (hd (zs @ [b]))\<rparr>))"
  shows "chain h'' a (ys @ zs) b"
proof -
  let ?p = "last (a # ys)" and ?n = "hd (zs @ [b])"
  have links: "nxt (h'' ?p) = Ptr ?n" "prv (h'' ?n) = Ptr ?p"
    by (auto simp: h'' h')
  have nxt: "nxt (h'' z) = nxt (h z)" if "z \<noteq> ?p" for z using that by (auto simp: h'' h')
  have prv: "prv (h'' z) = prv (h z)" if "z \<noteq> ?n" for z using that by (auto simp: h'' h')
  have n: "?n \<notin> set ys" using dst by (cases zs) auto
  have p: "?p \<notin> set zs" using dst by (cases ys rule: rev_cases) auto
  have right: "chain h'' ?p zs b"
  proof (cases zs)
    case Nil
    then show ?thesis using links by simp
  next
    case (Cons z zs')
    have "chain h z zs' b" using c2 Cons by simp
    then have "chain h'' z zs' b"
      by (rule chain_cong_fst) (use Cons dst p in \<open>auto intro!: nxt prv\<close>)
    then show ?thesis using links Cons by simp
  qed
  show ?thesis
  proof (cases ys rule: rev_cases)
    case Nil
    then show ?thesis using right by simp
  next
    case (snoc ys' y)
    have "chain h a ys' y" using c1 snoc by simp
    then have "chain h'' a ys' y"
      by (rule chain_cong_fst) (use snoc dst n in \<open>auto intro!: nxt prv\<close>)
    then show ?thesis using right snoc by simp
  qed
qed

lemma list_del_dlist:
  assumes d: "dlist h q (ys @ e # zs)"
  shows "\<exists>h'. list_del (Ptr e) h = Some h' \<and> dlist h' q (ys @ zs)
    \<and> h' e = \<lparr>nxt = Null, prv = Null\<rparr>
    \<and> (\<forall>z. z \<notin> insert q (set (ys @ e # zs)) \<longrightarrow> h' z = h z)"
proof -
  let ?p = "last (q # ys)" and ?n = "hd (zs @ [q])"
  from d have c1: "chain h q ys e" and c2: "chain h e zs q" and dst: "distinct (q # ys @ e # zs)"
    by (auto simp: dlist_def)
  define h1 where "h1 = h(?n := (h ?n)\<lparr>prv := Ptr ?p\<rparr>)"
  define h2 where "h2 = h1(?p := (h1 ?p)\<lparr>nxt := Ptr ?n\<rparr>)"
  define h3 where "h3 = h2(e := \<lparr>nxt = Null, prv = Null\<rparr>)"
  have p: "?p \<noteq> e" "?p \<in> insert q (set ys)" using dst by (auto split: if_splits)
  have n: "?n \<noteq> e" "?n \<in> insert q (set zs)" using dst by (cases zs; auto)+
  have "list_del (Ptr e) h = Some h3"
    using chain_prv [OF c1] chain_nxt [OF c2]
    by (simp add: list_del_def list_del_between_def h3_def h2_def h1_def fun_eq_iff)
  moreover have "chain h2 q (ys @ zs) q"
    by (rule chain_unlink [OF c1 c2 _ _ _ h1_def h2_def]) (use dst in auto)
  then have "chain h3 q (ys @ zs) q"
    by (rule chain_cong_fst) (use dst in \<open>auto simp: h3_def\<close>)
  then have "dlist h3 q (ys @ zs)" using dst by (simp add: dlist_def)
  moreover have "h3 z = h z" if "z \<notin> insert q (set (ys @ e # zs))" for z
    using that p n by (auto simp: h3_def h2_def h1_def)
  ultimately show ?thesis by (auto simp: h3_def)
qed

lemma list_empty_dlist: "dlist h q xs \<Longrightarrow> list_empty (Ptr q) h = Some (xs = [])"
  by (cases xs) (auto simp: list_empty_def dlist_def)

lemma list_first_dlist: "dlist h q xs \<Longrightarrow> xs \<noteq> [] \<Longrightarrow> list_first (Ptr q) h = Some (Ptr (hd xs))"
  by (cases xs) (auto simp: list_first_def dlist_def)

lemma list_is_last_dlist:
  assumes "dlist h q xs" and "e \<in> set xs"
  shows "list_is_last (Ptr e) (Ptr q) h = Some (e = last xs)"
proof -
  obtain ys zs where xs: "xs = ys @ e # zs" using assms(2) by (meson split_list)
  with assms(1) have "chain h e zs q" and "distinct (q # ys @ e # zs)" by (auto simp: dlist_def)
  then show ?thesis by (cases zs) (auto simp: xs list_is_last_def)
qed

lemma list_for_each_chain:
  "chain h a xs q \<Longrightarrow> q \<notin> set xs \<Longrightarrow> list_for_each (nxt (h a)) (Ptr q) h = Some (map Ptr xs)"
proof (induction xs arbitrary: a)
  case Nil
  then show ?case by (simp add: list_for_each.simps)
next
  case (Cons y ys)
  then have "list_for_each (nxt (h y)) (Ptr q) h = Some (map Ptr ys)" by simp
  with Cons.prems show ?case by (subst list_for_each.simps) auto
qed

text \<open>
  A body that takes the cursor's entry out of the list and keeps a property \<open>P\<close> of the memory
  and the entries still to come: the loop ends, has seen every entry once, in order, and the
  list is empty.
\<close>

lemma list_for_each_safe_drains:
  assumes dl: "\<And>h xs. P h xs \<Longrightarrow> dlist h q xs"
    and step: "\<And>h e xs. P h (e # xs) \<Longrightarrow> \<exists>h'. body (Ptr e) h = Some h' \<and> P h' xs"
    and "P h xs"
  shows "\<exists>h'. list_for_each_safe body (Ptr q) h = Some (map Ptr xs, h') \<and> P h' []"
proof -
  have head: "nxt (h q) = Ptr (hd (xs @ [q]))" if "P h xs" for h xs using dlist_nxt [OF dl [OF that]] .
  have loop: "\<exists>h'. safe_loop body (Ptr q) (Ptr (hd (xs @ [q]))) (nxt (h (hd (xs @ [q])))) h = Some (map Ptr xs, h') \<and> P h' []"
    if "P h xs" for h xs
    using that
  proof (induction xs arbitrary: h)
    case Nil
    then show ?case by (auto simp: safe_loop.simps)
  next
    case (Cons e es)
    have d: "dlist h q (e # es)" by (rule dl [OF Cons.prems])
    have n: "nxt (h e) = Ptr (hd (es @ [q]))" "e \<noteq> q" using d chain_nxt [of h e es q] by (auto simp: dlist_def)
    obtain h1 where h1: "body (Ptr e) h = Some h1" "P h1 es" using step [OF Cons.prems] by blast
    obtain h' where "safe_loop body (Ptr q) (Ptr (hd (es @ [q]))) (nxt (h1 (hd (es @ [q])))) h1 = Some (map Ptr es, h')" "P h' []"
      using Cons.IH [OF h1(2)] by blast
    then show ?case using n h1(1) by (subst safe_loop.simps) simp
  qed
  show ?thesis using loop [OF assms(3)] by (simp add: list_for_each_safe_def head [OF assms(3)])
qed

text \<open>An entry moves from any place of one list to the end of another.\<close>

lemma dlist_move:
  assumes d: "dlist h q (ys @ e # zs)" "dlist h q' ws" and dis: "set (q # ys @ e # zs) \<inter> set (q' # ws) = {}"
  shows "\<exists>h1 h2. list_del (Ptr e) h = Some h1 \<and> list_add_tail (Ptr e) (Ptr q') h1 = Some h2
    \<and> dlist h2 q (ys @ zs) \<and> dlist h2 q' (ws @ [e])
    \<and> (\<forall>z. z \<notin> set (q # ys @ e # zs) \<union> set (q' # ws) \<longrightarrow> h2 z = h z)"
proof -
  from list_del_dlist [OF d(1)] obtain h1 where h1: "list_del (Ptr e) h = Some h1" "dlist h1 q (ys @ zs)"
    "\<forall>z. z \<notin> insert q (set (ys @ e # zs)) \<longrightarrow> h1 z = h z" by blast
  have "dlist h1 q' ws" using h1(3) dis by (intro dlist_frame [OF d(2)]) auto
  moreover have "e \<notin> insert q' (set ws)" using dis by auto
  ultimately obtain h2 where h2: "list_add_tail (Ptr e) (Ptr q') h1 = Some h2" "dlist h2 q' (ws @ [e])"
    "\<forall>z. z \<notin> insert e (insert q' (set ws)) \<longrightarrow> h2 z = h1 z" using list_add_tail_dlist by metis
  have "e \<notin> insert q (set (ys @ zs))" using dlist_distinct [OF d(1)] by auto
  then have "dlist h2 q (ys @ zs)" using h2(3) dis by (intro dlist_frame [OF h1(2)]) auto
  then show ?thesis using h1 h2 by auto
qed

definition move_tail :: "'a ptr \<Rightarrow> 'a ptr \<Rightarrow> 'a links \<Rightarrow> 'a links option" where
  "move_tail head e h = do { h \<leftarrow> list_del e h; list_add_tail e head h }"

lemma list_move_all:
  assumes "dlist h q xs" "dlist h q' ws" "set (q # xs) \<inter> set (q' # ws) = {}"
  shows "\<exists>h'. list_for_each_safe (move_tail (Ptr q')) (Ptr q) h = Some (map Ptr xs, h') \<and> dlist h' q [] \<and> dlist h' q' (ws @ xs)"
proof -
  let ?P = "\<lambda>h es. \<exists>ds. ds @ es = xs \<and> dlist h q es \<and> dlist h q' (ws @ ds)"
  have "\<exists>h'. move_tail (Ptr q') (Ptr e) h = Some h' \<and> ?P h' es" if P: "?P h (e # es)" for h e es
  proof -
    obtain ds where ds: "ds @ e # es = xs" "dlist h q ([] @ e # es)" "dlist h q' (ws @ ds)" using P by auto
    have "distinct xs" using dlist_distinct [OF assms(1)] by simp
    then have "set (q # [] @ e # es) \<inter> set (q' # ws @ ds) = {}"
      using assms(3) dlist_distinct [OF assms(1)] ds(1) by auto
    from dlist_move [OF ds(2,3) this] obtain h1 h2 where "list_del (Ptr e) h = Some h1"
      "list_add_tail (Ptr e) (Ptr q') h1 = Some h2" "dlist h2 q es" "dlist h2 q' (ws @ ds @ [e])" by auto
    then show ?thesis using ds(1) by (intro exI [of _ h2]) (auto simp: move_tail_def intro: exI [of _ "ds @ [e]"])
  qed
  from list_for_each_safe_drains [of ?P q "move_tail (Ptr q')", OF _ this] show ?thesis
    using assms(1,2) by (metis append_Nil append_Nil2)
qed

section \<open>The queue contract\<close>

text \<open>
  What the scheduler relies on: a relation \<open>rep\<close> between a memory, a queue head and a
  sequence of entries; each operation succeeds on a represented queue, has its effect on the
  sequence, and leaves every other represented queue alone.
\<close>

locale intrusive_queue =
  fixes rep :: "'h \<Rightarrow> 'q \<Rightarrow> 'q list \<Rightarrow> bool"
    and add add_tail :: "'q \<Rightarrow> 'q \<Rightarrow> 'h \<Rightarrow> 'h option"
    and del :: "'q \<Rightarrow> 'h \<Rightarrow> 'h option"
    and is_empty :: "'q \<Rightarrow> 'h \<Rightarrow> bool option"
    and first :: "'q \<Rightarrow> 'h \<Rightarrow> 'q option"
  assumes rep_distinct: "rep h q xs \<Longrightarrow> distinct (q # xs)"
    and empty_law: "rep h q xs \<Longrightarrow> is_empty q h = Some (xs = [])"
    and first_law: "rep h q (e # xs) \<Longrightarrow> first q h = Some e"
    and add_law: "rep h q xs \<Longrightarrow> n \<notin> set (q # xs) \<Longrightarrow>
      \<exists>h'. add n q h = Some h' \<and> rep h' q (n # xs) \<and>
        (\<forall>q' ys. rep h q' ys \<longrightarrow> set (q' # ys) \<inter> set (n # q # xs) = {} \<longrightarrow> rep h' q' ys)"
    and add_tail_law: "rep h q xs \<Longrightarrow> n \<notin> set (q # xs) \<Longrightarrow>
      \<exists>h'. add_tail n q h = Some h' \<and> rep h' q (xs @ [n]) \<and>
        (\<forall>q' ys. rep h q' ys \<longrightarrow> set (q' # ys) \<inter> set (n # q # xs) = {} \<longrightarrow> rep h' q' ys)"
    and del_law: "rep h q (xs @ e # zs) \<Longrightarrow>
      \<exists>h'. del e h = Some h' \<and> rep h' q (xs @ zs) \<and>
        (\<forall>q' ys. rep h q' ys \<longrightarrow> set (q' # ys) \<inter> set (q # xs @ e # zs) = {} \<longrightarrow> rep h' q' ys)"
begin

text \<open>Several queues at once: heads \<open>H\<close>, contents \<open>Q\<close>, no entry in two queues.\<close>

definition queues :: "'h \<Rightarrow> 'q set \<Rightarrow> ('q \<Rightarrow> 'q list) \<Rightarrow> bool" where
  "queues h H Q \<longleftrightarrow> (\<forall>q\<in>H. rep h q (Q q)) \<and> (\<forall>q\<in>H. set (Q q) \<inter> H = {})
     \<and> (\<forall>q\<in>H. \<forall>q'\<in>H. q \<noteq> q' \<longrightarrow> set (Q q) \<inter> set (Q q') = {})"

definition members :: "'q set \<Rightarrow> ('q \<Rightarrow> 'q list) \<Rightarrow> 'q set" where
  "members H Q = (\<Union>q\<in>H. set (Q q))"

lemma queues_disjoint:
  "queues h H Q \<Longrightarrow> q \<in> H \<Longrightarrow> q' \<in> H \<Longrightarrow> n \<in> set (Q q) \<Longrightarrow> n \<in> set (Q q') \<Longrightarrow> q = q'"
  unfolding queues_def by (metis disjoint_iff)

lemma queues_head: "queues h H Q \<Longrightarrow> q \<in> H \<Longrightarrow> n \<in> set (Q q) \<Longrightarrow> n \<notin> H"
  unfolding queues_def by (metis disjoint_iff)

lemma queues_rep: "queues h H Q \<Longrightarrow> q \<in> H \<Longrightarrow> rep h q (Q q)"
  by (simp add: queues_def)

lemma queues_update:
  assumes Q: "queues h H Q" and q: "q \<in> H" and r: "rep h' q xs"
    and new: "set xs \<subseteq> insert n (set (Q q))" and n: "n \<notin> H" "n \<notin> members H Q \<or> n \<in> set (Q q)"
    and frame: "\<And>q' ys. rep h q' ys \<Longrightarrow> set (q' # ys) \<inter> set (n # q # Q q) = {} \<Longrightarrow> rep h' q' ys"
  shows "queues h' H (Q(q := xs))"
proof -
  have nq: "n \<notin> set (Q q')" if "q' \<in> H" "q' \<noteq> q" for q'
    using queues_disjoint [OF Q q that(1), of n] n(2) that by (auto simp: members_def)
  have disj: "set (Q q') \<inter> set (Q q) = {}" if "q' \<in> H" "q' \<noteq> q" for q'
    using queues_disjoint [OF Q q that(1)] that(2) by blast
  have other: "rep h' q' (Q q')" if "q' \<in> H" "q' \<noteq> q" for q'
    using queues_rep [OF Q that(1)] disj [OF that] nq [OF that] that n(1)
      queues_head [OF Q q, of q'] queues_head [OF Q that(1), of q] q
    by (intro frame) (auto simp: disjoint_iff)
  show ?thesis
    unfolding queues_def
  proof (intro conjI ballI impI)
    fix q1 assume "q1 \<in> H"
    then show "rep h' q1 ((Q(q := xs)) q1)" using r other by auto
  next
    fix q1 assume "q1 \<in> H"
    then show "set ((Q(q := xs)) q1) \<inter> H = {}"
      using queues_head [OF Q] q n(1) new by (auto simp: disjoint_iff)
  next
    fix q1 q2 assume "q1 \<in> H" "q2 \<in> H" "q1 \<noteq> q2"
    then show "set ((Q(q := xs)) q1) \<inter> set ((Q(q := xs)) q2) = {}"
      using nq [of q1] nq [of q2] new disj [of q1] disj [of q2] queues_disjoint [OF Q, of q1 q2] q
      by (cases "q1 = q"; cases "q2 = q") auto
  qed
qed

lemma queues_add:
  assumes Q: "queues h H Q" and q: "q \<in> H" and n: "n \<notin> H" "n \<notin> members H Q"
  shows "\<exists>h'. add n q h = Some h' \<and> queues h' H (Q(q := n # Q q))"
proof -
  have "rep h q (Q q)" and "n \<notin> set (q # Q q)" using Q q n by (auto simp: queues_def members_def)
  from add_law [OF this] obtain h' where h': "add n q h = Some h'" "rep h' q (n # Q q)"
    and fr: "\<And>q' ys. rep h q' ys \<Longrightarrow> set (q' # ys) \<inter> set (n # q # Q q) = {} \<Longrightarrow> rep h' q' ys"
    by blast
  have "queues h' H (Q(q := n # Q q))"
    by (rule queues_update [OF Q q h'(2) _ n(1) _ fr]) (use n in auto)
  with h' show ?thesis by blast
qed

lemma queues_add_tail:
  assumes Q: "queues h H Q" and q: "q \<in> H" and n: "n \<notin> H" "n \<notin> members H Q"
  shows "\<exists>h'. add_tail n q h = Some h' \<and> queues h' H (Q(q := Q q @ [n]))"
proof -
  have "rep h q (Q q)" and "n \<notin> set (q # Q q)" using Q q n by (auto simp: queues_def members_def)
  from add_tail_law [OF this] obtain h' where h': "add_tail n q h = Some h'" "rep h' q (Q q @ [n])"
    and fr: "\<And>q' ys. rep h q' ys \<Longrightarrow> set (q' # ys) \<inter> set (n # q # Q q) = {} \<Longrightarrow> rep h' q' ys"
    by blast
  have "queues h' H (Q(q := Q q @ [n]))"
    by (rule queues_update [OF Q q h'(2) _ n(1) _ fr]) (use n in auto)
  with h' show ?thesis by blast
qed

lemma queues_del:
  assumes Q: "queues h H Q" and q: "q \<in> H" and e: "Q q = xs @ e # zs"
  shows "\<exists>h'. del e h = Some h' \<and> queues h' H (Q(q := xs @ zs))"
proof -
  have r: "rep h q (xs @ e # zs)" using queues_rep [OF Q q] e by simp
  have "e \<notin> H" using queues_head [OF Q q] e by simp
  from del_law [OF r] obtain h' where h': "del e h = Some h'" "rep h' q (xs @ zs)"
    and fr: "\<And>q' ys. rep h q' ys \<Longrightarrow> set (q' # ys) \<inter> set (q # xs @ e # zs) = {} \<Longrightarrow> rep h' q' ys"
    by blast
  have "queues h' H (Q(q := xs @ zs))"
    by (rule queues_update [OF Q q h'(2) _ \<open>e \<notin> H\<close>]) (use e fr in auto)
  with h' show ?thesis by blast
qed

lemma queues_empty: "queues h H Q \<Longrightarrow> q \<in> H \<Longrightarrow> is_empty q h = Some (Q q = [])"
  by (simp add: queues_def empty_law)

lemma queues_first: "queues h H Q \<Longrightarrow> q \<in> H \<Longrightarrow> Q q = e # xs \<Longrightarrow> first q h = Some e"
  using first_law unfolding queues_def by metis

text \<open>Taking the first entry of a queue: what \<^verbatim>\<open>list_first\<close> and \<^verbatim>\<open>list_del\<close> do together.\<close>

lemma queues_pop:
  assumes "queues h H Q" "q \<in> H" "Q q = e # xs"
  shows "first q h = Some e \<and> (\<exists>h'. del e h = Some h' \<and> queues h' H (Q(q := xs)))
    \<and> e \<notin> H \<and> e \<notin> members H (Q(q := xs))"
proof -
  have "distinct (q # Q q)" by (rule rep_distinct [OF queues_rep [OF assms(1,2)]])
  moreover have "e \<notin> H" using queues_head [OF assms(1,2)] assms(3) by simp
  moreover have "e \<notin> set (Q q')" if "q' \<in> H" "q' \<noteq> q" for q'
    using queues_disjoint [OF assms(1,2) that(1), of e] that assms(3) by auto
  ultimately have "e \<notin> members H (Q(q := xs))" using assms(3) by (auto simp: members_def)
  then show ?thesis
    using queues_first [OF assms] queues_del [OF assms(1,2), of "[]"] assms(3) \<open>e \<notin> H\<close> by simp
qed

text \<open>Taking an entry and putting it back in front restores the contents.\<close>

lemma queues_pop_push:
  assumes "queues h H Q" "q \<in> H" "Q q = e # xs"
  shows "\<exists>h1 h2. del e h = Some h1 \<and> add e q h1 = Some h2 \<and> queues h2 H Q"
proof -
  from queues_pop [OF assms] obtain h1 where "del e h = Some h1" "queues h1 H (Q(q := xs))"
    "e \<notin> H" "e \<notin> members H (Q(q := xs))" by blast
  moreover from queues_add [OF this(2) assms(2) this(3,4)] obtain h2
    where "add e q h1 = Some h2" "queues h2 H (Q(q := xs, q := e # xs))" by auto
  moreover have "Q(q := xs, q := e # xs) = Q" using assms(3) by auto
  ultimately show ?thesis by metis
qed

end

text \<open>\<^verbatim>\<open>list.c\<close> fulfils the contract, with \<open>dlist\<close> as the representation.\<close>

definition list_first_entry :: "'a \<Rightarrow> 'a links \<Rightarrow> 'a option" where
  "list_first_entry q h = (case list_first (Ptr q) h of Some (Ptr e) \<Rightarrow> Some e | _ \<Rightarrow> None)"

interpretation lq: intrusive_queue dlist "\<lambda>n q. list_add (Ptr n) (Ptr q)"
  "\<lambda>n q. list_add_tail (Ptr n) (Ptr q)" "\<lambda>e. list_del (Ptr e)" "\<lambda>q. list_empty (Ptr q)"
  list_first_entry
proof (unfold_locales, goal_cases)
  case (1 h q xs)
  then show ?case by (simp add: dlist_def)
next
  case (2 h q xs)
  then show ?case by (rule list_empty_dlist)
next
  case (3 h q e xs)
  then show ?case by (simp add: list_first_entry_def list_first_dlist)
next
  case (4 h q xs n)
  then obtain h' where "list_add (Ptr n) (Ptr q) h = Some h'" "dlist h' q (n # xs)"
    "\<forall>z. z \<notin> insert n (insert q (set xs)) \<longrightarrow> h' z = h z"
    using list_add_dlist [of h q xs n] by auto
  then show ?case by (fastforce intro: dlist_frame)
next
  case (5 h q xs n)
  then obtain h' where "list_add_tail (Ptr n) (Ptr q) h = Some h'" "dlist h' q (xs @ [n])"
    "\<forall>z. z \<notin> insert n (insert q (set xs)) \<longrightarrow> h' z = h z"
    using list_add_tail_dlist [of h q xs n] by auto
  then show ?case by (fastforce intro: dlist_frame)
next
  case (6 h q xs e zs)
  then obtain h' where "list_del (Ptr e) h = Some h'" "dlist h' q (xs @ zs)"
    "\<forall>z. z \<notin> insert q (set (xs @ e # zs)) \<longrightarrow> h' z = h z"
    using list_del_dlist [of h q xs e zs] by auto
  then show ?case by (fastforce intro: dlist_frame)
qed

end
