(* ===== verification/Kernel_Utils.thy ===== *)
theory Kernel_Utils
  imports Zeos_Prelude
begin

text \<open>
  \<^verbatim>\<open>utils.c\<close>: the three copy routines, \<^verbatim>\<open>access_ok\<close> and the 64-by-32-bit division
  \<^verbatim>\<open>do_div\<close> behind \<^verbatim>\<open>get_ticks\<close>.  The copy loops are written over an arbitrary memory,
  given by a byte read and a byte write that may fault; the locale \<open>byte_store\<close> is what they
  need from it, and the components interpret it on the memories they copy between.
\<close>

section \<open>Signed sizes\<close>

lemma sint32_range: "- 2147483648 \<le> sint (w :: cint)" "sint (w :: cint) < 2147483648"
  using sint_ge [of w] sint_lt [of w] by simp_all

lemma sint32_diff:
  assumes "- 2147483648 \<le> sint (a :: cint) - sint b" and "sint a - sint b < 2147483648"
  shows "sint (a - b) = sint a - sint b"
  using assms by (simp add: sint_word_ariths signed_take_bit_int_eq_self)

lemma sint32_diff_le:
  assumes "0 \<le> sint b" and "sint b \<le> sint (a :: cint)"
  shows "sint (a - b) = sint a - sint b"
  using assms sint32_range [of a] by (intro sint32_diff) auto

lemma sint32_diff_4: "4 < sint (a :: cint) \<Longrightarrow> sint (a - 4) = sint a - 4"
  using sint32_diff_le [of 4 a] by simp

lemma sint32_dec: "0 < sint (a :: cint) \<Longrightarrow> sint (a - 1) = sint a - 1"
  using sint32_diff_le [of 1 a] by simp

lemma sint_small: "unat (w :: cint) < 2147483648 \<Longrightarrow> sint w = int (unat w)"
proof -
  assume "unat w < 2147483648"
  then have "uint w < 2147483648" by (simp add: uint_nat del: of_nat_unat)
  then have "sint w = uint w"
    unfolding sint_uint by (intro signed_take_bit_int_eq_self) (simp_all add: order_trans [OF _ uint_ge_0])
  then show ?thesis by simp
qed

lemma nat_sint_small: "unat (w :: cint) < 2147483648 \<Longrightarrow> nat (sint w) = unat w"
  by (simp add: sint_small)

lemma sint_of_nat_small: "n < 2147483648 \<Longrightarrow> sint (of_nat n :: cint) = int n"
  using sint_small [of "of_nat n"] by (simp add: unat_of_nat32)

section \<open>The copy routines\<close>

type_synonym 'm reader = "dword \<Rightarrow> 'm \<Rightarrow> byte option"
type_synonym 'm writer = "dword \<Rightarrow> byte \<Rightarrow> 'm \<Rightarrow> 'm option"

text \<open>\<^verbatim>\<open>*q++ = *p++\<close> on \<^verbatim>\<open>DWord\<close> pointers: four bytes are read, then four are written.\<close>

definition copy_dword :: "'m reader \<Rightarrow> 'm writer \<Rightarrow> dword \<Rightarrow> dword \<Rightarrow> 'm \<Rightarrow> 'm option" where
  "copy_dword rd wr p q m =
     do { b0 \<leftarrow> rd p m; b1 \<leftarrow> rd (p + 1) m; b2 \<leftarrow> rd (p + 1 + 1) m; b3 \<leftarrow> rd (p + 1 + 1 + 1) m;
          m \<leftarrow> wr q b0 m; m \<leftarrow> wr (q + 1) b1 m; m \<leftarrow> wr (q + 1 + 1) b2 m; wr (q + 1 + 1 + 1) b3 m }"

function copy_dwords :: "'m reader \<Rightarrow> 'm writer \<Rightarrow> dword \<Rightarrow> dword \<Rightarrow> cint \<Rightarrow> 'm
    \<Rightarrow> (dword \<times> dword \<times> cint \<times> 'm) option" where
  "copy_dwords rd wr p q sz m =
     (if 4 < sint sz
      then do { m \<leftarrow> copy_dword rd wr p q m; copy_dwords rd wr (p + 4) (q + 4) (sz - 4) m }
      else Some (p, q, sz, m))"
  by pat_completeness auto
termination
  by (relation "measure (\<lambda>(rd, wr, p, q, sz, m). nat (sint sz))") (auto simp: sint32_diff_4)

function copy_bytes :: "'m reader \<Rightarrow> 'm writer \<Rightarrow> dword \<Rightarrow> dword \<Rightarrow> cint \<Rightarrow> 'm \<Rightarrow> 'm option" where
  "copy_bytes rd wr p q sz m =
     (if 0 < sint sz
      then do { b \<leftarrow> rd p m; m \<leftarrow> wr q b m; copy_bytes rd wr (p + 1) (q + 1) (sz - 1) m }
      else Some m)"
  by pat_completeness auto
termination
  by (relation "measure (\<lambda>(rd, wr, p, q, sz, m). nat (sint sz))") (auto simp: sint32_dec)

declare copy_dwords.simps [simp del] copy_bytes.simps [simp del]

definition copy_data :: "'m reader \<Rightarrow> 'm writer \<Rightarrow> dword \<Rightarrow> dword \<Rightarrow> cint \<Rightarrow> 'm \<Rightarrow> 'm option" where
  "copy_data rd wr start dest sz m =
     do { (p, q, sz, m) \<leftarrow> copy_dwords rd wr start dest sz m; copy_bytes rd wr p q sz m }"

definition copy_from_user ::
  "'m reader \<Rightarrow> 'm writer \<Rightarrow> dword \<Rightarrow> dword \<Rightarrow> cint \<Rightarrow> 'm \<Rightarrow> (cint \<times> 'm) option" where
  "copy_from_user rd wr start dest sz m =
     do { (p, q, sz, m) \<leftarrow> copy_dwords rd wr start dest sz m;
          m \<leftarrow> copy_bytes rd wr p q sz m;
          Some (0, m) }"

definition copy_to_user ::
  "'m reader \<Rightarrow> 'm writer \<Rightarrow> dword \<Rightarrow> dword \<Rightarrow> cint \<Rightarrow> 'm \<Rightarrow> (cint \<times> 'm) option" where
  "copy_to_user rd wr start dest sz m =
     do { (p, q, sz, m) \<leftarrow> copy_dwords rd wr start dest sz m;
          m \<leftarrow> copy_bytes rd wr p q sz m;
          Some (0, m) }"

text \<open>What every write to an address of \<open>A\<close> keeps, the copy loops keep when they write to \<open>A\<close>.\<close>

definition keeps :: "dword set \<Rightarrow> 'm writer \<Rightarrow> ('m \<Rightarrow> bool) \<Rightarrow> bool" where
  "keeps A wr P \<longleftrightarrow> (\<forall>a\<in>A. \<forall>v m m'. wr a v m = Some m' \<longrightarrow> P m \<longrightarrow> P m')"

definition within :: "dword \<Rightarrow> cint \<Rightarrow> dword set \<Rightarrow> bool" where
  "within q sz A \<longleftrightarrow> (\<forall>k. int k < sint sz \<longrightarrow> q + of_nat k \<in> A)"

lemma within_UNIV [simp]: "within q sz UNIV" by (simp add: within_def)

lemma withinD: "within q sz A \<Longrightarrow> int k < sint sz \<Longrightarrow> q + of_nat k \<in> A"
  by (simp add: within_def)

lemma within_4: "within q sz A \<Longrightarrow> 4 < sint sz \<Longrightarrow> within (q + 4) (sz - 4) A"
  unfolding within_def using withinD [of q sz A "4 + _"] by (simp add: sint32_diff_4 add.assoc within_def)

lemma within_1: "within q sz A \<Longrightarrow> 0 < sint sz \<Longrightarrow> within (q + 1) (sz - 1) A"
  unfolding within_def using withinD [of q sz A "1 + _"] by (simp add: sint32_dec add.assoc within_def)

lemma keepsD: "keeps A wr P \<Longrightarrow> a \<in> A \<Longrightarrow> wr a v m = Some m' \<Longrightarrow> P m \<Longrightarrow> P m'"
  unfolding keeps_def by blast

lemma copy_dword_pred:
  assumes "copy_dword rd wr p q m = Some m'" "keeps A wr P" "within q sz A" "4 < sint sz" "P m"
  shows "P m'"
proof -
  obtain b0 b1 b2 b3 m0 m1 m2 where w: "wr q b0 m = Some m0" "wr (q + 1) b1 m0 = Some m1" "wr (q + 1 + 1) b2 m1 = Some m2"
    "wr (q + 1 + 1 + 1) b3 m2 = Some m'"
    using assms(1) by (auto simp: copy_dword_def split: bind_splits)
  have "q \<in> A" "q + 1 \<in> A" "q + 1 + 1 \<in> A" "q + 1 + 1 + 1 \<in> A"
    using withinD [OF assms(3), of 0] withinD [OF assms(3), of 1] withinD [OF assms(3), of 2] withinD [OF assms(3), of 3] assms(4)
    by (simp_all add: add.assoc)
  then show ?thesis using w assms(2,5) by (metis keepsD)
qed

lemma copy_dwords_pred:
  assumes "copy_dwords rd wr p q sz m = Some (p', q', sz', m')" "keeps A wr P" "within q sz A" "P m"
  shows "P m' \<and> within q' sz' A"
  using assms
proof (induction rd wr p q sz m rule: copy_dwords.induct)
  case (1 rd wr p q sz m)
  show ?case
  proof (cases "4 < sint sz")
    case True
    then obtain m1 where m1: "copy_dword rd wr p q m = Some m1" "copy_dwords rd wr (p + 4) (q + 4) (sz - 4) m1 = Some (p', q', sz', m')"
      using 1(2) by (subst (asm) copy_dwords.simps) (auto split: bind_splits)
    then show ?thesis using 1(1) [OF True m1 1(3) within_4 [OF 1(4) True]] copy_dword_pred [OF m1(1) 1(3,4) True 1(5)] by blast
  next
    case False
    then show ?thesis using 1(2,4,5) by (subst (asm) copy_dwords.simps) simp
  qed
qed

lemma copy_bytes_pred:
  assumes "copy_bytes rd wr p q sz m = Some m'" "keeps A wr P" "within q sz A" "P m"
  shows "P m'"
  using assms
proof (induction rd wr p q sz m rule: copy_bytes.induct)
  case (1 rd wr p q sz m)
  show ?case
  proof (cases "0 < sint sz")
    case True
    then obtain b m1 where m1: "rd p m = Some b" "wr q b m = Some m1" "copy_bytes rd wr (p + 1) (q + 1) (sz - 1) m1 = Some m'"
      using 1(2) by (subst (asm) copy_bytes.simps) (auto split: bind_splits)
    have "q \<in> A" using withinD [OF 1(4), of 0] True by simp
    then show ?thesis using 1(1) [OF True m1 1(3) within_1 [OF 1(4) True]] keepsD [OF 1(3) _ m1(2) 1(5)] by blast
  next
    case False
    then show ?thesis using 1(2,5) by (subst (asm) copy_bytes.simps) simp
  qed
qed

lemma copy_from_user_eq: "copy_from_user rd wr p q sz m = map_option (Pair 0) (copy_data rd wr p q sz m)"
  by (auto simp: copy_from_user_def copy_data_def map_option_case split: bind_splits option.splits prod.splits)

lemma copy_to_user_eq: "copy_to_user rd wr p q sz m = map_option (Pair 0) (copy_data rd wr p q sz m)"
  by (auto simp: copy_to_user_def copy_data_def map_option_case split: bind_splits option.splits prod.splits)

lemma copy_data_step:
  "copy_data rd wr p q sz m =
     (if 4 < sint sz
      then do { m \<leftarrow> copy_dword rd wr p q m; copy_data rd wr (p + 4) (q + 4) (sz - 4) m }
      else copy_bytes rd wr p q sz m)"
  unfolding copy_data_def by (subst copy_dwords.simps) (auto simp: bind_assoc)

section \<open>What a memory has to provide\<close>

text \<open>
  \<open>rloc\<close> and \<open>wloc\<close> resolve an address for reading and for writing to a location (for user
  memory through the page tables); \<open>get\<close> and \<open>put\<close> access a location.  \<open>run_at loc p m ls\<close>
  says that the addresses \<open>p, p + 1, \<dots>\<close> resolve to the locations \<open>ls\<close>.
\<close>

fun run_at :: "(dword \<Rightarrow> 'm \<Rightarrow> 'l option) \<Rightarrow> dword \<Rightarrow> 'm \<Rightarrow> 'l list \<Rightarrow> bool" where
  "run_at loc p m [] = True"
| "run_at loc p m (l # ls) = (loc p m = Some l \<and> run_at loc (p + 1) m ls)"

lemma run_at_iff: "run_at loc p m ls \<longleftrightarrow> (\<forall>k<length ls. loc (p + of_nat k) m = Some (ls ! k))"
proof (induction ls arbitrary: p)
  case (Cons l ls)
  have "run_at loc p m (l # ls) \<longleftrightarrow> loc p m = Some l \<and>
      (\<forall>k<length ls. loc (p + of_nat (Suc k)) m = Some ((l # ls) ! Suc k))"
    using Cons by (simp add: ac_simps)
  also have "\<dots> \<longleftrightarrow> (\<forall>k<Suc (length ls). loc (p + of_nat k) m = Some ((l # ls) ! k))"
    by (simp only: All_less_Suc2) simp
  finally show ?case by simp
qed simp

definition put_all :: "('l \<Rightarrow> byte \<Rightarrow> 'm \<Rightarrow> 'm) \<Rightarrow> 'l list \<Rightarrow> byte list \<Rightarrow> 'm \<Rightarrow> 'm" where
  "put_all put ls vs = fold (\<lambda>(l, v). put l v) (zip ls vs)"

lemma put_all_simps [simp]:
  "put_all put [] vs m = m"
  "put_all put ls [] m = m"
  "put_all put (l # ls) (v # vs) m = put_all put ls vs (put l v m)"
  by (simp_all add: put_all_def)

locale byte_store =
  fixes rloc wloc :: "dword \<Rightarrow> 'm \<Rightarrow> 'l option"
    and get :: "'l \<Rightarrow> 'm \<Rightarrow> byte"
    and put :: "'l \<Rightarrow> byte \<Rightarrow> 'm \<Rightarrow> 'm"
    and rd :: "'m reader" and wr :: "'m writer"
  assumes rd_law: "rd a m = map_option (\<lambda>l. get l m) (rloc a m)"
    and wr_law: "wr a v m = map_option (\<lambda>l. put l v m) (wloc a m)"
    and rloc_put: "rloc a (put l v m) = rloc a m"
    and wloc_put: "wloc a (put l v m) = wloc a m"
    and get_put: "get l' (put l v m) = (if l' = l then v else get l' m)"
begin

lemma run_at_put [simp]:
  "run_at rloc p (put l v m) ls = run_at rloc p m ls"
  "run_at wloc p (put l v m) ls = run_at wloc p m ls"
  by (simp_all add: run_at_iff rloc_put wloc_put)

lemma get_put_all_other: "l \<notin> set ls \<Longrightarrow> get l (put_all put ls vs m) = get l m"
proof (induction ls arbitrary: vs m)
  case (Cons a ls)
  then show ?case by (cases vs) (auto simp: get_put)
qed simp

lemma get_put_all:
  "distinct ls \<Longrightarrow> length vs = length ls \<Longrightarrow> k < length ls \<Longrightarrow> get (ls ! k) (put_all put ls vs m) = vs ! k"
proof (induction ls arbitrary: vs m k)
  case (Cons a ls)
  then obtain v vs' where "vs = v # vs'" by (cases vs) auto
  with Cons show ?case by (cases k) (auto simp: get_put get_put_all_other)
qed simp

lemma map_get_put: "l \<notin> set rs \<Longrightarrow> map (\<lambda>r. get r (put l v m)) rs = map (\<lambda>r. get r m) rs"
  by (auto simp: get_put)

lemma copy_bytes_spec:
  assumes "run_at rloc p m rs" "run_at wloc q m ws" "length rs = length ws"
    and "set rs \<inter> set ws = {}" and "nat (sint sz) = length ws"
  shows "copy_bytes rd wr p q sz m = Some (put_all put ws (map (\<lambda>r. get r m) rs) m)"
  using assms
proof (induction ws arbitrary: rs p q sz m)
  case Nil
  then show ?case by (subst copy_bytes.simps) auto
next
  case (Cons w ws)
  then obtain r rs' where rs: "rs = r # rs'" by (cases rs) auto
  from Cons.prems have sz: "0 < sint sz" "nat (sint (sz - 1)) = length ws"
    by (auto simp: sint32_dec)
  let ?m = "put w (get r m) m"
  have "copy_bytes rd wr (p + 1) (q + 1) (sz - 1) ?m
      = Some (put_all put ws (map (\<lambda>r. get r ?m) rs') ?m)"
    by (rule Cons.IH) (use Cons.prems rs sz in auto)
  moreover have "map (\<lambda>r. get r ?m) rs' = map (\<lambda>r. get r m) rs'"
    using Cons.prems rs by (intro map_get_put) auto
  ultimately show ?case
    using Cons.prems rs sz by (subst copy_bytes.simps) (simp add: rd_law wr_law)
qed

lemma copy_dword_spec:
  assumes "run_at rloc p m [r0, r1, r2, r3]" "run_at wloc q m [w0, w1, w2, w3]"
  shows "copy_dword rd wr p q m
    = Some (put_all put [w0, w1, w2, w3] (map (\<lambda>r. get r m) [r0, r1, r2, r3]) m)"
  using assms by (simp add: copy_dword_def rd_law wr_law wloc_put)

text \<open>The copy routine stores the source bytes at the destination, for disjoint ranges.\<close>

lemma copy_data_spec:
  assumes "run_at rloc p m rs" "run_at wloc q m ws" "length rs = length ws"
    and "set rs \<inter> set ws = {}" and "nat (sint sz) = length ws"
  shows "copy_data rd wr p q sz m = Some (put_all put ws (map (\<lambda>r. get r m) rs) m)"
  using assms
proof (induction "length ws" arbitrary: rs ws p q sz m rule: less_induct)
  case less
  show ?case
  proof (cases "4 < sint sz")
    case False
    then show ?thesis using copy_bytes_spec [OF less.prems] by (subst copy_data_step) simp
  next
    case True
    then have "4 < length ws" using less.prems(5) by simp
    then obtain w0 w1 w2 w3 ws' where ws: "ws = w0 # w1 # w2 # w3 # ws'"
      by (auto simp: less_iff_Suc_add length_Suc_conv numeral_eq_Suc)
    moreover obtain r0 r1 r2 r3 rs' where rs: "rs = r0 # r1 # r2 # r3 # rs'"
      using less.prems(3) ws by (auto simp: length_Suc_conv)
    let ?ws = "[w0, w1, w2, w3]" and ?rs = "[r0, r1, r2, r3]"
    let ?m = "put_all put ?ws (map (\<lambda>r. get r m) ?rs) m"
    have four: "p + 4 = p + 1 + 1 + 1 + 1" "q + 4 = q + 1 + 1 + 1 + 1" by simp_all
    have "copy_dword rd wr p q m = Some ?m"
      by (rule copy_dword_spec) (use less.prems rs ws in auto)
    moreover have "copy_data rd wr (p + 4) (q + 4) (sz - 4) ?m
        = Some (put_all put ws' (map (\<lambda>r. get r ?m) rs') ?m)"
    proof (rule less.hyps)
      show "nat (sint (sz - 4)) = length ws'"
        using less.prems(5) True ws by (simp add: sint32_diff_4)
    qed (use less.prems rs ws in \<open>simp_all add: four\<close>)
    moreover have "map (\<lambda>r. get r ?m) rs' = map (\<lambda>r. get r m) rs'"
      using less.prems rs ws by (intro map_cong [OF refl] get_put_all_other) auto
    ultimately show ?thesis using True rs by (subst copy_data_step) (simp cong: map_cong)
  qed
qed

end

section \<open>access\_ok\<close>

definition VERIFY_READ :: cint where [simp]: "VERIFY_READ = 0"
definition VERIFY_WRITE :: cint where [simp]: "VERIFY_WRITE = 1"

text \<open>
  The \<^verbatim>\<open>switch\<close> has no \<^verbatim>\<open>break\<close>: a failed \<^const>\<open>VERIFY_WRITE\<close> test falls through to the
  default case.
\<close>

definition access_ok_default :: "dword \<Rightarrow> dword \<Rightarrow> cint" where
  "access_ok_default addr_ini addr_fin =
     (if addr_ini \<ge> USER_FIRST_PAGE
         \<and> addr_fin \<le> USER_FIRST_PAGE + of_nat NUM_PAG_CODE + of_nat NUM_PAG_DATA
      then 1 else 0)"

definition access_ok :: "cint \<Rightarrow> dword \<Rightarrow> dword \<Rightarrow> cint" where
  "access_ok type addr sz =
     (let addr_ini = drop_bit 12 addr; addr_fin = drop_bit 12 (addr + sz)
      in if type = VERIFY_WRITE
         then if addr_ini \<ge> USER_FIRST_PAGE + of_nat NUM_PAG_CODE
                 \<and> addr_fin \<le> USER_FIRST_PAGE + of_nat NUM_PAG_CODE + of_nat NUM_PAG_DATA
              then 1 else access_ok_default addr_ini addr_fin
         else access_ok_default addr_ini addr_fin)"

text \<open>
  The \<^verbatim>\<open>switch\<close> falls through: a write check accepts exactly what a read check accepts, blocks
  inside the code pages included.
\<close>

lemma access_ok_write_is_read: "access_ok VERIFY_WRITE addr sz = access_ok VERIFY_READ addr sz"
proof -
  have "x \<ge> 0x108 \<Longrightarrow> x \<ge> 0x100" for x :: dword by (rule order_trans [rotated]) auto
  then show ?thesis by (auto simp: access_ok_def access_ok_default_def Let_def)
qed

section \<open>do\_div\<close>

definition CYCLESPERTICK :: dword where [simp]: "CYCLESPERTICK = 109000"

text \<open>
  The x86 instruction \<^verbatim>\<open>divl\<close>: \<^verbatim>\<open>edx:eax\<close> by a 32-bit divisor; a zero divisor or a
  quotient that does not fit raises a divide error.
\<close>

definition divl :: "dword \<Rightarrow> dword \<Rightarrow> dword \<Rightarrow> (dword \<times> dword) option" where
  "divl upper low base =
     (let n = unat upper * 2 ^ 32 + unat low
      in if base = 0 \<or> 2 ^ 32 \<le> n div unat base then None
         else Some (of_nat (n div unat base), of_nat (n mod unat base)))"

definition do_div :: "qword \<Rightarrow> dword \<Rightarrow> (qword \<times> dword) option" where
  "do_div n base =
     (let low = ucast n :: dword; high = ucast (drop_bit 32 n) :: dword
      in if high \<noteq> 0 \<and> base = 0 then None
         else let upper = (if high \<noteq> 0 then high mod base else high);
                  high = (if high \<noteq> 0 then high div base else high)
              in do { (low, md) \<leftarrow> divl upper low base;
                      Some (push_bit 32 (ucast high) OR ucast low, md) })"

lemma unat_dword_pair:
  "unat (push_bit 32 (ucast (h :: dword)) OR ucast (l :: dword) :: qword) = unat h * 2 ^ 32 + unat l"
proof -
  have "push_bit 32 (ucast h) OR ucast l = (push_bit 32 (ucast h) + ucast l :: qword)"
    by (rule disjunctive_add_eq_or [symmetric]) (auto simp: bit_eq_iff bit_simps dest: bit_imp_le_length)
  moreover have "unat h * 4294967296 + unat l < 2 ^ 64"
    using unat32_less [of h] unat32_less [of l] by simp
  ultimately show ?thesis
    by (simp add: unat_word_ariths push_bit_eq_mult unsigned_ucast_eq take_bit_eq_mod)
qed

lemma unat_high_half: "unat (ucast (drop_bit 32 (n :: qword)) :: dword) = unat n div 2 ^ 32"
proof -
  have "unat n < 2 ^ 64" by (rule order_less_le_trans [OF unsigned_less]) simp
  then have "unat n div 2 ^ 32 < 2 ^ 32" by (simp add: div_less_iff_less_mult)
  moreover have "unat (drop_bit 32 n) = unat n div 2 ^ 32"
    using \<open>unat n < 2 ^ 64\<close> by (simp only: unsigned_drop_bit_eq) (simp add: drop_bit_eq_div take_bit_eq_mod)
  ultimately show ?thesis by (simp only: unsigned_ucast_eq take_bit_eq_mod) simp
qed

lemma unat_low_half: "unat (ucast (n :: qword) :: dword) = unat n mod 2 ^ 32"
  by (simp add: unsigned_ucast_eq take_bit_eq_mod)

text \<open>Long division in two digits: the remainder of the high digit carries into the low one.\<close>

lemma long_division:
  fixes N B D :: nat
  assumes "0 < B" and n': "n' = (N div D) mod B * D + N mod D"
  shows "(N div D) div B * D + n' div B = N div B" and "n' mod B = N mod B"
proof -
  define h where "h = N div D"
  have "N = h * D + N mod D" by (simp add: h_def)
  moreover have "h = h div B * B + h mod B" by simp
  ultimately have "N = (h div B * B + h mod B) * D + N mod D" by presburger
  also have "\<dots> = n' + h div B * D * B"
    unfolding n' h_def [symmetric] by (simp only: algebra_simps)
  finally have "N = n' + h div B * D * B" .
  moreover have "(n' + h div B * D * B) div B = h div B * D + n' div B"
    and "(n' + h div B * D * B) mod B = n' mod B"
    using assms(1) by simp_all
  ultimately show "(N div D) div B * D + n' div B = N div B" "n' mod B = N mod B"
    unfolding h_def [symmetric] by presburger+
qed

lemma unat_ucast_base: "unat (ucast (b :: dword) :: qword) = unat b"
  using unat32_less [of b] by (simp add: unsigned_ucast_eq take_bit_eq_mod)

lemma do_div_eq:
  assumes "base \<noteq> 0"
  shows "do_div n base = Some (n div ucast base, ucast (n mod ucast base))"
proof -
  let ?N = "unat n" and ?B = "unat base" and ?D = "2 ^ 32 :: nat"
  define n' where "n' = (?N div ?D) mod ?B * ?D + ?N mod ?D"
  let ?low = "ucast n :: dword" and ?high = "ucast (drop_bit 32 n) :: dword"
  have B: "0 < ?B" using assms by (simp add: unat_gt_0)
  have n'_less: "n' < ?B * ?D"
  proof -
    have "(?N div ?D) mod ?B * ?D + ?N mod ?D < ((?N div ?D) mod ?B + 1) * ?D" by simp
    also have "\<dots> \<le> ?B * ?D" using B by (intro mult_right_mono) (simp_all add: Suc_le_eq)
    finally show ?thesis by (simp add: n'_def)
  qed
  then have q_less: "n' div ?B < ?D" using B by (simp add: div_less_iff_less_mult mult.commute)
  have r_less: "n' mod ?B < ?D" using B unat32_less [of base] by (simp add: less_trans [OF mod_less_divisor])
  have "divl (?high mod base) ?low base = Some (of_nat (n' div ?B), of_nat (n' mod ?B))"
  proof -
    have "unat (?high mod base) * 2 ^ 32 + unat ?low = n'"
      unfolding n'_def unat_mod unat_high_half by (simp only: unat_low_half)
    then show ?thesis unfolding divl_def Let_def using assms q_less by (simp only: not_le) simp
  qed
  moreover have "push_bit 32 (ucast (?high div base)) OR ucast (of_nat (n' div ?B) :: dword) = n div ucast base"
    unfolding word_unat_eq_iff unat_dword_pair unat_div unat_high_half unat_ucast_base
    using long_division(1) [OF B n'_def] q_less by (simp only: unat_of_nat32)
  moreover have "(of_nat (n' mod ?B) :: dword) = ucast (n mod ucast base)"
    unfolding word_unat_eq_iff using long_division(2) [OF B n'_def] r_less
    by (simp only: unat_low_half unat_mod unat_of_nat32 unat_ucast_base) simp
  ultimately show ?thesis
    using assms unfolding do_div_def Let_def by (cases "?high = 0") auto
qed

end
