(* ===== verification/Kernel_IO.thy ===== *)
theory Kernel_IO
  imports Zeos_Prelude
begin

text \<open>
  The screen of \<^verbatim>\<open>io.c\<close> and the console device of \<^verbatim>\<open>devices.c\<close>.  The state is the cursor
  (\<^verbatim>\<open>x\<close>, \<^verbatim>\<open>y\<close>, both \<^verbatim>\<open>Byte\<close>), the text-mode video memory, a map from addresses to 16-bit
  cells, and the bytes sent to the debug port \<^verbatim>\<open>0xe9\<close>.
\<close>

definition NUM_COLUMNS :: nat where [simp]: "NUM_COLUMNS = 80"
definition NUM_ROWS :: nat where [simp]: "NUM_ROWS = 25"
definition NEWLINE :: byte where [simp]: "NEWLINE = 0x0A"

record screen =
  cur_x :: byte
  cur_y :: byte
  video :: "dword \<Rightarrow> hword"
  port_e9 :: "byte list"

definition next_row :: "byte \<Rightarrow> byte" where
  "next_row y = of_nat ((unat y + 1) mod NUM_ROWS)"

definition cell_addr :: "byte \<Rightarrow> byte \<Rightarrow> dword" where
  "cell_addr x y = 0xb8000 + of_nat (unat y * NUM_COLUMNS + unat x) * 2"

definition printc :: "byte \<Rightarrow> screen \<Rightarrow> screen" where
  "printc c s =
     (let s = s\<lparr>port_e9 := port_e9 s @ [c]\<rparr>
      in if c = NEWLINE then s\<lparr>cur_x := 0, cur_y := next_row (cur_y s)\<rparr>
         else let ch = ucast c OR 0x0200;
                  scr = cell_addr (cur_x s) (cur_y s);
                  s = s\<lparr>cur_x := cur_x s + 1\<rparr>;
                  s = (if unat (cur_x s) \<ge> NUM_COLUMNS
                       then s\<lparr>cur_x := 0, cur_y := next_row (cur_y s)\<rparr> else s)
              in s\<lparr>video := (video s)(scr := ch)\<rparr>)"

definition printc_xy :: "byte \<Rightarrow> byte \<Rightarrow> byte \<Rightarrow> screen \<Rightarrow> screen" where
  "printc_xy mx my c s =
     (let cx = cur_x s; cy = cur_y s;
          s = printc c (s\<lparr>cur_x := mx, cur_y := my\<rparr>)
      in s\<lparr>cur_x := cx, cur_y := cy\<rparr>)"

text \<open>
  \<^verbatim>\<open>printk\<close> reads its argument up to the null byte; an unterminated argument has no result.
\<close>

fun printk :: "byte list \<Rightarrow> screen \<Rightarrow> screen option" where
  "printk [] s = None"
| "printk (c # cs) s = (if c = 0 then Some s else printk cs (printc c s))"

definition sys_write_console :: "(nat \<Rightarrow> byte) \<Rightarrow> cint \<Rightarrow> screen \<Rightarrow> cint \<times> screen" where
  "sys_write_console buffer n s =
     (n, fold (\<lambda>i. printc (buffer i)) [0..<nat (sint n)] s)"

section \<open>The cursor\<close>

definition cursor_ok :: "screen \<Rightarrow> bool" where
  "cursor_ok s \<longleftrightarrow> unat (cur_x s) < NUM_COLUMNS \<and> unat (cur_y s) < NUM_ROWS"

text \<open>The screen as a line of 2000 cells: the cursor's position in it.\<close>

definition cursor_pos :: "screen \<Rightarrow> nat" where
  "cursor_pos s = unat (cur_y s) * NUM_COLUMNS + unat (cur_x s)"

lemma unat_of_nat8: "n < 256 \<Longrightarrow> unat (of_nat n :: byte) = n"
  by (simp add: unsigned_of_nat take_bit_nat_eq_self)

lemma unat_inc8: "unat (w :: byte) < 255 \<Longrightarrow> unat (w + 1) = unat w + 1"
  by (simp add: unat_word_ariths)

lemma unat_next_row [simp]: "unat (next_row y) = (unat y + 1) mod 25"
  unfolding next_row_def by (subst unat_of_nat8) (auto intro: less_trans [OF mod_less_divisor])

lemma printc_trace [simp]: "port_e9 (printc c s) = port_e9 s @ [c]"
  by (simp add: printc_def Let_def)

lemma printc_cursor_ok [intro]: "cursor_ok s \<Longrightarrow> cursor_ok (printc c s)"
  by (auto simp: cursor_ok_def printc_def Let_def)

lemma printc_cursor_pos:
  assumes "cursor_ok s"
  shows "cursor_pos (printc c s) =
    (if c = NEWLINE then (cursor_pos s div 80 + 1) mod 25 * 80 else (cursor_pos s + 1) mod 2000)"
proof -
  have x: "unat (cur_x s) < 80" and y: "unat (cur_y s) < 25" using assms by (auto simp: cursor_ok_def)
  have inc: "unat (cur_x s + 1) = unat (cur_x s) + 1" using x by (intro unat_inc8) simp
  have wrap: "(unat (cur_y s) + 1) mod 25 * 80 = (unat (cur_y s) * 80 + 79 + 1) mod 2000"
    using y by (cases "unat (cur_y s) = 24") auto
  have row: "(unat (cur_y s) * 80 + unat (cur_x s)) div 80 = unat (cur_y s)" using x by simp
  show ?thesis
  proof (cases "unat (cur_x s) = 79")
    case True
    then show ?thesis using y wrap row by (auto simp: printc_def Let_def cursor_pos_def inc)
  next
    case False
    with x have "unat (cur_x s) < 79" by simp
    then show ?thesis using y row by (auto simp: printc_def Let_def cursor_pos_def inc)
  qed
qed

lemma unat_cell_addr: "unat (cell_addr x y) = 753664 + (unat y * 80 + unat x) * 2"
proof -
  have "unat x < 256" "unat y < 256" using unsigned_less [of x] unsigned_less [of y] by simp_all
  then have "(unat y * 80 + unat x) * 2 < 100000" by simp
  moreover have "cell_addr x y = 753664 + of_nat ((unat y * 80 + unat x) * 2)"
    by (simp add: cell_addr_def)
  ultimately show ?thesis
    using unat_plus_of_nat32 [of 753664 "(unat y * 80 + unat x) * 2"] by simp
qed

lemma fold_printc_trace: "port_e9 (fold (\<lambda>i. printc (b i)) xs s) = port_e9 s @ map b xs"
  by (induction xs arbitrary: s) auto

lemma fold_printc_cursor_ok: "cursor_ok s \<Longrightarrow> cursor_ok (fold (\<lambda>i. printc (b i)) xs s)"
  by (induction xs arbitrary: s) auto

lemma sys_write_console_trace:
  "port_e9 (snd (sys_write_console b n s)) = port_e9 s @ map b [0..<nat (sint n)]"
  "fst (sys_write_console b n s) = n"
  by (simp_all add: sys_write_console_def fold_printc_trace)

end
