(* ===== verification/Kernel_State.thy ===== *)
theory Kernel_State
  imports Kernel_List Kernel_Utils Kernel_IO
begin

text \<open>
  The data of the kernel: the structures of \<^verbatim>\<open>include/types.h\<close>, \<^verbatim>\<open>include/stats.h\<close> and
  \<^verbatim>\<open>include/sched.h\<close>, the globals of all kernel files as one record, and the machine
  below them (the registers the code touches, the time stamp counter, physical memory and
  the page-table walk).  Pointers to tasks are indices into \<^verbatim>\<open>task[]\<close>; the anchors
  \<^verbatim>\<open>task[i].task.list\<close> live in the field \<open>links\<close>, keyed by \<open>TASK_LIST i\<close>, beside the queue
  heads.  The addresses the linker chooses are a \<open>layout\<close>.
\<close>

section \<open>Structures\<close>

record stats =
  user_ticks :: dword
  system_ticks :: dword
  blocked_ticks :: dword
  ready_ticks :: dword
  elapsed_total_ticks :: dword
  total_trans :: dword
  remaining_ticks :: dword

datatype state_t = ST_RUN | ST_READY | ST_BLOCKED

text \<open>\<^verbatim>\<open>struct task_struct\<close>, without its anchor \<^verbatim>\<open>list\<close>.\<close>

record task_struct =
  PID :: cint
  dir_pages_baseAddr :: dword
  quantum :: cint
  kernel_esp :: cint
  statics :: stats
  t_state :: state_t

text \<open>
  \<^verbatim>\<open>union task_union\<close>: the structure overlays the first 14 words of the kernel stack
  (56 bytes), so only the words from 14 on are stack.
\<close>

record task_union =
  pcb :: task_struct
  stack :: "nat \<Rightarrow> dword"

definition PCB_WORDS :: nat where [simp]: "PCB_WORDS = 14"

text \<open>Where a \<^verbatim>\<open>struct list_head\<close> can be: the queue heads and the anchor of each task.\<close>

datatype node = FREEQUEUE | READYQUEUE | BLOCKED | CONSOLE_BLOCKED | TASK_LIST nat

record tss_t =
  tss_PreviousTaskLink :: hword
  tss_esp0 :: dword
  tss_ss0 :: hword
  tss_esp1 :: dword
  tss_ss1 :: hword
  tss_esp2 :: dword
  tss_ss2 :: hword
  tss_cr3 :: dword
  tss_eip :: dword
  tss_eFlags :: dword
  tss_eax :: dword
  tss_ecx :: dword
  tss_edx :: dword
  tss_ebx :: dword
  tss_esp :: dword
  tss_ebp :: dword
  tss_esi :: dword
  tss_edi :: dword
  tss_es :: hword
  tss_cs :: hword
  tss_ss :: hword
  tss_ds :: hword
  tss_fs :: hword
  tss_gs :: hword
  tss_LDTSegmentSelector :: hword
  tss_debugTrap :: hword
  tss_IOMapBaseAddress :: hword

record descriptor =
  d_limit :: hword
  d_lowBase :: hword
  d_midBase :: byte
  d_flags1 :: byte
  d_flags2 :: byte
  d_highBase :: byte

record gate =
  g_lowOffset :: hword
  g_segmentSelector :: hword
  g_flags :: hword
  g_highOffset :: hword

record register =
  r_limit :: hword
  r_base :: dword

section \<open>The machine and the globals\<close>

text \<open>The callee-saved registers, the stack pointer and the frame pointer.\<close>

record cpu_regs =
  esp :: dword
  ebp :: dword
  ebx :: dword
  esi :: dword
  edi :: dword

text \<open>
  Addresses fixed at link time: the page-aligned arrays of section \<^verbatim>\<open>.data.task\<close>, the entry
  points whose addresses the code stores, the return address of the call of
  \<^verbatim>\<open>inner_task_switch\<close> in \<^verbatim>\<open>task_switch\<close>, and the descriptor tables.
\<close>

record layout =
  task_base :: dword
  dir_base :: dword
  pt_base :: dword
  ret_from_fork_addr :: dword
  cpu_idle_addr :: dword
  switch_ret_addr :: dword
  tss_addr :: dword
  idt_addr :: dword
  keyboard_handler_addr :: dword
  clock_handler_addr :: dword
  system_call_handler_addr :: dword

definition layout_ok :: "layout \<Rightarrow> bool" where
  "layout_ok L \<longleftrightarrow> page_array (task_base L) \<and> page_array (dir_base L) \<and> page_array (pt_base L)
     \<and> distinct [ret_from_fork_addr L, cpu_idle_addr L, switch_ret_addr L]"

record kernel =
  links :: "node links"
  task :: "nat \<Rightarrow> task_union"
  idle_task :: "nat option"
  init_task :: "nat option"
  CPU_QUANTUM :: cint
  act_t :: cint
  PID_MAX :: cint
  zeos_ticks :: cint
  phys_mem :: "nat \<Rightarrow> byte"
  dir_pages :: "nat \<Rightarrow> nat \<Rightarrow> dword"
  pagusr_table :: "nat \<Rightarrow> nat \<Rightarrow> dword"
  mem :: "dword \<Rightarrow> byte"
  tss :: tss_t
  gdt :: "nat \<Rightarrow> descriptor"
  gdtR :: register
  idt :: "nat \<Rightarrow> gate"
  idtR :: register
  gdt_reg :: register
  idt_reg :: register
  task_reg :: hword
  cr0 :: dword
  cr3 :: dword
  cpu :: cpu_regs
  tsc :: "nat \<Rightarrow> qword"
  tsc_pos :: nat
  scr :: screen

section \<open>Access to structure fields\<close>

abbreviation upd_pcb :: "nat \<Rightarrow> (task_struct \<Rightarrow> task_struct) \<Rightarrow> kernel \<Rightarrow> kernel" where
  "upd_pcb i f s \<equiv> s\<lparr>task := (task s)(i := (task s i)\<lparr>pcb := f (pcb (task s i))\<rparr>)\<rparr>"

abbreviation upd_stats :: "nat \<Rightarrow> (stats \<Rightarrow> stats) \<Rightarrow> kernel \<Rightarrow> kernel" where
  "upd_stats i f s \<equiv> upd_pcb i (\<lambda>p. p\<lparr>statics := f (statics p)\<rparr>) s"

abbreviation task_of :: "kernel \<Rightarrow> nat \<Rightarrow> task_struct" where
  "task_of s i \<equiv> pcb (task s i)"

text \<open>The address of \<^verbatim>\<open>task[i]\<close> and the macro \<^verbatim>\<open>KERNEL_ESP\<close>.\<close>

definition task_addr :: "layout \<Rightarrow> nat \<Rightarrow> dword" where
  "task_addr L i = elem_addr (task_base L) i 0"

definition KERNEL_ESP :: "layout \<Rightarrow> nat \<Rightarrow> dword" where
  "KERNEL_ESP L i = task_addr L i + 4 * of_nat KERNEL_STACK_SIZE"

definition INITIAL_ESP :: "layout \<Rightarrow> dword" where
  "INITIAL_ESP L = KERNEL_ESP L 1"

text \<open>A word of some task's kernel stack, addressed by pointer; the overlay is not stack.\<close>

definition stack_read :: "layout \<Rightarrow> dword \<Rightarrow> kernel \<Rightarrow> dword option" where
  "stack_read L a s = (case slot_of (task_base L) a of
      None \<Rightarrow> None | Some (i, j) \<Rightarrow> if PCB_WORDS \<le> j then Some (stack (task s i) j) else None)"

definition stack_write :: "layout \<Rightarrow> dword \<Rightarrow> dword \<Rightarrow> kernel \<Rightarrow> kernel option" where
  "stack_write L a v s = (case slot_of (task_base L) a of
      None \<Rightarrow> None
    | Some (i, j) \<Rightarrow> if PCB_WORDS \<le> j
        then Some (s\<lparr>task := (task s)(i := (task s i)\<lparr>stack := (stack (task s i))(j := v)\<rparr>)\<rparr>)
        else None)"

text \<open>\<^verbatim>\<open>pushl\<close> and \<^verbatim>\<open>popl\<close> on the current stack.\<close>

definition pushl :: "layout \<Rightarrow> dword \<Rightarrow> kernel \<Rightarrow> kernel option" where
  "pushl L v s = (let s = s\<lparr>cpu := (cpu s)\<lparr>esp := esp (cpu s) - 4\<rparr>\<rparr> in stack_write L (esp (cpu s)) v s)"

definition popl :: "layout \<Rightarrow> kernel \<Rightarrow> (dword \<times> kernel) option" where
  "popl L s = do { v \<leftarrow> stack_read L (esp (cpu s)) s;
                   Some (v, s\<lparr>cpu := (cpu s)\<lparr>esp := esp (cpu s) + 4\<rparr>\<rparr>) }"

section \<open>Time\<close>

text \<open>
  \<^verbatim>\<open>rdtsc\<close> reads the time stamp counter: its successive values are the sequence \<open>tsc\<close>, an
  input of the machine.
\<close>

definition rdtsc :: "kernel \<Rightarrow> qword \<times> kernel" where
  "rdtsc s = (tsc s (tsc_pos s), s\<lparr>tsc_pos := Suc (tsc_pos s)\<rparr>)"

definition get_ticks :: "kernel \<Rightarrow> (dword \<times> kernel) option" where
  "get_ticks s =
     (let (t, s) = rdtsc s;
          eax = ucast t :: dword; edx = ucast (drop_bit 32 t) :: dword;
          ticks = push_bit 32 (ucast edx) + ucast eax :: qword
      in do { (ticks, _) \<leftarrow> do_div ticks CYCLESPERTICK; Some (ucast ticks, s) })"

text \<open>The tick count the \<open>n\<close>-th reading of the counter gives.\<close>

definition ticks_at :: "kernel \<Rightarrow> nat \<Rightarrow> dword" where
  "ticks_at s n = ucast (tsc s n div 109000)"

lemma qword_halves: "push_bit 32 (ucast (ucast (drop_bit 32 t) :: dword)) + ucast (ucast t :: dword) = (t :: qword)"
proof -
  have "unat (push_bit 32 (ucast (ucast (drop_bit 32 t) :: dword)) OR ucast (ucast t :: dword) :: qword) = unat t"
    unfolding unat_dword_pair unat_high_half by (simp only: unat_low_half) simp
  moreover have "push_bit 32 (ucast h) + ucast l = (push_bit 32 (ucast h) OR ucast l :: qword)"
    for h l :: dword
    by (rule disjunctive_add_eq_or) (auto simp: bit_eq_iff bit_simps dest: bit_imp_le_length)
  ultimately show ?thesis by (metis word_unat_eq_iff)
qed

lemma get_ticks_eq [simp]: "get_ticks s = Some (ticks_at s (tsc_pos s), s\<lparr>tsc_pos := Suc (tsc_pos s)\<rparr>)"
  unfolding get_ticks_def rdtsc_def ticks_at_def by (simp add: qword_halves do_div_eq)

section \<open>Page tables and the memory management unit\<close>

text \<open>\<^verbatim>\<open>page_table_entry\<close>: the bit fields the code reads and sets.\<close>

definition pbase_addr :: "dword \<Rightarrow> dword" where "pbase_addr e = drop_bit 12 e"
definition set_pbase_addr :: "dword \<Rightarrow> dword \<Rightarrow> dword" where
  "set_pbase_addr f e = (e AND 0xfff) OR push_bit 12 f"
definition set_user :: "dword \<Rightarrow> dword" where "set_user e = e OR 4"
definition set_rw :: "dword \<Rightarrow> dword" where "set_rw e = e OR 2"
definition set_present :: "dword \<Rightarrow> dword" where "set_present e = e OR 1"

abbreviation pte_present :: "dword \<Rightarrow> bool" where "pte_present e \<equiv> bit e 0"
abbreviation pte_rw :: "dword \<Rightarrow> bool" where "pte_rw e \<equiv> bit e 1"
abbreviation pte_user :: "dword \<Rightarrow> bool" where "pte_user e \<equiv> bit e 2"

text \<open>\<^verbatim>\<open>PT[page]\<close> for a pointer \<^verbatim>\<open>PT\<close> into \<^verbatim>\<open>pagusr_table\<close>.\<close>

definition read_pte :: "layout \<Rightarrow> dword \<Rightarrow> dword \<Rightarrow> kernel \<Rightarrow> dword option" where
  "read_pte L PT page s = (case slot_of (pt_base L) (PT + 4 * page) of
      None \<Rightarrow> None | Some (i, j) \<Rightarrow> Some (pagusr_table s i j))"

definition write_pte :: "layout \<Rightarrow> dword \<Rightarrow> dword \<Rightarrow> (dword \<Rightarrow> dword) \<Rightarrow> kernel \<Rightarrow> kernel option" where
  "write_pte L PT page f s = (case slot_of (pt_base L) (PT + 4 * page) of
      None \<Rightarrow> None
    | Some (i, j) \<Rightarrow> Some (s\<lparr>pagusr_table :=
        (pagusr_table s)(i := (pagusr_table s i)(j := f (pagusr_table s i j)))\<rparr>))"

text \<open>
  The walk of the processor in supervisor mode: the directory that \<^verbatim>\<open>cr3\<close> points to, the
  table its entry points to, the frame; a missing present bit is a page fault.
\<close>

definition translate :: "layout \<Rightarrow> dword \<Rightarrow> kernel \<Rightarrow> dword option" where
  "translate L va s =
     do { (i, j) \<leftarrow> slot_of (dir_base L) (cr3 s + 4 * drop_bit 22 va);
          let pde = dir_pages s i j;
          if \<not> pte_present pde then None
          else do { (k, l) \<leftarrow> slot_of (pt_base L) (push_bit 12 (pbase_addr pde) + 4 * (drop_bit 12 va AND 0x3ff));
                    let pte = pagusr_table s k l;
                    if \<not> pte_present pte then None
                    else Some (push_bit 12 (pbase_addr pte) OR (va AND 0xfff)) } }"

definition vread :: "layout \<Rightarrow> dword \<Rightarrow> kernel \<Rightarrow> byte option" where
  "vread L a s = map_option (mem s) (translate L a s)"

definition vwrite :: "layout \<Rightarrow> dword \<Rightarrow> byte \<Rightarrow> kernel \<Rightarrow> kernel option" where
  "vwrite L a v s = map_option (\<lambda>pa. s\<lparr>mem := (mem s)(pa := v)\<rparr>) (translate L a s)"

lemma translate_mem [simp]: "translate L a (s\<lparr>mem := m\<rparr>) = translate L a s"
  by (simp add: translate_def Let_def cong: if_cong)

text \<open>User memory seen through the page tables is a store for the copy routines.\<close>

interpretation vm: byte_store "translate L" "translate L" "\<lambda>pa s. mem s pa"
  "\<lambda>pa v s. s\<lparr>mem := (mem s)(pa := v)\<rparr>" "vread L" "vwrite L" for L
  by unfold_locales (auto simp: vread_def vwrite_def)

end
