(* ===== verification/Kernel_MM.thy ===== *)
theory Kernel_MM
  imports Kernel_State
begin

text \<open>
  Memory management, \<^verbatim>\<open>mm.c\<close>, with the directory helpers of \<^verbatim>\<open>sched.c\<close> it calls
  (\<^verbatim>\<open>get_DIR\<close>, \<^verbatim>\<open>get_PT\<close>, \<^verbatim>\<open>allocate_DIR\<close>): page tables and directories, the frame
  allocator, the boot-time tables and the task state segment.  The lemmas give each
  operation's effect on a well-formed address space, the allocator against a reference
  search, and the page-table walk on user pages.
\<close>

section \<open>Directories\<close>

definition get_DIR :: "nat \<Rightarrow> kernel \<Rightarrow> dword" where
  "get_DIR t s = dir_pages_baseAddr (task_of s t)"

definition get_PT :: "layout \<Rightarrow> nat \<Rightarrow> kernel \<Rightarrow> dword option" where
  "get_PT L t s = (case slot_of (dir_base L) (dir_pages_baseAddr (task_of s t)) of
      None \<Rightarrow> None | Some (i, j) \<Rightarrow> Some (push_bit 12 (pbase_addr (dir_pages s i j))))"

definition allocate_DIR :: "layout \<Rightarrow> nat \<Rightarrow> kernel \<Rightarrow> cint \<times> kernel" where
  "allocate_DIR L t s =
     (let pos = unat (task_addr L t - task_base L) div 4096
      in (1, upd_pcb t (\<lambda>p. p\<lparr>dir_pages_baseAddr := elem_addr (dir_base L) pos 0\<rparr>) s))"

definition init_dir_pages :: "layout \<Rightarrow> kernel \<Rightarrow> kernel" where
  "init_dir_pages L s =
     fold (\<lambda>i s. s\<lparr>dir_pages := (dir_pages s)(i := (dir_pages s i)(ENTRY_DIR_PAGES :=
             set_present (set_rw (set_user (set_pbase_addr (drop_bit 12 (elem_addr (pt_base L) i 0)) 0)))))\<rparr>)
       [0..<NR_TASKS] s"

section \<open>Page tables\<close>

definition upd_pt :: "nat \<Rightarrow> nat \<Rightarrow> (dword \<Rightarrow> dword) \<Rightarrow> kernel \<Rightarrow> kernel" where
  "upd_pt i j f s = s\<lparr>pagusr_table := (pagusr_table s)(i := (pagusr_table s i)(j := f (pagusr_table s i j)))\<rparr>"

definition init_table_pages :: "kernel \<Rightarrow> kernel" where
  "init_table_pages s =
     fold (\<lambda>j s. let s = fold (\<lambda>i. upd_pt j i (\<lambda>_. 0)) [0..<TOTAL_PAGES] s
                 in fold (\<lambda>i. upd_pt j i (\<lambda>e. set_present (set_rw (set_pbase_addr (of_nat i) e))))
                      [1..<NUM_PAG_KERNEL] s)
       [0..<NR_TASKS] s"

definition set_ss_pag :: "layout \<Rightarrow> dword \<Rightarrow> dword \<Rightarrow> dword \<Rightarrow> kernel \<Rightarrow> kernel option" where
  "set_ss_pag L PT page frame s =
     do { s \<leftarrow> write_pte L PT page (\<lambda>_. 0) s;
          s \<leftarrow> write_pte L PT page (set_pbase_addr frame) s;
          s \<leftarrow> write_pte L PT page set_user s;
          s \<leftarrow> write_pte L PT page set_rw s;
          write_pte L PT page set_present s }"

definition del_ss_pag :: "layout \<Rightarrow> dword \<Rightarrow> dword \<Rightarrow> kernel \<Rightarrow> kernel option" where
  "del_ss_pag L PT page s = write_pte L PT page (\<lambda>_. 0) s"

definition get_frame :: "layout \<Rightarrow> dword \<Rightarrow> dword \<Rightarrow> kernel \<Rightarrow> dword option" where
  "get_frame L PT page s = do { e \<leftarrow> read_pte L PT page s; Some (pbase_addr e) }"

section \<open>Frames\<close>

definition FREE_FRAME :: byte where [simp]: "FREE_FRAME = 0"
definition USED_FRAME :: byte where [simp]: "USED_FRAME = 1"

definition init_frames :: "kernel \<Rightarrow> cint \<times> kernel" where
  "init_frames s =
     (let s = fold (\<lambda>i s. s\<lparr>phys_mem := (phys_mem s)(i := FREE_FRAME)\<rparr>) [0..<TOTAL_PAGES] s;
          s = fold (\<lambda>i s. s\<lparr>phys_mem := (phys_mem s)(i := USED_FRAME)\<rparr>) [0..<NUM_PAG_KERNEL] s
      in (0, s))"

function alloc_frame_loop :: "nat \<Rightarrow> kernel \<Rightarrow> cint \<times> kernel" where
  "alloc_frame_loop i s =
     (if i < TOTAL_PAGES
      then if phys_mem s i = FREE_FRAME
           then (of_nat i, s\<lparr>phys_mem := (phys_mem s)(i := USED_FRAME)\<rparr>)
           else alloc_frame_loop (i + 2) s
      else (- 1, s))"
  by pat_completeness auto
termination by (relation "measure (\<lambda>(i, s). TOTAL_PAGES - i)") auto

declare alloc_frame_loop.simps [simp del]

definition alloc_frame :: "kernel \<Rightarrow> cint \<times> kernel" where
  "alloc_frame s = alloc_frame_loop NUM_PAG_KERNEL s"

definition free_frame :: "dword \<Rightarrow> kernel \<Rightarrow> kernel" where
  "free_frame frame s =
     (if of_nat NUM_PAG_KERNEL < frame \<and> frame < of_nat TOTAL_PAGES
      then s\<lparr>phys_mem := (phys_mem s)(unat frame := FREE_FRAME)\<rparr> else s)"

section \<open>Address spaces\<close>

definition set_user_code_page :: "layout \<Rightarrow> dword \<Rightarrow> nat \<Rightarrow> kernel \<Rightarrow> kernel option" where
  "set_user_code_page L PT pag s =
     (let (new_ph_pag, s) = alloc_frame s; page = of_nat (PAG_LOG_INIT_CODE_P0 + pag)
      in do { s \<leftarrow> write_pte L PT page (\<lambda>_. 0) s;
              s \<leftarrow> write_pte L PT page (set_pbase_addr new_ph_pag) s;
              s \<leftarrow> write_pte L PT page set_user s;
              write_pte L PT page set_present s })"

definition set_user_data_page :: "layout \<Rightarrow> dword \<Rightarrow> nat \<Rightarrow> kernel \<Rightarrow> kernel option" where
  "set_user_data_page L PT pag s =
     (let (new_ph_pag, s) = alloc_frame s; page = of_nat (PAG_LOG_INIT_DATA_P0 + pag)
      in do { s \<leftarrow> write_pte L PT page (\<lambda>_. 0) s;
              s \<leftarrow> write_pte L PT page (set_pbase_addr new_ph_pag) s;
              s \<leftarrow> write_pte L PT page set_user s;
              s \<leftarrow> write_pte L PT page set_rw s;
              write_pte L PT page set_present s })"

definition set_user_pages :: "layout \<Rightarrow> nat \<Rightarrow> kernel \<Rightarrow> kernel option" where
  "set_user_pages L t s =
     do { PT \<leftarrow> get_PT L t s;
          s \<leftarrow> mfold (set_user_code_page L PT) [0..<NUM_PAG_CODE] s;
          mfold (set_user_data_page L PT) [0..<NUM_PAG_DATA] s }"

definition free_user_pages :: "layout \<Rightarrow> nat \<Rightarrow> kernel \<Rightarrow> kernel option" where
  "free_user_pages L t s =
     do { PT \<leftarrow> get_PT L t s;
          mfold (\<lambda>pag s. do { e \<leftarrow> read_pte L PT (of_nat (PAG_LOG_INIT_DATA_P0 + pag)) s;
                              let s = free_frame (pbase_addr e) s;
                              write_pte L PT (of_nat (PAG_LOG_INIT_DATA_P0 + pag)) (\<lambda>_. 0) s })
            [0..<NUM_PAG_DATA] s }"

definition set_cr3 :: "dword \<Rightarrow> kernel \<Rightarrow> kernel" where
  "set_cr3 dir s = s\<lparr>cr3 := dir\<rparr>"

definition set_pe_flag :: "kernel \<Rightarrow> kernel" where
  "set_pe_flag s = s\<lparr>cr0 := cr0 s OR 0x80000000\<rparr>"

definition init_mm :: "layout \<Rightarrow> kernel \<Rightarrow> kernel" where
  "init_mm L s =
     (let s = init_table_pages s;
          (_, s) = init_frames s;
          s = init_dir_pages L s;
          (_, s) = allocate_DIR L 0 s;
          s = set_cr3 (get_DIR 0 s) s
      in set_pe_flag s)"

section \<open>Segments and the task state segment\<close>

definition KERNEL_CS :: hword where [simp]: "KERNEL_CS = 0x10"
definition KERNEL_DS :: hword where [simp]: "KERNEL_DS = 0x18"
definition USER_CS :: hword where [simp]: "USER_CS = 0x23"
definition USER_DS :: hword where [simp]: "USER_DS = 0x2B"
definition KERNEL_TSS :: hword where [simp]: "KERNEL_TSS = 0x30"
definition GDT_START :: dword where [simp]: "GDT_START = 0x901b3"
definition INITIAL_EFLAGS :: dword where [simp]: "INITIAL_EFLAGS = 0x200"

definition highWord :: "dword \<Rightarrow> hword" where "highWord a = ucast (drop_bit 16 a AND 0xFFFF)"
definition lowWord :: "dword \<Rightarrow> hword" where "lowWord a = ucast (a AND 0xFFFF)"
definition midByte :: "dword \<Rightarrow> byte" where "midByte a = ucast (drop_bit 16 a AND 0xFF)"
definition highByte :: "dword \<Rightarrow> byte" where "highByte a = ucast (drop_bit 24 a AND 0xFF)"

text \<open>\<^verbatim>\<open>hardware.c\<close>: \<^verbatim>\<open>lgdt\<close>, \<^verbatim>\<open>lidt\<close> and \<^verbatim>\<open>ltr\<close>.\<close>

definition set_gdt_reg :: "kernel \<Rightarrow> kernel" where "set_gdt_reg s = s\<lparr>gdt_reg := gdtR s\<rparr>"
definition set_idt_reg :: "kernel \<Rightarrow> kernel" where "set_idt_reg s = s\<lparr>idt_reg := idtR s\<rparr>"
definition set_task_reg :: "hword \<Rightarrow> kernel \<Rightarrow> kernel" where "set_task_reg tr s = s\<lparr>task_reg := tr\<rparr>"

definition setGdt :: "layout \<Rightarrow> kernel \<Rightarrow> kernel" where
  "setGdt L s =
     (let k = unat (drop_bit 3 KERNEL_TSS);
          s = s\<lparr>gdt := (gdt s)(k := (gdt s k)\<lparr>d_lowBase := lowWord (tss_addr L)\<rparr>)\<rparr>;
          s = s\<lparr>gdt := (gdt s)(k := (gdt s k)\<lparr>d_midBase := midByte (tss_addr L)\<rparr>)\<rparr>;
          s = s\<lparr>gdt := (gdt s)(k := (gdt s k)\<lparr>d_highBase := highByte (tss_addr L)\<rparr>)\<rparr>
      in set_gdt_reg (s\<lparr>gdtR := \<lparr>r_limit = 256 * 8, r_base = GDT_START\<rparr>\<rparr>))"

definition setTSS :: "layout \<Rightarrow> kernel \<Rightarrow> kernel" where
  "setTSS L s = set_task_reg KERNEL_TSS (s\<lparr>tss :=
     \<lparr>tss_PreviousTaskLink = 0, tss_esp0 = INITIAL_ESP L, tss_ss0 = KERNEL_DS,
      tss_esp1 = 0, tss_ss1 = 0, tss_esp2 = 0, tss_ss2 = 0, tss_cr3 = 0, tss_eip = 0,
      tss_eFlags = INITIAL_EFLAGS, tss_eax = 0, tss_ecx = 0, tss_edx = 0, tss_ebx = 0,
      tss_esp = USER_ESP, tss_ebp = USER_ESP, tss_esi = 0, tss_edi = 0,
      tss_es = USER_DS, tss_cs = USER_CS, tss_ss = USER_DS, tss_ds = USER_DS,
      tss_fs = 0, tss_gs = 0, tss_LDTSegmentSelector = KERNEL_TSS, tss_debugTrap = 0,
      tss_IOMapBaseAddress = 0\<rparr>\<rparr>)"

definition setTSS_tswitch :: "dword \<Rightarrow> kernel \<Rightarrow> kernel" where
  "setTSS_tswitch esp0V s = s\<lparr>tss := (tss s)\<lparr>tss_esp0 := esp0V\<rparr>\<rparr>"

section \<open>Page table entries\<close>

text \<open>The entry \<^verbatim>\<open>set_ss_pag\<close> builds.\<close>

definition user_pte :: "dword \<Rightarrow> dword" where
  "user_pte f = set_present (set_rw (set_user (set_pbase_addr f 0)))"

lemmas pte_defs = pbase_addr_def set_pbase_addr_def set_user_def set_rw_def set_present_def

lemma small_low_bits: "(k :: dword) < 8 \<Longrightarrow> drop_bit 12 (push_bit 12 f OR k) = drop_bit 12 (push_bit 12 f)"
proof -
  assume "k < 8"
  then have "unat k < 8" by (simp add: word_less_nat_alt)
  then have "drop_bit 12 k = 0"
    by (simp add: word_unat_eq_iff drop_bit_eq_div unat_div)
  then show ?thesis by simp
qed

lemma drop_push_12: "(f :: dword) < 0x100000 \<Longrightarrow> drop_bit 12 (push_bit 12 f) = f"
proof -
  assume "f < 0x100000"
  then have "unat f < 1048576" by (simp add: word_less_nat_alt)
  then have "unat (push_bit 12 f) = unat f * 4096"
    by (simp add: push_bit_eq_mult unat_word_ariths)
  then show ?thesis by (simp add: word_unat_eq_iff drop_bit_eq_div unat_div)
qed

lemma bit_user_pte [simp]: "bit (user_pte f) 0" "bit (user_pte f) (Suc 0)" "bit (user_pte f) 2"
  by (simp_all add: user_pte_def pte_defs bit_simps)

lemma pbase_user_pte [simp]: "f < 0x100000 \<Longrightarrow> pbase_addr (user_pte f) = f"
  by (auto simp: user_pte_def pte_defs or.assoc small_low_bits drop_push_12)


section \<open>Pointers into the page tables\<close>

abbreviation pt_addr :: "layout \<Rightarrow> nat \<Rightarrow> dword" where
  "pt_addr L i \<equiv> elem_addr (pt_base L) i 0"

abbreviation dir_addr :: "layout \<Rightarrow> nat \<Rightarrow> dword" where
  "dir_addr L i \<equiv> elem_addr (dir_base L) i 0"

lemma elem_addr_index: "elem_addr b i 0 + 4 * of_nat j = elem_addr b i j"
  by (simp add: elem_addr_def)

lemma read_pte_at [simp, ksimps]:
  "i < 10 \<Longrightarrow> j < 1024 \<Longrightarrow> read_pte L (pt_addr L i) (of_nat j) s = Some (pagusr_table s i j)"
  by (simp add: read_pte_def elem_addr_index)

lemma write_pte_at [simp, ksimps]:
  "i < 10 \<Longrightarrow> j < 1024 \<Longrightarrow> write_pte L (pt_addr L i) (of_nat j) f s = Some (upd_pt i j f s)"
  by (simp add: write_pte_def elem_addr_index upd_pt_def)

lemma upd_pt_upd_pt [simp]: "upd_pt i j f (upd_pt i j g s) = upd_pt i j (f \<circ> g) s"
  by (simp add: upd_pt_def)

lemma set_ss_pag_at [simp, ksimps]:
  "i < 10 \<Longrightarrow> j < 1024 \<Longrightarrow>
     set_ss_pag L (pt_addr L i) (of_nat j) f s = Some (upd_pt i j (\<lambda>_. user_pte f) s)"
  by (simp add: set_ss_pag_def user_pte_def comp_def)

lemma del_ss_pag_at [simp, ksimps]:
  "i < 10 \<Longrightarrow> j < 1024 \<Longrightarrow> del_ss_pag L (pt_addr L i) (of_nat j) s = Some (upd_pt i j (\<lambda>_. 0) s)"
  by (simp add: del_ss_pag_def)

lemma get_frame_at [simp, ksimps]:
  "i < 10 \<Longrightarrow> j < 1024 \<Longrightarrow> get_frame L (pt_addr L i) (of_nat j) s = Some (pbase_addr (pagusr_table s i j))"
  by (simp add: get_frame_def)

lemma upd_pt_sel [simp]:
  "pagusr_table (upd_pt i j f s) i' j' =
     (if i' = i \<and> j' = j then f (pagusr_table s i j) else pagusr_table s i' j')"
  by (simp add: upd_pt_def)

lemma upd_pt_frame [simp]:
  "links (upd_pt i j f s) = links s" "task (upd_pt i j f s) = task s"
  "idle_task (upd_pt i j f s) = idle_task s" "init_task (upd_pt i j f s) = init_task s"
  "CPU_QUANTUM (upd_pt i j f s) = CPU_QUANTUM s" "PID_MAX (upd_pt i j f s) = PID_MAX s"
  "phys_mem (upd_pt i j f s) = phys_mem s" "dir_pages (upd_pt i j f s) = dir_pages s"
  "mem (upd_pt i j f s) = mem s" "cr3 (upd_pt i j f s) = cr3 s" "cpu (upd_pt i j f s) = cpu s"
  "tsc (upd_pt i j f s) = tsc s" "tsc_pos (upd_pt i j f s) = tsc_pos s" "scr (upd_pt i j f s) = scr s"
  "zeos_ticks (upd_pt i j f s) = zeos_ticks s" "tss (upd_pt i j f s) = tss s"
  by (simp_all add: upd_pt_def)

text \<open>The directories are set up: each has one entry, its own task's page table.\<close>

definition dirs_ok :: "layout \<Rightarrow> kernel \<Rightarrow> bool" where
  "dirs_ok L s \<longleftrightarrow> (\<forall>i<NR_TASKS. dir_pages s i 0 = user_pte (drop_bit 12 (pt_addr L i)))"

lemma pbase_pde: "page_array b \<Longrightarrow> i < 10 \<Longrightarrow>
    push_bit 12 (pbase_addr (user_pte (drop_bit 12 (elem_addr b i 0)))) = elem_addr b i 0"
proof -
  assume a: "page_array b" "i < 10"
  have "unat (elem_addr b i 0) < 2 ^ 20" using a unat_elem_addr [OF a, of 0]
    by (auto simp: page_array_def)
  then have "drop_bit 12 (elem_addr b i 0) < 0x100000"
    by (simp add: word_less_nat_alt drop_bit_eq_div unat_div)
  then show ?thesis using a by simp
qed

lemma get_PT_at:
  assumes "layout_ok L" "dirs_ok L s" "t < 10" "dir_pages_baseAddr (task_of s t) = dir_addr L t"
  shows "get_PT L t s = Some (pt_addr L t)"
  using assms by (simp add: get_PT_def dirs_ok_def pbase_pde layout_ok_def)

lemma allocate_DIR_at:
  assumes "t < 10"
  shows "allocate_DIR L t s = (1, upd_pcb t (\<lambda>p. p\<lparr>dir_pages_baseAddr := dir_addr L t\<rparr>) s)"
proof -
  have "unat (of_nat (4096 * t) :: dword) = 4096 * t" using assms by (intro unat_of_nat32) simp
  then have "unat (task_addr L t - task_base L) div 4096 = t"
    by (simp add: task_addr_def elem_addr_def)
  then show ?thesis by (simp add: allocate_DIR_def)
qed

lemma init_dir_pages_ok:
  "dirs_ok L (init_dir_pages L s)"
proof -
  have *: "dir_pages (fold (\<lambda>i s. s\<lparr>dir_pages := (dir_pages s)(i := (dir_pages s i)(0 := v i))\<rparr>) xs s) i
      = (if i \<in> set xs then (dir_pages s i)(0 := v i) else dir_pages s i)" for xs i v and s :: kernel
    by (induction xs arbitrary: s) auto
  show ?thesis unfolding dirs_ok_def init_dir_pages_def
    by (simp add: * user_pte_def del: upt_Suc)
qed

section \<open>The frame allocator\<close>

text \<open>The frames the allocator can return: every second one above the kernel.\<close>

definition user_frames :: "nat list" where
  "user_frames = map (\<lambda>k. 256 + 2 * k) [0..<384]"

definition free_frames :: "kernel \<Rightarrow> nat set" where
  "free_frames s = {f \<in> set user_frames. phys_mem s f = FREE_FRAME}"

lemma user_frames_bounds: "f \<in> set user_frames \<Longrightarrow> 256 \<le> f \<and> f < 1024"
  by (auto simp: user_frames_def)

lemma finite_free_frames [simp]: "finite (free_frames s)"
  by (simp add: free_frames_def)

lemma alloc_frame_loop_find:
  "k \<le> 384 \<Longrightarrow> alloc_frame_loop (256 + 2 * k) s =
     (case find (\<lambda>f. phys_mem s f = FREE_FRAME) (map (\<lambda>k. 256 + 2 * k) [k..<384]) of
        None \<Rightarrow> (- 1, s) | Some f \<Rightarrow> (of_nat f, s\<lparr>phys_mem := (phys_mem s)(f := USED_FRAME)\<rparr>))"
proof (induction "384 - k" arbitrary: k)
  case 0
  then show ?case by (subst alloc_frame_loop.simps) simp
next
  case (Suc n)
  then have k: "k < 384" and "[k..<384] = k # [Suc k..<384]" by (simp_all add: upt_rec)
  moreover have "alloc_frame_loop (256 + 2 * Suc k) s =
     (case find (\<lambda>f. phys_mem s f = FREE_FRAME) (map (\<lambda>k. 256 + 2 * k) [Suc k..<384]) of
        None \<Rightarrow> (- 1, s) | Some f \<Rightarrow> (of_nat f, s\<lparr>phys_mem := (phys_mem s)(f := USED_FRAME)\<rparr>))"
    by (rule Suc.hyps(1)) (use Suc in auto)
  ultimately show ?case using k by (subst alloc_frame_loop.simps) (simp add: algebra_simps)
qed

lemma alloc_frame_find:
  "alloc_frame s = (case find (\<lambda>f. phys_mem s f = FREE_FRAME) user_frames of
      None \<Rightarrow> (- 1, s) | Some f \<Rightarrow> (of_nat f, s\<lparr>phys_mem := (phys_mem s)(f := USED_FRAME)\<rparr>))"
  using alloc_frame_loop_find [of 0 s] by (simp add: alloc_frame_def user_frames_def)

text \<open>
  Frame 256, which \<^verbatim>\<open>alloc_frame\<close> hands out like any other, is never returned by
  \<^verbatim>\<open>free_frame\<close>: its test excludes the first frame above the kernel.
\<close>

lemma first_frame_not_freed:
  assumes "phys_mem s 256 = FREE_FRAME"
  shows "\<exists>s'. alloc_frame s = (256, s') \<and> free_frame 256 s' = s' \<and> phys_mem s' 256 = USED_FRAME"
proof -
  have u: "user_frames = 256 # map (\<lambda>k. 256 + 2 * k) [1..<384]" unfolding user_frames_def by (subst upt_rec) simp
  have "alloc_frame s = (256, s\<lparr>phys_mem := (phys_mem s)(256 := USED_FRAME)\<rparr>)"
    unfolding alloc_frame_find u using assms by simp
  then show ?thesis by (auto simp: free_frame_def)
qed

lemma find_sorted_least:
  "sorted xs \<Longrightarrow> find P xs = Some f \<Longrightarrow> P f \<and> f \<in> set xs \<and> (\<forall>g\<in>set xs. P g \<longrightarrow> f \<le> (g :: nat))"
  by (induction xs) (auto split: if_splits)

lemma sorted_user_frames: "sorted user_frames"
  unfolding user_frames_def by (simp add: sorted_map sorted_wrt_upt del: upt_Suc)

lemma alloc_frame_ok:
  assumes "free_frames s \<noteq> {}"
  obtains f where "f \<in> free_frames s" "\<forall>g\<in>free_frames s. f \<le> g"
    "alloc_frame s = (of_nat f, s\<lparr>phys_mem := (phys_mem s)(f := USED_FRAME)\<rparr>)"
proof -
  have "\<exists>x\<in>set user_frames. phys_mem s x = FREE_FRAME" using assms by (auto simp: free_frames_def)
  then have "find (\<lambda>f. phys_mem s f = FREE_FRAME) user_frames \<noteq> None"
    unfolding find_None_iff by blast
  then obtain f where f: "find (\<lambda>f. phys_mem s f = FREE_FRAME) user_frames = Some f" by blast
  from find_sorted_least [OF sorted_user_frames f] f that show thesis
    by (auto simp: free_frames_def alloc_frame_find)
qed

lemma alloc_frame_none: "free_frames s = {} \<Longrightarrow> alloc_frame s = (- 1, s)"
proof -
  assume "free_frames s = {}"
  then have "find (\<lambda>f. phys_mem s f = FREE_FRAME) user_frames = None"
    by (auto simp: find_None_iff free_frames_def)
  then show ?thesis by (simp add: alloc_frame_find)
qed

lemma free_frames_use [simp]:
  "free_frames (s\<lparr>phys_mem := (phys_mem s)(f := USED_FRAME)\<rparr>) = free_frames s - {f}"
  by (auto simp: free_frames_def)

lemma free_frame_at:
  assumes "256 < f" "f < 1024"
  shows "free_frame (of_nat f) s = s\<lparr>phys_mem := (phys_mem s)(f := FREE_FRAME)\<rparr>"
proof -
  have "unat (of_nat f :: dword) = f" using assms by (intro unat_of_nat32) simp
  then show ?thesis using assms by (simp add: free_frame_def word_less_nat_alt)
qed

lemma free_frame_ignored: "unat f \<le> 256 \<or> 1024 \<le> unat f \<Longrightarrow> free_frame f s = s"
  by (auto simp: free_frame_def word_less_nat_alt)

section \<open>The page-table walk\<close>

lemma unat_va: "p < 1024 \<Longrightarrow> k < 4096 \<Longrightarrow> unat (of_nat (4096 * p + k) :: dword) = 4096 * p + k"
  by (rule unat_of_nat32) simp

lemma va_fields:
  assumes "p < 1024" "k < 4096"
  shows "drop_bit 22 (of_nat (4096 * p + k) :: dword) = 0"
    and "drop_bit 12 (of_nat (4096 * p + k) :: dword) AND 0x3ff = of_nat p"
    and "(of_nat (4096 * p + k) :: dword) AND 0xfff = of_nat k"
proof -
  let ?va = "of_nat (4096 * p + k) :: dword"
  note u = unat_va [OF assms]
  have p: "unat (of_nat p :: dword) = p" and k: "unat (of_nat k :: dword) = k"
    using assms by (simp_all add: unat_of_nat32)
  show "drop_bit 22 ?va = 0"
    using assms by (simp only: word_unat_eq_iff drop_bit_eq_div unat_div u) simp
  have d: "unat (drop_bit 12 ?va) = p"
    using assms by (simp only: drop_bit_eq_div unat_div u) simp
  have m: "(0x3ff :: dword) = mask 10" "(0xfff :: dword) = mask 12" by (simp_all add: mask_eq_exp_minus_1)
  have "unat (drop_bit 12 ?va AND 0x3ff) = unat (drop_bit 12 ?va) mod 1024"
    unfolding m by (simp only: flip: take_bit_eq_mask) (simp add: take_bit_eq_mod unat_mod)
  then show "drop_bit 12 ?va AND 0x3ff = of_nat p"
    using assms d p by (simp add: word_unat_eq_iff)
  have "unat (?va AND 0xfff) = unat ?va mod 4096"
    unfolding m by (simp only: flip: take_bit_eq_mask) (simp add: take_bit_eq_mod unat_mod)
  then show "?va AND 0xfff = of_nat k"
    using assms u k by (simp add: word_unat_eq_iff)
qed

lemma translate_at:
  assumes "layout_ok L" "dirs_ok L s" "t < 10" "cr3 s = dir_addr L t" "p < 1024" "k < 4096"
  shows "translate L (of_nat (4096 * p + k)) s =
    (if pte_present (pagusr_table s t p)
     then Some (push_bit 12 (pbase_addr (pagusr_table s t p)) OR of_nat k) else None)"
proof -
  have "slot_of (dir_base L) (cr3 s + 4 * drop_bit 22 (of_nat (4096 * p + k) :: dword)) = Some (t, 0)"
    using assms va_fields(1) [OF assms(5,6)] by simp
  moreover have "push_bit 12 (pbase_addr (dir_pages s t 0)) = pt_addr L t" "pte_present (dir_pages s t 0)"
    using assms by (simp_all add: dirs_ok_def layout_ok_def pbase_pde)
  ultimately show ?thesis
    unfolding translate_def va_fields(2,3) [OF assms(5,6)] using assms
    by (simp add: elem_addr_index)
qed

lemma frame_addr:
  assumes "f < 1048576" "k < 4096"
  shows "push_bit 12 (of_nat f :: dword) OR of_nat k = of_nat (4096 * f + k)"
proof -
  have k: "unat (of_nat k :: dword) = k" using assms by (simp add: unat_of_nat32)
  have "(of_nat k :: dword) = take_bit 12 (of_nat k)"
    using assms by (simp only: word_unat_eq_iff take_bit_eq_mod unat_mod k) simp
  moreover have "push_bit 12 w AND take_bit 12 v = 0" for w v :: dword
    by (auto simp: bit_eq_iff bit_simps)
  ultimately have "push_bit 12 (of_nat f :: dword) AND of_nat k = 0" by metis
  then show ?thesis
    by (simp add: push_bit_eq_mult algebra_simps flip: disjunctive_add_eq_or)
qed

section \<open>Copies between user memory and kernel objects\<close>

text \<open>
  The kernel side of \<^verbatim>\<open>copy_from_user\<close> and \<^verbatim>\<open>copy_to_user\<close> is a local buffer or a structure:
  \<open>n\<close> bytes at offsets \<open>0, \<dots>, n - 1\<close>.  The state of a copy is the kernel and that buffer.
\<close>

type_synonym ucopy = "kernel \<times> (nat \<Rightarrow> byte)"

definition uread :: "layout \<Rightarrow> ucopy reader" where
  "uread L a m = vread L a (fst m)"

definition uwrite :: "layout \<Rightarrow> ucopy writer" where
  "uwrite L a v m = map_option (\<lambda>s. (s, snd m)) (vwrite L a v (fst m))"

definition kread :: "nat \<Rightarrow> ucopy reader" where
  "kread n a m = (if unat a < n then Some (snd m (unat a)) else None)"

definition kwrite :: "nat \<Rightarrow> ucopy writer" where
  "kwrite n a v m = (if unat a < n then Some (fst m, (snd m)(unat a := v)) else None)"

fun uget :: "nat + dword \<Rightarrow> ucopy \<Rightarrow> byte" where
  "uget (Inl k) m = snd m k"
| "uget (Inr pa) m = mem (fst m) pa"

fun uput :: "nat + dword \<Rightarrow> byte \<Rightarrow> ucopy \<Rightarrow> ucopy" where
  "uput (Inl k) v m = (fst m, (snd m)(k := v))"
| "uput (Inr pa) v m = ((fst m)\<lparr>mem := (mem (fst m))(pa := v)\<rparr>, snd m)"

definition user_loc :: "layout \<Rightarrow> dword \<Rightarrow> ucopy \<Rightarrow> (nat + dword) option" where
  "user_loc L a m = map_option Inr (translate L a (fst m))"

definition kbuf_loc :: "nat \<Rightarrow> dword \<Rightarrow> ucopy \<Rightarrow> (nat + dword) option" where
  "kbuf_loc n a m = (if unat a < n then Some (Inl (unat a)) else None)"

lemma user_loc_uput [simp]: "user_loc L a (uput l v m) = user_loc L a m"
  by (cases l) (simp_all add: user_loc_def)

lemma kbuf_loc_uput [simp]: "kbuf_loc n a (uput l v m) = kbuf_loc n a m"
  by (simp add: kbuf_loc_def)

lemma uget_uput: "uget l' (uput l v m) = (if l' = l then v else uget l' m)"
  by (cases l; cases l') auto

lemma uread_loc: "uread L a m = map_option (\<lambda>l. uget l m) (user_loc L a m)"
  by (simp add: uread_def user_loc_def vread_def option.map_comp comp_def)

lemma uwrite_loc: "uwrite L a v m = map_option (\<lambda>l. uput l v m) (user_loc L a m)"
  by (simp add: uwrite_def user_loc_def vwrite_def option.map_comp comp_def)

lemma kread_loc: "kread n a m = map_option (\<lambda>l. uget l m) (kbuf_loc n a m)"
  by (simp add: kread_def kbuf_loc_def)

lemma kwrite_loc: "kwrite n a v m = map_option (\<lambda>l. uput l v m) (kbuf_loc n a m)"
  by (simp add: kwrite_def kbuf_loc_def)

lemmas ucopy_locs = uread_loc uwrite_loc kread_loc kwrite_loc

interpretation from_user: byte_store "user_loc L" "kbuf_loc n" uget uput "uread L" "kwrite n" for L n
  by unfold_locales (simp_all add: ucopy_locs uget_uput)

interpretation to_user: byte_store "kbuf_loc n" "user_loc L" uget uput "kread n" "uwrite L" for L n
  by unfold_locales (simp_all add: ucopy_locs uget_uput)

lemma run_at_kbuf: "unat a + k \<le> n \<Longrightarrow> n < 2 ^ 32 \<Longrightarrow> run_at (kbuf_loc n) a m (map Inl [unat a..<unat a + k])"
proof -
  assume a: "unat a + k \<le> n" "n < 2 ^ 32"
  have "unat (a + of_nat i) = unat a + i" if "i < k" for i
    using that a by (intro unat_plus_of_nat32) simp
  then show ?thesis using a by (auto simp: run_at_iff kbuf_loc_def)
qed

end
