(* ===== verification/Kernel_Sched.thy ===== *)
theory Kernel_Sched
  imports Kernel_MM
begin

text \<open>
  The scheduler, \<^verbatim>\<open>sched.c\<close>: the current task, the idle and initial tasks, the context
  switch down to the words it pushes on and pops from the kernel stacks, the round-robin
  policy, the time accounting, and blocking and unblocking.
  A context switch does not return to the code that asked for it but continues another
  task, so the operations that switch yield the point where execution continues
  (\<open>resumed\<close>) with the state there.
\<close>

section \<open>Lists and tasks\<close>

definition on_links :: "(node links \<Rightarrow> node links option) \<Rightarrow> kernel \<Rightarrow> kernel option" where
  "on_links f s = do { h \<leftarrow> f (links s); Some (s\<lparr>links := h\<rparr>) }"

text \<open>\<^verbatim>\<open>list_entry\<close> of an anchor is its task; a queue head or null is no task.\<close>

fun list_head_to_task_struct :: "node ptr \<Rightarrow> nat option" where
  "list_head_to_task_struct (Ptr (TASK_LIST i)) = Some i"
| "list_head_to_task_struct _ = None"

definition current :: "layout \<Rightarrow> kernel \<Rightarrow> nat option" where
  "current L s = (case slot_of (task_base L) (esp (cpu s) AND 0xfffff000) of
      Some (i, 0) \<Rightarrow> Some i | _ \<Rightarrow> None)"

definition get_quantum :: "nat \<Rightarrow> kernel \<Rightarrow> cint" where
  "get_quantum t s = quantum (task_of s t)"

definition set_quantum :: "nat \<Rightarrow> cint \<Rightarrow> kernel \<Rightarrow> kernel" where
  "set_quantum t q s = upd_pcb t (\<lambda>p. p\<lparr>quantum := q\<rparr>) s"

definition get_task_stats :: "nat \<Rightarrow> kernel \<Rightarrow> stats" where
  "get_task_stats t s = statics (task_of s t)"

definition get_task_list :: "nat \<Rightarrow> node ptr" where
  "get_task_list t = Ptr (TASK_LIST t)"

section \<open>Statistics\<close>

definition set_ini_stats :: "nat \<Rightarrow> kernel \<Rightarrow> kernel option" where
  "set_ini_stats t s =
     do { let s = upd_stats t (\<lambda>st. st\<lparr>user_ticks := 0, system_ticks := 0, blocked_ticks := 0\<rparr>) s;
          (now, s) \<leftarrow> get_ticks s;
          let s = upd_stats t (\<lambda>st. st\<lparr>elapsed_total_ticks := now, total_trans := 0\<rparr>) s;
          let s = upd_pcb t (\<lambda>p. p\<lparr>t_state := ST_READY\<rparr>) s;
          Some (upd_stats t (\<lambda>st. st\<lparr>remaining_ticks := INITIAL_QUANTUM\<rparr>) s) }"

definition act_ticks_user2kernel :: "layout \<Rightarrow> kernel \<Rightarrow> kernel option" where
  "act_ticks_user2kernel L s =
     do { act \<leftarrow> current L s;
          (current_ticks, s) \<leftarrow> get_ticks s;
          let s = upd_stats act (\<lambda>st. st\<lparr>user_ticks :=
                     user_ticks st + (current_ticks - elapsed_total_ticks st)\<rparr>) s;
          (now, s) \<leftarrow> get_ticks s;
          Some (upd_stats act (\<lambda>st. st\<lparr>elapsed_total_ticks := now\<rparr>) s) }"

definition act_ticks_kernel2user :: "layout \<Rightarrow> kernel \<Rightarrow> kernel option" where
  "act_ticks_kernel2user L s =
     do { act \<leftarrow> current L s;
          (current_ticks, s) \<leftarrow> get_ticks s;
          let s = upd_stats act (\<lambda>st. st\<lparr>system_ticks :=
                     system_ticks st + (current_ticks - elapsed_total_ticks st)\<rparr>) s;
          (now, s) \<leftarrow> get_ticks s;
          Some (upd_stats act (\<lambda>st. st\<lparr>elapsed_total_ticks := now\<rparr>) s) }"

definition act_ticks_kernel2ready :: "layout \<Rightarrow> kernel \<Rightarrow> kernel option" where
  "act_ticks_kernel2ready L s =
     do { act \<leftarrow> current L s;
          (current_ticks, s) \<leftarrow> get_ticks s;
          let s = upd_stats act (\<lambda>st. st\<lparr>system_ticks :=
                     system_ticks st + (current_ticks - elapsed_total_ticks st)\<rparr>) s;
          (now, s) \<leftarrow> get_ticks s;
          let s = upd_stats act (\<lambda>st. st\<lparr>elapsed_total_ticks := now\<rparr>) s;
          Some (upd_pcb act (\<lambda>p. p\<lparr>t_state := ST_READY\<rparr>) s) }"

definition act_ticks_ready2kernel :: "layout \<Rightarrow> kernel \<Rightarrow> kernel option" where
  "act_ticks_ready2kernel L s =
     do { act \<leftarrow> current L s;
          (current_ticks, s) \<leftarrow> get_ticks s;
          let s = upd_stats act (\<lambda>st. st\<lparr>ready_ticks :=
                     ready_ticks st + (current_ticks - elapsed_total_ticks st)\<rparr>) s;
          (now, s) \<leftarrow> get_ticks s;
          let s = upd_stats act (\<lambda>st. st\<lparr>elapsed_total_ticks := now\<rparr>) s;
          let s = upd_pcb act (\<lambda>p. p\<lparr>t_state := ST_RUN\<rparr>) s;
          Some (upd_stats act (\<lambda>st. st\<lparr>total_trans := total_trans st + 1\<rparr>) s) }"

definition act_stats_entra_idle :: "kernel \<Rightarrow> kernel option" where
  "act_stats_entra_idle s =
     do { act \<leftarrow> idle_task s;
          (current_ticks, s) \<leftarrow> get_ticks s;
          let s = upd_stats act (\<lambda>st. st\<lparr>ready_ticks :=
                     ready_ticks st + (current_ticks - elapsed_total_ticks st)\<rparr>) s;
          (now, s) \<leftarrow> get_ticks s;
          Some (upd_stats act (\<lambda>st. st\<lparr>elapsed_total_ticks := now\<rparr>) s) }"

definition act_stats_surt_idle :: "kernel \<Rightarrow> kernel option" where
  "act_stats_surt_idle s =
     do { act \<leftarrow> idle_task s;
          (current_ticks, s) \<leftarrow> get_ticks s;
          let s = upd_stats act (\<lambda>st. st\<lparr>system_ticks :=
                     system_ticks st + (current_ticks - elapsed_total_ticks st)\<rparr>) s;
          (now, s) \<leftarrow> get_ticks s;
          Some (upd_stats act (\<lambda>st. st\<lparr>elapsed_total_ticks := now\<rparr>) s) }"

section \<open>Initialisation\<close>

definition set_stack_word :: "nat \<Rightarrow> nat \<Rightarrow> dword \<Rightarrow> kernel \<Rightarrow> kernel option" where
  "set_stack_word i j v s =
     (if PCB_WORDS \<le> j \<and> j < KERNEL_STACK_SIZE
      then Some (s\<lparr>task := (task s)(i := (task s i)\<lparr>stack := (stack (task s i))(j := v)\<rparr>)\<rparr>)
      else None)"

definition init_idle :: "layout \<Rightarrow> kernel \<Rightarrow> kernel option" where
  "init_idle L s =
     do { l \<leftarrow> list_first (Ptr FREEQUEUE) (links s);
          s \<leftarrow> on_links (list_del l) s;
          i \<leftarrow> list_head_to_task_struct l;
          let s = s\<lparr>idle_task := Some i\<rparr>;
          let s = upd_pcb i (\<lambda>p. p\<lparr>PID := 0\<rparr>) s;
          let s = upd_pcb i (\<lambda>p. p\<lparr>kernel_esp := KERNEL_ESP L i - 8\<rparr>) s;
          let (e, s) = allocate_DIR L i s;
          if e \<noteq> 1 then Some s
          else do { s \<leftarrow> set_stack_word i (KERNEL_STACK_SIZE - 1) (cpu_idle_addr L) s;
                    s \<leftarrow> set_stack_word i (KERNEL_STACK_SIZE - 2) 0 s;
                    set_ini_stats i s } }"

definition init_task1 :: "layout \<Rightarrow> kernel \<Rightarrow> kernel option" where
  "init_task1 L s =
     do { l \<leftarrow> list_first (Ptr FREEQUEUE) (links s);
          s \<leftarrow> on_links (list_del l) s;
          i \<leftarrow> list_head_to_task_struct l;
          let s = s\<lparr>init_task := Some i\<rparr>;
          let s = upd_pcb i (\<lambda>p. p\<lparr>PID := 1\<rparr>) s;
          let s = upd_pcb i (\<lambda>p. p\<lparr>kernel_esp := KERNEL_ESP L i\<rparr>) s;
          let (e, s) = allocate_DIR L i s;
          if e \<noteq> 1 then Some s
          else do { s \<leftarrow> set_user_pages L i s;
                    let task1_dir = get_DIR i s;
                    let s = setTSS_tswitch (KERNEL_ESP L i) s;
                    let s = set_cr3 task1_dir s;
                    let s = upd_pcb i (\<lambda>p. p\<lparr>quantum := INITIAL_QUANTUM\<rparr>) s;
                    let s = upd_stats i (\<lambda>st. st\<lparr>user_ticks := 0, system_ticks := 0, blocked_ticks := 0\<rparr>) s;
                    (now, s) \<leftarrow> get_ticks s;
                    let s = upd_stats i (\<lambda>st. st\<lparr>elapsed_total_ticks := now, total_trans := 0\<rparr>) s;
                    Some (upd_pcb i (\<lambda>p. p\<lparr>t_state := ST_RUN\<rparr>) s) } }"

text \<open>\<open>init_policy\<close> is \<^verbatim>\<open>init_sched_policy\<close> of the library \<^verbatim>\<open>libschedperf\<close>.\<close>

definition init_sched :: "(kernel \<Rightarrow> kernel) \<Rightarrow> kernel \<Rightarrow> kernel option" where
  "init_sched init_policy s =
     do { let s = s\<lparr>act_t := 0\<rparr>;
          s \<leftarrow> on_links (INIT_LIST_HEAD (Ptr FREEQUEUE)) s;
          s \<leftarrow> on_links (INIT_LIST_HEAD (Ptr READYQUEUE)) s;
          s \<leftarrow> mfold (\<lambda>i s. do { let s = upd_pcb i (\<lambda>p. p\<lparr>PID := - 1\<rparr>) s;
                                  on_links (list_add (Ptr (TASK_LIST i)) (Ptr FREEQUEUE)) s })
                 [0..<NR_TASKS] s;
          Some (init_policy s) }"

section \<open>The context switch\<close>

text \<open>Where execution continues after a switch.\<close>

datatype resumed = In_task_switch | In_ret_from_fork | In_cpu_idle

definition set_reg_ebp :: "dword \<Rightarrow> kernel \<Rightarrow> kernel" where "set_reg_ebp v s = s\<lparr>cpu := (cpu s)\<lparr>ebp := v\<rparr>\<rparr>"
definition set_reg_ebx :: "dword \<Rightarrow> kernel \<Rightarrow> kernel" where "set_reg_ebx v s = s\<lparr>cpu := (cpu s)\<lparr>ebx := v\<rparr>\<rparr>"
definition set_reg_esi :: "dword \<Rightarrow> kernel \<Rightarrow> kernel" where "set_reg_esi v s = s\<lparr>cpu := (cpu s)\<lparr>esi := v\<rparr>\<rparr>"
definition set_reg_edi :: "dword \<Rightarrow> kernel \<Rightarrow> kernel" where "set_reg_edi v s = s\<lparr>cpu := (cpu s)\<lparr>edi := v\<rparr>\<rparr>"
definition set_reg_esp :: "dword \<Rightarrow> kernel \<Rightarrow> kernel" where "set_reg_esp v s = s\<lparr>cpu := (cpu s)\<lparr>esp := v\<rparr>\<rparr>"

text \<open>
  \<^verbatim>\<open>inner_task_switch\<close>, from its frame set-up (\<^verbatim>\<open>pushl %ebp; movl %esp,%ebp\<close>) to its
  \<^verbatim>\<open>ret\<close>; the result is the address it returns to.
\<close>

definition inner_task_switch :: "layout \<Rightarrow> nat \<Rightarrow> kernel \<Rightarrow> (dword \<times> kernel) option" where
  "inner_task_switch L new s =
     do { s \<leftarrow> pushl L (ebp (cpu s)) s;
          let s = set_reg_ebp (esp (cpu s)) s;
          act_task \<leftarrow> current L s;
          let s = upd_pcb act_task (\<lambda>p. p\<lparr>kernel_esp := ebp (cpu s)\<rparr>) s;
          let esp_new = kernel_esp (task_of s new);
          let s = setTSS_tswitch (KERNEL_ESP L new) s;
          let s = set_cr3 (get_DIR new s) s;
          let s = set_reg_esp esp_new s;
          (v, s) \<leftarrow> popl L s;
          let s = set_reg_ebp v s;
          popl L s }"

text \<open>
  \<^verbatim>\<open>task_switch\<close>: its three pushes, the call (argument and return address), and what is
  executed at the address the switch returns to, on the new stack: the rest of
  \<^verbatim>\<open>task_switch\<close> if the new task was itself switched out, otherwise the entry of
  \<^verbatim>\<open>ret_from_fork\<close> or of \<^verbatim>\<open>cpu_idle\<close>.
\<close>

definition task_switch :: "layout \<Rightarrow> nat \<Rightarrow> kernel \<Rightarrow> (resumed \<times> kernel) option" where
  "task_switch L t s =
     do { s \<leftarrow> act_ticks_kernel2ready L s;
          s \<leftarrow> pushl L (esi (cpu s)) s;
          s \<leftarrow> pushl L (edi (cpu s)) s;
          s \<leftarrow> pushl L (ebx (cpu s)) s;
          s \<leftarrow> pushl L (task_addr L t) s;
          s \<leftarrow> pushl L (switch_ret_addr L) s;
          (eip, s) \<leftarrow> inner_task_switch L t s;
          if eip = switch_ret_addr L
          then do { let s = set_reg_esp (esp (cpu s) + 4) s;
                    (v, s) \<leftarrow> popl L s; let s = set_reg_ebx v s;
                    (v, s) \<leftarrow> popl L s; let s = set_reg_edi v s;
                    (v, s) \<leftarrow> popl L s; let s = set_reg_esi v s;
                    s \<leftarrow> act_ticks_ready2kernel L s;
                    Some (In_task_switch, s) }
          else if eip = ret_from_fork_addr L then Some (In_ret_from_fork, s)
          else if eip = cpu_idle_addr L then Some (In_cpu_idle, s)
          else None }"

definition switchIdle :: "layout \<Rightarrow> kernel \<Rightarrow> (resumed \<times> kernel) option" where
  "switchIdle L s = do { i \<leftarrow> idle_task s; task_switch L i s }"

definition switchInit :: "layout \<Rightarrow> kernel \<Rightarrow> (resumed \<times> kernel) option" where
  "switchInit L s = do { i \<leftarrow> init_task s; task_switch L i s }"

section \<open>The round-robin policy\<close>

definition sched_next_rr :: "layout \<Rightarrow> kernel \<Rightarrow> (resumed \<times> kernel) option" where
  "sched_next_rr L s =
     do { e \<leftarrow> list_empty (Ptr READYQUEUE) (links s);
          if e then do { i \<leftarrow> idle_task s; task_switch L i s }
          else do { l_next \<leftarrow> list_first (Ptr READYQUEUE) (links s);
                    s \<leftarrow> on_links (list_del l_next) s;
                    nx \<leftarrow> list_head_to_task_struct l_next;
                    let s = s\<lparr>CPU_QUANTUM := quantum (task_of s nx)\<rparr>;
                    task_switch L nx s } }"

definition update_current_state_rr :: "layout \<Rightarrow> node ptr \<Rightarrow> kernel \<Rightarrow> kernel option" where
  "update_current_state_rr L dest s =
     do { act \<leftarrow> current L s; on_links (list_add_tail (Ptr (TASK_LIST act)) dest) s }"

definition needs_sched_rr :: "kernel \<Rightarrow> cint" where
  "needs_sched_rr s = (if sint (CPU_QUANTUM s) \<le> 0 then 1 else 0)"

definition update_sched_data_rr :: "kernel \<Rightarrow> kernel" where
  "update_sched_data_rr s = s\<lparr>CPU_QUANTUM := CPU_QUANTUM s - 1\<rparr>"

text \<open>The four function pointers of \<^verbatim>\<open>include/schedperf.h\<close>, and the policy of \<^verbatim>\<open>sched.c\<close>.\<close>

record policy =
  sched_next :: "kernel \<Rightarrow> (resumed \<times> kernel) option"
  update_current_state :: "node ptr \<Rightarrow> kernel \<Rightarrow> kernel option"
  needs_sched :: "kernel \<Rightarrow> cint"
  update_sched_data :: "kernel \<Rightarrow> kernel"

definition rr_policy :: "layout \<Rightarrow> policy" where
  "rr_policy L = \<lparr>sched_next = sched_next_rr L, update_current_state = update_current_state_rr L,
     needs_sched = needs_sched_rr, update_sched_data = update_sched_data_rr\<rparr>"

section \<open>Blocking\<close>

definition block_process :: "layout \<Rightarrow> policy \<Rightarrow> node ptr \<Rightarrow> kernel \<Rightarrow> (resumed \<times> kernel) option" where
  "block_process L P block_queue s =
     do { act \<leftarrow> current L s;
          s \<leftarrow> update_current_state P block_queue s;
          (now, s) \<leftarrow> get_ticks s;
          let s = upd_stats act (\<lambda>st. st\<lparr>system_ticks := now - elapsed_total_ticks st\<rparr>) s;
          (now, s) \<leftarrow> get_ticks s;
          let s = upd_stats act (\<lambda>st. st\<lparr>elapsed_total_ticks := now\<rparr>) s;
          let s = upd_pcb act (\<lambda>p. p\<lparr>t_state := ST_BLOCKED\<rparr>) s;
          sched_next P s }"

text \<open>\<open>None\<close> as the first component: no switch took place and the call returns.\<close>

definition unblock_process :: "layout \<Rightarrow> policy \<Rightarrow> nat \<Rightarrow> kernel \<Rightarrow> (resumed option \<times> kernel) option" where
  "unblock_process L P blk s =
     do { let l = get_task_list blk;
          s \<leftarrow> on_links (list_del l) s;
          s \<leftarrow> on_links (list_add_tail l (Ptr READYQUEUE)) s;
          (now, s) \<leftarrow> get_ticks s;
          let s = upd_stats blk (\<lambda>st. st\<lparr>blocked_ticks := blocked_ticks st + (now - elapsed_total_ticks st)\<rparr>) s;
          (now, s) \<leftarrow> get_ticks s;
          let s = upd_stats blk (\<lambda>st. st\<lparr>elapsed_total_ticks := now\<rparr>) s;
          let s = upd_pcb blk (\<lambda>p. p\<lparr>t_state := ST_READY\<rparr>) s;
          if needs_sched P s \<noteq> 0
          then do { s \<leftarrow> update_current_state P (Ptr READYQUEUE) s;
                    (r, s) \<leftarrow> sched_next P s;
                    Some (Some r, s) }
          else Some (None, s) }"

section \<open>Statistics by process identifier\<close>

text \<open>The memory image of \<^verbatim>\<open>struct stats\<close>: seven little-endian words.\<close>

definition dword_bytes :: "dword \<Rightarrow> byte list" where
  "dword_bytes w = [ucast w, ucast (drop_bit 8 w), ucast (drop_bit 16 w), ucast (drop_bit 24 w)]"

definition stats_bytes :: "stats \<Rightarrow> byte list" where
  "stats_bytes st = concat (map dword_bytes
     [user_ticks st, system_ticks st, blocked_ticks st, ready_ticks st, elapsed_total_ticks st,
      total_trans st, remaining_ticks st])"

definition SIZEOF_STATS :: cint where [simp]: "SIZEOF_STATS = 28"

definition copy_stats_to_user :: "layout \<Rightarrow> nat \<Rightarrow> dword \<Rightarrow> kernel \<Rightarrow> (cint \<times> kernel) option" where
  "copy_stats_to_user L t st s =
     do { (r, m) \<leftarrow> copy_to_user (kread 28) (uwrite L) 0 st SIZEOF_STATS
                       (s, \<lambda>k. stats_bytes (statics (task_of s t)) ! k);
          Some (r, fst m) }"

fun getStatPID_loop :: "layout \<Rightarrow> nat list \<Rightarrow> cint \<Rightarrow> dword \<Rightarrow> kernel \<Rightarrow> (cint \<times> kernel) option" where
  "getStatPID_loop L [] pid st s = Some (- 1, s)"
| "getStatPID_loop L (i # is) pid st s =
     (if PID (task_of s i) = pid
      then do { (_, s) \<leftarrow> copy_stats_to_user L i st s; Some (0, s) }
      else getStatPID_loop L is pid st s)"

definition getStatPID :: "layout \<Rightarrow> cint \<Rightarrow> dword \<Rightarrow> kernel \<Rightarrow> (cint \<times> kernel) option" where
  "getStatPID L pid st s = getStatPID_loop L [0..<NR_TASKS] pid st s"

section \<open>Kernel stacks\<close>

lemma elem_addr_Suc [simp]:
  "elem_addr b i (Suc j) - 4 = elem_addr b i j" "elem_addr b i j + 4 = elem_addr b i (Suc j)"
  by (simp_all add: elem_addr_def)

lemma current_at [ksimps]:
  "esp (cpu s) = elem_addr (task_base L) t j \<Longrightarrow> layout_ok L \<Longrightarrow> t < 10 \<Longrightarrow> j < 1024 \<Longrightarrow> current L s = Some t"
  by (simp add: current_def layout_ok_def)

lemma current_bounds: "current L s = Some t \<Longrightarrow> t < 10"
  by (auto simp: current_def split: option.splits prod.splits nat.splits dest: slot_of_bounds)

lemma current_cong: "esp (cpu s') = esp (cpu s) \<Longrightarrow> current L s' = current L s"
  by (simp add: current_def)

lemma pushl_at [ksimps]:
  "esp (cpu s) = elem_addr (task_base L) t (Suc j) \<Longrightarrow> t < 10 \<Longrightarrow> 14 \<le> j \<Longrightarrow> j < 1024 \<Longrightarrow>
     pushl L v s = Some (s\<lparr>cpu := (cpu s)\<lparr>esp := elem_addr (task_base L) t j\<rparr>,
       task := (task s)(t := (task s t)\<lparr>stack := (stack (task s t))(j := v)\<rparr>)\<rparr>)"
  by (simp add: pushl_def stack_write_def Let_def)

lemma popl_at [ksimps]:
  "esp (cpu s) = elem_addr (task_base L) t j \<Longrightarrow> t < 10 \<Longrightarrow> 14 \<le> j \<Longrightarrow> j < 1024 \<Longrightarrow>
     popl L s = Some (stack (task s t) j, s\<lparr>cpu := (cpu s)\<lparr>esp := elem_addr (task_base L) t (Suc j)\<rparr>\<rparr>)"
  by (simp add: popl_def stack_read_def)

lemmas set_reg_defs = set_reg_ebp_def set_reg_ebx_def set_reg_esi_def set_reg_edi_def set_reg_esp_def

section \<open>Time accounting in closed form\<close>

text \<open>
  Every accounting routine adds the ticks since the last transition to one counter and
  reads the clock again for the new transition time.
\<close>

definition charge :: "((dword \<Rightarrow> dword) \<Rightarrow> stats \<Rightarrow> stats) \<Rightarrow> kernel \<Rightarrow> stats \<Rightarrow> stats" where
  "charge counter s st =
     (counter (\<lambda>t. t + (ticks_at s (tsc_pos s) - elapsed_total_ticks st)) st)
       \<lparr>elapsed_total_ticks := ticks_at s (Suc (tsc_pos s))\<rparr>"

lemma charge_eqs:
  "charge user_ticks_update s st = st\<lparr>user_ticks := user_ticks st + (ticks_at s (tsc_pos s) - elapsed_total_ticks st),
     elapsed_total_ticks := ticks_at s (Suc (tsc_pos s))\<rparr>"
  "charge system_ticks_update s st = st\<lparr>system_ticks := system_ticks st + (ticks_at s (tsc_pos s) - elapsed_total_ticks st),
     elapsed_total_ticks := ticks_at s (Suc (tsc_pos s))\<rparr>"
  "charge ready_ticks_update s st = st\<lparr>ready_ticks := ready_ticks st + (ticks_at s (tsc_pos s) - elapsed_total_ticks st),
     elapsed_total_ticks := ticks_at s (Suc (tsc_pos s))\<rparr>"
  "charge blocked_ticks_update s st = st\<lparr>blocked_ticks := blocked_ticks st + (ticks_at s (tsc_pos s) - elapsed_total_ticks st),
     elapsed_total_ticks := ticks_at s (Suc (tsc_pos s))\<rparr>"
  by (cases st, simp add: charge_def)+

lemma ticks_at_cong [simp]:
  "ticks_at (s\<lparr>tsc_pos := n\<rparr>) = ticks_at s" "ticks_at (s\<lparr>task := ta\<rparr>) = ticks_at s"
  "ticks_at (s\<lparr>cpu := c\<rparr>) = ticks_at s" "ticks_at (s\<lparr>links := l\<rparr>) = ticks_at s"
  "ticks_at (s\<lparr>tss := ts\<rparr>) = ticks_at s" "ticks_at (s\<lparr>cr3 := w\<rparr>) = ticks_at s"
  "ticks_at (s\<lparr>CPU_QUANTUM := q\<rparr>) = ticks_at s"
  by (simp_all add: ticks_at_def fun_eq_iff)

abbreviation tick2 :: "kernel \<Rightarrow> kernel" where "tick2 s \<equiv> s\<lparr>tsc_pos := Suc (Suc (tsc_pos s))\<rparr>"

lemma act_ticks_user2kernel_eq:
  "current L s = Some c \<Longrightarrow> act_ticks_user2kernel L s = Some (upd_stats c (charge user_ticks_update s) (tick2 s))"
  by (simp add: act_ticks_user2kernel_def charge_eqs)

lemma act_ticks_kernel2user_eq:
  "current L s = Some c \<Longrightarrow> act_ticks_kernel2user L s = Some (upd_stats c (charge system_ticks_update s) (tick2 s))"
  by (simp add: act_ticks_kernel2user_def charge_eqs)

lemma act_ticks_kernel2ready_eq:
  "current L s = Some c \<Longrightarrow> act_ticks_kernel2ready L s =
     Some (upd_pcb c (\<lambda>p. p\<lparr>statics := charge system_ticks_update s (statics p), t_state := ST_READY\<rparr>) (tick2 s))"
  by (simp add: act_ticks_kernel2ready_def charge_eqs)

lemma act_ticks_ready2kernel_eq:
  "current L s = Some c \<Longrightarrow> act_ticks_ready2kernel L s =
     Some (upd_pcb c (\<lambda>p. p\<lparr>t_state := ST_RUN, statics := (charge ready_ticks_update s (statics p))
         \<lparr>total_trans := total_trans (statics p) + 1\<rparr>\<rparr>) (tick2 s))"
  by (simp add: act_ticks_ready2kernel_def charge_eqs)

section \<open>What a context switch does\<close>

text \<open>
  Task \<open>t\<close> is switched out and its registers will be \<open>r\<close>: its saved stack pointer is at the
  frame of \<^verbatim>\<open>inner_task_switch\<close>, above which lie the words \<^verbatim>\<open>task_switch\<close> pushed.
\<close>

definition suspended :: "layout \<Rightarrow> kernel \<Rightarrow> nat \<Rightarrow> cpu_regs \<Rightarrow> bool" where
  "suspended L s t r \<longleftrightarrow> (\<exists>j. 14 \<le> j \<and> j + 6 < 1024
     \<and> kernel_esp (task_of s t) = elem_addr (task_base L) t j
     \<and> stack (task s t) j = ebp r \<and> stack (task s t) (Suc j) = switch_ret_addr L
     \<and> stack (task s t) (Suc (Suc (Suc j))) = ebx r \<and> stack (task s t) (Suc (Suc (Suc (Suc j)))) = edi r
     \<and> stack (task s t) (Suc (Suc (Suc (Suc (Suc j))))) = esi r
     \<and> esp r = elem_addr (task_base L) t (Suc (Suc (Suc (Suc (Suc (Suc j)))))))"

text \<open>The running task's kernel stack has room for the words a switch pushes.\<close>

definition stack_room :: "layout \<Rightarrow> kernel \<Rightarrow> nat \<Rightarrow> bool" where
  "stack_room L s c \<longleftrightarrow> (\<exists>j. 20 \<le> j \<and> j < 1024 \<and> esp (cpu s) = elem_addr (task_base L) c j)"

text \<open>Nothing but the tasks, the registers, the clock position, cr3 and the TSS differs.\<close>

definition same_rest :: "kernel \<Rightarrow> kernel \<Rightarrow> bool" where
  "same_rest s s' \<longleftrightarrow> s'\<lparr>task := task s, cpu := cpu s, tsc_pos := tsc_pos s, cr3 := cr3 s, tss := tss s\<rparr> = s"

lemma stack_room_current: "layout_ok L \<Longrightarrow> c < 10 \<Longrightarrow> stack_room L s c \<Longrightarrow> current L s = Some c"
  by (auto simp: stack_room_def intro: current_at)

lemma suspended_cong: "task s' t = task s t \<Longrightarrow> suspended L s' t r = suspended L s t r"
  by (simp add: suspended_def)

lemma cpu_eqI: "esp a = esp b \<Longrightarrow> ebp a = ebp b \<Longrightarrow> ebx a = ebx b \<Longrightarrow> esi a = esi b \<Longrightarrow> edi a = edi b \<Longrightarrow> a = (b :: cpu_regs)"
  by simp

text \<open>
  The part both cases share: after the accounting, the pushes and the save, the old task is
  suspended with its registers, on whatever stack the new one continues.
\<close>

definition switched_out :: "layout \<Rightarrow> kernel \<Rightarrow> nat \<Rightarrow> nat \<Rightarrow> nat \<Rightarrow> task_union" where
  "switched_out L s c t j = (task s c)\<lparr>
     stack := (stack (task s c))(
       Suc (Suc (Suc (Suc (Suc j)))) := esi (cpu s), Suc (Suc (Suc (Suc j))) := edi (cpu s),
       Suc (Suc (Suc j)) := ebx (cpu s), Suc (Suc j) := task_addr L t, Suc j := switch_ret_addr L,
       j := ebp (cpu s)),
     pcb := (task_of s c)\<lparr>statics := charge system_ticks_update s (statics (task_of s c)),
       t_state := ST_READY, kernel_esp := elem_addr (task_base L) c j\<rparr>\<rparr>"

abbreviation up6 :: "nat \<Rightarrow> nat" where "up6 j \<equiv> Suc (Suc (Suc (Suc (Suc (Suc j)))))"

lemma switch_save:
  assumes "layout_ok L" "c < 10" "14 \<le> j" "up6 j < 1024" and sp: "esp (cpu s) = elem_addr (task_base L) c (up6 j)"
  shows "task_switch L t s =
    (let s1 = s\<lparr>task := (task s)(c := switched_out L s c t j), tsc_pos := Suc (Suc (tsc_pos s)),
           tss := (tss s)\<lparr>tss_esp0 := KERNEL_ESP L t\<rparr>, cr3 := dir_pages_baseAddr (task_of s t),
           cpu := (cpu s)\<lparr>esp := (if t = c then elem_addr (task_base L) c j else kernel_esp (task_of s t)),
              ebp := elem_addr (task_base L) c j\<rparr>\<rparr>
     in do { (v, s) \<leftarrow> popl L s1;
             (eip, s) \<leftarrow> popl L (set_reg_ebp v s);
             if eip = switch_ret_addr L
             then do { let s = set_reg_esp (esp (cpu s) + 4) s;
                       (v, s) \<leftarrow> popl L s; let s = set_reg_ebx v s;
                       (v, s) \<leftarrow> popl L s; let s = set_reg_edi v s;
                       (v, s) \<leftarrow> popl L s; let s = set_reg_esi v s;
                       s \<leftarrow> act_ticks_ready2kernel L s;
                       Some (In_task_switch, s) }
             else if eip = ret_from_fork_addr L then Some (In_ret_from_fork, s)
             else if eip = cpu_idle_addr L then Some (In_cpu_idle, s)
             else None })"
proof -
  let ?s1 = "s\<lparr>task := (task s)(c := switched_out L s c t j), tsc_pos := Suc (Suc (tsc_pos s)),
           tss := (tss s)\<lparr>tss_esp0 := KERNEL_ESP L t\<rparr>, cr3 := dir_pages_baseAddr (task_of s t),
           cpu := (cpu s)\<lparr>esp := (if t = c then elem_addr (task_base L) c j else kernel_esp (task_of s t)),
              ebp := elem_addr (task_base L) c j\<rparr>\<rparr>"
  have cur: "current L s = Some c" by (rule current_at [OF sp assms(1,2,4)])
  define s0 where "s0 = (tick2 s)\<lparr>cpu := (cpu s)\<lparr>esp := elem_addr (task_base L) c (Suc j)\<rparr>,
      task := (task s)(c := (task s c)\<lparr>pcb := (task_of s c)\<lparr>statics := charge system_ticks_update s (statics (task_of s c)),
         t_state := ST_READY\<rparr>, stack := (stack (task s c))(
       Suc (Suc (Suc (Suc (Suc j)))) := esi (cpu s), Suc (Suc (Suc (Suc j))) := edi (cpu s),
       Suc (Suc (Suc j)) := ebx (cpu s), Suc (Suc j) := task_addr L t, Suc j := switch_ret_addr L)\<rparr>)\<rparr>"
  have pushes: "do { s \<leftarrow> act_ticks_kernel2ready L s; s \<leftarrow> pushl L (esi (cpu s)) s; s \<leftarrow> pushl L (edi (cpu s)) s;
      s \<leftarrow> pushl L (ebx (cpu s)) s; s \<leftarrow> pushl L (task_addr L t) s; pushl L (switch_ret_addr L) s } = Some s0"
    using assms by (simp add: act_ticks_kernel2ready_eq [OF cur] pushl_at s0_def)
  have push_ebp: "pushl L (ebp (cpu s0)) s0 = Some (s0\<lparr>cpu := (cpu s0)\<lparr>esp := elem_addr (task_base L) c j\<rparr>,
       task := (task s0)(c := (task s0 c)\<lparr>stack := (stack (task s0 c))(j := ebp (cpu s))\<rparr>)\<rparr>)"
    using assms by (subst pushl_at [of _ L c j]) (simp_all add: s0_def)
  have cur0: "current L (set_reg_ebp v (s0\<lparr>cpu := (cpu s0)\<lparr>esp := elem_addr (task_base L) c j\<rparr>, task := ta\<rparr>)) = Some c" for v ta
    using assms by (intro current_at [of _ L c j]) (simp_all add: set_reg_defs)
  have sw: "task_switch L t s = Option.bind (Some s0) (\<lambda>s. do { (eip, s) \<leftarrow> inner_task_switch L t s;
          if eip = switch_ret_addr L
          then do { let s = set_reg_esp (esp (cpu s) + 4) s;
                    (v, s) \<leftarrow> popl L s; let s = set_reg_ebx v s;
                    (v, s) \<leftarrow> popl L s; let s = set_reg_edi v s;
                    (v, s) \<leftarrow> popl L s; let s = set_reg_esi v s;
                    s \<leftarrow> act_ticks_ready2kernel L s;
                    Some (In_task_switch, s) }
          else if eip = ret_from_fork_addr L then Some (In_ret_from_fork, s)
          else if eip = cpu_idle_addr L then Some (In_cpu_idle, s)
          else None })"
    unfolding task_switch_def pushes [symmetric] by (simp only: Option.bind_assoc)
  have inner: "inner_task_switch L t s0 = do { (v, s) \<leftarrow> popl L ?s1; popl L (set_reg_ebp v s) }"
  proof -
    let ?p = "s0\<lparr>cpu := (cpu s0)\<lparr>esp := elem_addr (task_base L) c j\<rparr>,
       task := (task s0)(c := (task s0 c)\<lparr>stack := (stack (task s0 c))(j := ebp (cpu s))\<rparr>)\<rparr>"
    define s2 where "s2 = set_reg_ebp (esp (cpu ?p)) ?p"
    have cur2: "current L s2 = Some c" unfolding s2_def by (rule cur0)
    have e: "set_reg_esp (kernel_esp (task_of (upd_pcb c (\<lambda>p. p\<lparr>kernel_esp := ebp (cpu s2)\<rparr>) s2) t))
        (set_cr3 (get_DIR t (setTSS_tswitch (KERNEL_ESP L t) (upd_pcb c (\<lambda>p. p\<lparr>kernel_esp := ebp (cpu s2)\<rparr>) s2)))
        (setTSS_tswitch (KERNEL_ESP L t) (upd_pcb c (\<lambda>p. p\<lparr>kernel_esp := ebp (cpu s2)\<rparr>) s2))) = ?s1"
      by (rule kernel.equality)
        (simp_all add: s2_def s0_def set_reg_defs setTSS_tswitch_def set_cr3_def get_DIR_def switched_out_def)
    show ?thesis
      unfolding inner_task_switch_def push_ebp Let_def
      by (simp only: Option.bind_lunit s2_def [symmetric] cur2 e)
  qed
  show ?thesis by (simp add: sw inner Let_def Option.bind_assoc split_def)
qed

lemma switched_out_suspended:
  "task s' c = switched_out L s c t j \<Longrightarrow> 14 \<le> j \<Longrightarrow> up6 j < 1024 \<Longrightarrow>
     esp (cpu s) = elem_addr (task_base L) c (up6 j) \<Longrightarrow> suspended L s' c (cpu s)"
  unfolding suspended_def by (rule exI [of _ j]) (simp add: switched_out_def)

lemma stack_roomE:
  assumes "stack_room L s c"
  obtains j where "14 \<le> j" "up6 j < 1024" "esp (cpu s) = elem_addr (task_base L) c (up6 j)"
proof -
  from assms obtain j where j: "20 \<le> j" "j < 1024" "esp (cpu s) = elem_addr (task_base L) c j"
    by (auto simp: stack_room_def)
  then have "j = up6 (j - 6)" by simp
  with j that [of "j - 6"] show thesis by auto
qed

text \<open>A task that has not run yet: its first switch enters the function at \<open>a\<close>.\<close>

definition fresh :: "layout \<Rightarrow> kernel \<Rightarrow> nat \<Rightarrow> dword \<Rightarrow> nat \<Rightarrow> bool" where
  "fresh L s t a j \<longleftrightarrow> 14 \<le> j \<and> Suc (Suc j) \<le> 1024
     \<and> kernel_esp (task_of s t) = elem_addr (task_base L) t j
     \<and> stack (task s t) j = 0 \<and> stack (task s t) (Suc j) = a"

lemma elem_addr_eq_iff: "t < 10 \<Longrightarrow> j < 1024 \<Longrightarrow> k < 1024 \<Longrightarrow> elem_addr b t j = elem_addr b t k \<longleftrightarrow> j = k"
  by (metis option.inject prod.inject slot_of_elem_addr)

text \<open>The saved state of a task determines how it continues.\<close>

lemma suspended_unique: "suspended L s t r \<Longrightarrow> suspended L s t r' \<Longrightarrow> t < 10 \<Longrightarrow> r' = r"
  by (auto simp: suspended_def elem_addr_eq_iff intro!: cpu_eqI)

lemma fresh_unique: "fresh L s t a j \<Longrightarrow> fresh L s t a' k \<Longrightarrow> t < 10 \<Longrightarrow> k = j"
  by (auto simp: fresh_def elem_addr_eq_iff)

lemma suspended_not_fresh: "suspended L s t r \<Longrightarrow> fresh L s t a j \<Longrightarrow> t < 10 \<Longrightarrow> a = switch_ret_addr L"
  by (auto simp: suspended_def fresh_def elem_addr_eq_iff)

text \<open>
  How the processor passes from \<open>c\<close> to \<open>n\<close>: the words in use on the stack of \<open>c\<close>, and what the
  others have saved, are as before; \<open>n\<close> continues with the registers it had, or enters its
  first function.
\<close>

definition hands_over :: "layout \<Rightarrow> kernel \<Rightarrow> nat \<Rightarrow> nat \<Rightarrow> kernel \<Rightarrow> bool" where
  "hands_over L s c n s' \<longleftrightarrow> (\<exists>j<1024. esp (cpu s) = elem_addr (task_base L) c j
       \<and> (\<forall>k\<ge>j. stack (task s' c) k = stack (task s c) k))
     \<and> (\<forall>t. t \<noteq> c \<longrightarrow> stack (task s' t) = stack (task s t) \<and> kernel_esp (task_of s' t) = kernel_esp (task_of s t))
     \<and> (\<forall>r. n \<noteq> c \<longrightarrow> suspended L s n r \<longrightarrow> cpu s' = r)
     \<and> (\<forall>a k. n \<noteq> c \<longrightarrow> fresh L s n a k \<longrightarrow> a \<noteq> switch_ret_addr L \<longrightarrow> esp (cpu s') = elem_addr (task_base L) n (Suc (Suc k)) \<and> ebp (cpu s') = 0)
     \<and> (n = c \<longrightarrow> cpu s' = cpu s)"

lemma hands_over_cong:
  assumes "cpu s1 = cpu s" "\<And>t. stack (task s1 t) = stack (task s t)" "\<And>t. kernel_esp (task_of s1 t) = kernel_esp (task_of s t)"
  shows "hands_over L s1 c n s' = hands_over L s c n s'"
  using assms by (simp add: hands_over_def suspended_def fresh_def)

lemma switched_out_hands_over:
  assumes "esp (cpu s) = elem_addr (task_base L) c (up6 j)" "up6 j < 1024" "stack (task s' c) = stack (switched_out L s c t j)"
    and "\<And>t. t \<noteq> c \<Longrightarrow> stack (task s' t) = stack (task s t) \<and> kernel_esp (task_of s' t) = kernel_esp (task_of s t)"
    and "\<And>r. n \<noteq> c \<Longrightarrow> suspended L s n r \<Longrightarrow> cpu s' = r"
    and "\<And>a k. n \<noteq> c \<Longrightarrow> fresh L s n a k \<Longrightarrow> a \<noteq> switch_ret_addr L \<Longrightarrow> esp (cpu s') = elem_addr (task_base L) n (Suc (Suc k)) \<and> ebp (cpu s') = 0"
    and "n = c \<Longrightarrow> cpu s' = cpu s"
  shows "hands_over L s c n s'"
  using assms unfolding hands_over_def by (intro conjI exI [of _ "up6 j"]) (auto simp: switched_out_def)

text \<open>What is known of the state in which the next task continues.\<close>

definition switched :: "layout \<Rightarrow> kernel \<Rightarrow> nat \<Rightarrow> nat \<Rightarrow> kernel \<Rightarrow> bool" where
  "switched L s c n s' \<longleftrightarrow> same_rest s s' \<and> suspended L s' c (cpu s)
     \<and> cr3 s' = get_DIR n s \<and> tss_esp0 (tss s') = KERNEL_ESP L n
     \<and> (\<forall>t. t \<noteq> c \<longrightarrow> t \<noteq> n \<longrightarrow> task s' t = task s t)
     \<and> (\<forall>t. PID (task_of s' t) = PID (task_of s t) \<and> quantum (task_of s' t) = quantum (task_of s t)
          \<and> dir_pages_baseAddr (task_of s' t) = dir_pages_baseAddr (task_of s t))
     \<and> (c \<noteq> n \<longrightarrow> t_state (task_of s' c) = ST_READY) \<and> hands_over L s c n s'"

lemma task_switch_suspended:
  assumes L: "layout_ok L" and cn: "c < 10" "n < 10" "c \<noteq> n"
    and room: "stack_room L s c" and n: "suspended L s n r"
  shows "\<exists>s'. task_switch L n s = Some (In_task_switch, s') \<and> switched L s c n s' \<and> cpu s' = r
    \<and> current L s' = Some n \<and> t_state (task_of s' n) = ST_RUN
    \<and> statics (task_of s' n) = (charge ready_ticks_update (tick2 s) (statics (task_of s n)))
         \<lparr>total_trans := total_trans (statics (task_of s n)) + 1\<rparr>
    \<and> statics (task_of s' c) = charge system_ticks_update s (statics (task_of s c))"
proof -
  obtain j where j: "14 \<le> j" "up6 j < 1024" "esp (cpu s) = elem_addr (task_base L) c (up6 j)"
    using room by (rule stack_roomE)
  obtain k where k: "14 \<le> k" "k + 6 < 1024" "kernel_esp (task_of s n) = elem_addr (task_base L) n k"
    "stack (task s n) k = ebp r" "stack (task s n) (Suc k) = switch_ret_addr L"
    "stack (task s n) (Suc (Suc (Suc k))) = ebx r" "stack (task s n) (Suc (Suc (Suc (Suc k)))) = edi r"
    "stack (task s n) (Suc (Suc (Suc (Suc (Suc k))))) = esi r" "esp r = elem_addr (task_base L) n (up6 k)"
    using n by (auto simp: suspended_def)
  define s1 where "s1 = s\<lparr>task := (task s)(c := switched_out L s c n j), tsc_pos := Suc (Suc (tsc_pos s)),
     tss := (tss s)\<lparr>tss_esp0 := KERNEL_ESP L n\<rparr>, cr3 := dir_pages_baseAddr (task_of s n), cpu := r\<rparr>"
  have cur1: "current L s1 = Some n" using k L cn by (intro current_at) (auto simp: s1_def)
  define s' where "s' = upd_pcb n (\<lambda>p. p\<lparr>t_state := ST_RUN, statics := (charge ready_ticks_update s1 (statics p))
         \<lparr>total_trans := total_trans (statics p) + 1\<rparr>\<rparr>) (tick2 s1)"
  have regs: "(cpu s)\<lparr>ebp := ebp r, ebx := ebx r, edi := edi r, esp := elem_addr (task_base L) n (up6 k), esi := esi r\<rparr> = r"
    using k by (intro cpu_eqI) simp_all
  have "task_switch L n s = Some (In_task_switch, s')"
    unfolding switch_save [OF L cn(1) j] Let_def using cn k L
    by (simp add: popl_at set_reg_defs regs s1_def [symmetric] act_ticks_ready2kernel_eq [OF cur1] s'_def)
  moreover have "hands_over L s c n s'"
  proof (rule switched_out_hands_over [OF j(3,2), of s' n])
    show "cpu s' = r'" if "suspended L s n r'" for r'
      using suspended_unique [OF n that cn(2)] by (simp add: s'_def s1_def)
    show "esp (cpu s') = elem_addr (task_base L) n (Suc (Suc k)) \<and> ebp (cpu s') = 0" if "fresh L s n a k" "a \<noteq> switch_ret_addr L" for a k
      using suspended_not_fresh [OF n that(1) cn(2)] that(2) by blast
  qed (use cn in \<open>simp_all add: s'_def s1_def\<close>)
  then have "switched L s c n s'"
    using cn cur1 switched_out_suspended [OF _ j, of s' n] unfolding switched_def same_rest_def
    by (simp add: s'_def s1_def get_DIR_def current_def switched_out_def)
  moreover have "current L s' = Some n"
    using cur1 by (simp add: s'_def current_def)
  moreover have "cpu s' = r" "t_state (task_of s' n) = ST_RUN"
    "statics (task_of s' c) = charge system_ticks_update s (statics (task_of s c))"
    using cn by (simp_all add: s'_def s1_def switched_out_def)
  moreover have "statics (task_of s' n) = (charge ready_ticks_update (tick2 s) (statics (task_of s n)))
         \<lparr>total_trans := total_trans (statics (task_of s n)) + 1\<rparr>"
    using cn by (simp add: s'_def s1_def charge_def)
  ultimately show ?thesis by blast
qed

text \<open>Switching to the running task itself gives back its registers.\<close>

lemma task_switch_self:
  assumes L: "layout_ok L" and c: "c < 10" and room: "stack_room L s c"
  shows "\<exists>s'. task_switch L c s = Some (In_task_switch, s') \<and> switched L s c c s' \<and> cpu s' = cpu s
    \<and> current L s' = Some c \<and> t_state (task_of s' c) = ST_RUN"
proof -
  obtain j where j: "14 \<le> j" "up6 j < 1024" "esp (cpu s) = elem_addr (task_base L) c (up6 j)"
    using room by (rule stack_roomE)
  define s1 where "s1 = s\<lparr>task := (task s)(c := switched_out L s c c j), tsc_pos := Suc (Suc (tsc_pos s)),
     tss := (tss s)\<lparr>tss_esp0 := KERNEL_ESP L c\<rparr>, cr3 := dir_pages_baseAddr (task_of s c),
     cpu := (cpu s)\<lparr>esp := elem_addr (task_base L) c (up6 j)\<rparr>\<rparr>"
  have cur1: "current L s1 = Some c" using L c j by (intro current_at) (auto simp: s1_def)
  define s' where "s' = upd_pcb c (\<lambda>p. p\<lparr>t_state := ST_RUN, statics := (charge ready_ticks_update s1 (statics p))
         \<lparr>total_trans := total_trans (statics p) + 1\<rparr>\<rparr>) (tick2 s1)"
  have regs: "(cpu s)\<lparr>esp := elem_addr (task_base L) c (up6 j)\<rparr> = cpu s"
    using j by (intro cpu_eqI) simp_all
  have s1e: "s1\<lparr>cpu := (cpu s1)\<lparr>esi := esi (cpu s)\<rparr>\<rparr> = s1" by (simp add: s1_def)
  have so: "stack (switched_out L s c c j) j = ebp (cpu s)"
    "stack (switched_out L s c c j) (Suc j) = switch_ret_addr L"
    "stack (switched_out L s c c j) (Suc (Suc (Suc j))) = ebx (cpu s)"
    "stack (switched_out L s c c j) (Suc (Suc (Suc (Suc j)))) = edi (cpu s)"
    "stack (switched_out L s c c j) (Suc (Suc (Suc (Suc (Suc j))))) = esi (cpu s)"
    by (simp_all add: switched_out_def)
  have "task_switch L c s = Some (In_task_switch, s')"
    unfolding switch_save [OF L c j] Let_def using c j L
    by (simp add: popl_at set_reg_defs so s1_def [symmetric] s1e act_ticks_ready2kernel_eq [OF cur1] s'_def)
  moreover have "switched L s c c s'"
  proof -
    have "suspended L s' c (cpu s)"
      using switched_out_suspended [OF _ j, of s1 c] by (simp add: s'_def s1_def suspended_def)
    moreover have "hands_over L s c c s'"
      by (rule switched_out_hands_over [OF j(3,2), of s' c]) (simp_all add: s'_def s1_def regs)
    ultimately show ?thesis
      using c unfolding switched_def same_rest_def by (simp add: s'_def s1_def get_DIR_def switched_out_def)
  qed
  moreover have "current L s' = Some c" using cur1 by (simp add: s'_def current_def)
  ultimately show ?thesis using regs by (simp add: s'_def s1_def)
qed

lemma task_switch_fresh:
  assumes L: "layout_ok L" and cn: "c < 10" "n < 10" "c \<noteq> n"
    and room: "stack_room L s c" and n: "fresh L s n a k"
    and a: "a = ret_from_fork_addr L \<and> r = In_ret_from_fork \<or> a = cpu_idle_addr L \<and> r = In_cpu_idle"
  shows "\<exists>s'. task_switch L n s = Some (r, s') \<and> switched L s c n s'
    \<and> cpu s' = (cpu s)\<lparr>esp := elem_addr (task_base L) n (Suc (Suc k)), ebp := 0\<rparr>
    \<and> task s' n = task s n"
proof -
  obtain j where j: "14 \<le> j" "up6 j < 1024" "esp (cpu s) = elem_addr (task_base L) c (up6 j)"
    using room by (rule stack_roomE)
  define s' where "s' = s\<lparr>task := (task s)(c := switched_out L s c n j), tsc_pos := Suc (Suc (tsc_pos s)),
     tss := (tss s)\<lparr>tss_esp0 := KERNEL_ESP L n\<rparr>, cr3 := dir_pages_baseAddr (task_of s n),
     cpu := (cpu s)\<lparr>esp := elem_addr (task_base L) n (Suc (Suc k)), ebp := 0\<rparr>\<rparr>"
  have regs: "(cpu s)\<lparr>ebp := 0, esp := x\<rparr> = (cpu s)\<lparr>esp := x, ebp := 0\<rparr>" for x by simp
  have "a \<noteq> switch_ret_addr L" "a = ret_from_fork_addr L \<or> a = cpu_idle_addr L"
    "ret_from_fork_addr L \<noteq> cpu_idle_addr L"
    using L a by (auto simp: layout_ok_def)
  then have "task_switch L n s = Some (r, s')"
    unfolding switch_save [OF L cn(1) j] Let_def using cn n a
    by (auto simp: popl_at set_reg_defs regs fresh_def s'_def)
  moreover have "hands_over L s c n s'"
  proof (rule switched_out_hands_over [OF j(3,2), of s' n])
    show "cpu s' = r'" if "suspended L s n r'" for r'
      using suspended_not_fresh [OF that n cn(2)] a L by (auto simp: layout_ok_def)
    show "esp (cpu s') = elem_addr (task_base L) n (Suc (Suc k')) \<and> ebp (cpu s') = 0" if "fresh L s n a' k'" for a' k'
      using fresh_unique [OF n that cn(2)] by (simp add: s'_def)
  qed (use cn in \<open>simp_all add: s'_def\<close>)
  then have "switched L s c n s'"
    using cn switched_out_suspended [OF _ j, of s' n] unfolding switched_def same_rest_def
    by (simp add: s'_def get_DIR_def switched_out_def)
  ultimately show ?thesis using cn by (simp add: s'_def)
qed

text \<open>The tasks a switch can continue, and the summary: a switch to one of them goes through.\<close>

definition resumable :: "layout \<Rightarrow> kernel \<Rightarrow> nat \<Rightarrow> bool" where
  "resumable L s t \<longleftrightarrow> (\<exists>r. suspended L s t r)
     \<or> (\<exists>j. fresh L s t (ret_from_fork_addr L) j) \<or> (\<exists>j. fresh L s t (cpu_idle_addr L) j)"

lemma resumable_cong: "task s' t = task s t \<Longrightarrow> resumable L s' t = resumable L s t"
  by (simp add: resumable_def suspended_def fresh_def)

lemma task_switch_ok:
  assumes "layout_ok L" "c < 10" "n < 10" "stack_room L s c" "n = c \<or> resumable L s n"
  shows "\<exists>r s'. task_switch L n s = Some (r, s') \<and> switched L s c n s'"
proof (cases "n = c")
  case True
  then show ?thesis using task_switch_self [OF assms(1,2,4)] by blast
next
  case False
  with assms(5) consider r where "suspended L s n r"
    | j where "fresh L s n (ret_from_fork_addr L) j" | j where "fresh L s n (cpu_idle_addr L) j"
    by (auto simp: resumable_def)
  then show ?thesis
  proof cases
    case 1
    then show ?thesis using task_switch_suspended [OF assms(1-3) _ assms(4)] False by blast
  next
    case 2
    then show ?thesis using task_switch_fresh [OF assms(1-3) _ assms(4)] False by blast
  next
    case 3
    then show ?thesis using task_switch_fresh [OF assms(1-3) _ assms(4)] False by blast
  qed
qed

end
