(* ===== verification/Kernel_Policy.thy ===== *)
theory Kernel_Policy
  imports Kernel_Sched
begin

text \<open>
  The run queues and the scheduling policy.  \<open>queues_are s F R B\<close> abstracts the pointer
  structure to three sequences of tasks: free, ready, and blocked on the console.  The
  locale \<open>scheduling_policy\<close> states what the system calls and interrupt routines rely on in
  the four function pointers of \<^verbatim>\<open>schedperf.h\<close>; it is interpreted on the round-robin policy of
  \<^verbatim>\<open>sched.c\<close>.
\<close>

section \<open>Queues of tasks\<close>

definition QHEADS :: "node set" where "QHEADS = {FREEQUEUE, READYQUEUE, CONSOLE_BLOCKED}"

definition queue_of :: "nat list \<Rightarrow> nat list \<Rightarrow> nat list \<Rightarrow> node \<Rightarrow> node list" where
  "queue_of F R B q = map TASK_LIST (case q of FREEQUEUE \<Rightarrow> F | READYQUEUE \<Rightarrow> R
     | CONSOLE_BLOCKED \<Rightarrow> B | _ \<Rightarrow> [])"

definition queues_are :: "kernel \<Rightarrow> nat list \<Rightarrow> nat list \<Rightarrow> nat list \<Rightarrow> bool" where
  "queues_are s F R B \<longleftrightarrow> lq.queues (links s) QHEADS (queue_of F R B)"

lemma queue_of_simps [simp]:
  "queue_of F R B FREEQUEUE = map TASK_LIST F" "queue_of F R B READYQUEUE = map TASK_LIST R"
  "queue_of F R B CONSOLE_BLOCKED = map TASK_LIST B"
  by (simp_all add: queue_of_def)

lemma queue_of_upd [simp]:
  "(queue_of F R B)(FREEQUEUE := map TASK_LIST F') = queue_of F' R B"
  "(queue_of F R B)(READYQUEUE := map TASK_LIST R') = queue_of F R' B"
  "(queue_of F R B)(CONSOLE_BLOCKED := map TASK_LIST B') = queue_of F R B'"
  by (auto simp: queue_of_def fun_eq_iff split: node.splits)

lemma heads_in [simp]: "FREEQUEUE \<in> QHEADS" "READYQUEUE \<in> QHEADS" "CONSOLE_BLOCKED \<in> QHEADS" "TASK_LIST t \<notin> QHEADS"
  by (simp_all add: QHEADS_def)

lemma members_queue_of: "TASK_LIST t \<in> lq.members QHEADS (queue_of F R B) \<longleftrightarrow> t \<in> set F \<union> set R \<union> set B"
  by (auto simp: lq.members_def QHEADS_def)

lemma queues_are_cong: "links s' = links s \<Longrightarrow> queues_are s' F R B = queues_are s F R B"
  by (simp add: queues_are_def)

lemma queues_are_distinct:
  assumes "queues_are s F R B"
  shows "distinct F" "distinct R" "distinct B"
    "set F \<inter> set R = {}" "set F \<inter> set B = {}" "set R \<inter> set B = {}"
proof -
  note Q = assms [unfolded queues_are_def]
  have "distinct (q # queue_of F R B q)" if "q \<in> QHEADS" for q
    using dlist_distinct [OF lq.queues_rep [OF Q that]] by simp
  from this [of FREEQUEUE] this [of READYQUEUE] this [of CONSOLE_BLOCKED]
  show "distinct F" "distinct R" "distinct B" by (simp_all add: distinct_map)
  show "set F \<inter> set R = {}"
    using lq.queues_disjoint [OF Q, of FREEQUEUE READYQUEUE] by fastforce
  show "set F \<inter> set B = {}"
    using lq.queues_disjoint [OF Q, of FREEQUEUE CONSOLE_BLOCKED] by fastforce
  show "set R \<inter> set B = {}"
    using lq.queues_disjoint [OF Q, of READYQUEUE CONSOLE_BLOCKED] by fastforce
qed

text \<open>The queue heads that a process can be parked on, and parking at the tail.\<close>

lemma add_tail_ok:
  assumes "queues_are s F R B" "t \<notin> set F \<union> set R \<union> set B"
  shows "\<exists>h. list_add_tail (Ptr (TASK_LIST t)) (Ptr FREEQUEUE) (links s) = Some h \<and> queues_are (s\<lparr>links := h\<rparr>) (F @ [t]) R B"
    and "\<exists>h. list_add_tail (Ptr (TASK_LIST t)) (Ptr READYQUEUE) (links s) = Some h \<and> queues_are (s\<lparr>links := h\<rparr>) F (R @ [t]) B"
    and "\<exists>h. list_add_tail (Ptr (TASK_LIST t)) (Ptr CONSOLE_BLOCKED) (links s) = Some h \<and> queues_are (s\<lparr>links := h\<rparr>) F R (B @ [t])"
proof -
  note * = lq.queues_add_tail [OF assms(1) [unfolded queues_are_def], of _ "TASK_LIST t", OF _ heads_in(4)]
  have m: "TASK_LIST t \<notin> lq.members QHEADS (queue_of F R B)" using assms(2) by (simp add: members_queue_of)
  have e: "map TASK_LIST xs @ [TASK_LIST t] = map TASK_LIST (xs @ [t])" for xs by simp
  show "\<exists>h. list_add_tail (Ptr (TASK_LIST t)) (Ptr FREEQUEUE) (links s) = Some h \<and> queues_are (s\<lparr>links := h\<rparr>) (F @ [t]) R B"
    using * [OF heads_in(1) m] by (simp only: queues_are_def queue_of_simps e queue_of_upd) simp
  show "\<exists>h. list_add_tail (Ptr (TASK_LIST t)) (Ptr READYQUEUE) (links s) = Some h \<and> queues_are (s\<lparr>links := h\<rparr>) F (R @ [t]) B"
    using * [OF heads_in(2) m] by (simp only: queues_are_def queue_of_simps e queue_of_upd) simp
  show "\<exists>h. list_add_tail (Ptr (TASK_LIST t)) (Ptr CONSOLE_BLOCKED) (links s) = Some h \<and> queues_are (s\<lparr>links := h\<rparr>) F R (B @ [t])"
    using * [OF heads_in(3) m] by (simp only: queues_are_def queue_of_simps e queue_of_upd) simp
qed

lemma add_free_ok:
  assumes "queues_are s F R B" "t \<notin> set F \<union> set R \<union> set B"
  shows "\<exists>h. list_add (Ptr (TASK_LIST t)) (Ptr FREEQUEUE) (links s) = Some h \<and> queues_are (s\<lparr>links := h\<rparr>) (t # F) R B"
proof -
  have m: "TASK_LIST t \<notin> lq.members QHEADS (queue_of F R B)" using assms(2) by (simp add: members_queue_of)
  have e: "TASK_LIST t # map TASK_LIST F = map TASK_LIST (t # F)" by simp
  show ?thesis
    using lq.queues_add [OF assms(1) [unfolded queues_are_def] heads_in(1) heads_in(4) m]
    by (simp only: queues_are_def queue_of_simps e queue_of_upd) simp
qed

lemma list_first_of_entry: "list_first_entry q h = Some e \<Longrightarrow> list_first (Ptr q) h = Some (Ptr e)"
  by (auto simp: list_first_entry_def split: option.splits ptr.splits)

lemma pop_free_ok:
  assumes "queues_are s (t # F) R B"
  shows "list_first (Ptr FREEQUEUE) (links s) = Some (Ptr (TASK_LIST t))"
    and "\<exists>h. list_del (Ptr (TASK_LIST t)) (links s) = Some h \<and> queues_are (s\<lparr>links := h\<rparr>) F R B"
    and "t \<notin> set F \<union> set R \<union> set B"
proof -
  note * = lq.queues_pop [OF assms [unfolded queues_are_def] heads_in(1), of "TASK_LIST t" "map TASK_LIST F"]
  then show "list_first (Ptr FREEQUEUE) (links s) = Some (Ptr (TASK_LIST t))"
    by (simp add: list_first_of_entry)
  from * show "\<exists>h. list_del (Ptr (TASK_LIST t)) (links s) = Some h \<and> queues_are (s\<lparr>links := h\<rparr>) F R B"
    by (simp add: queues_are_def)
  from * show "t \<notin> set F \<union> set R \<union> set B" by (simp add: members_queue_of)
qed

lemma pop_ready_ok:
  assumes "queues_are s F (t # R) B"
  shows "list_first (Ptr READYQUEUE) (links s) = Some (Ptr (TASK_LIST t))"
    and "\<exists>h. list_del (Ptr (TASK_LIST t)) (links s) = Some h \<and> queues_are (s\<lparr>links := h\<rparr>) F R B"
    and "t \<notin> set F \<union> set R \<union> set B"
proof -
  note * = lq.queues_pop [OF assms [unfolded queues_are_def] heads_in(2), of "TASK_LIST t" "map TASK_LIST R"]
  then show "list_first (Ptr READYQUEUE) (links s) = Some (Ptr (TASK_LIST t))"
    by (simp add: list_first_of_entry)
  from * show "\<exists>h. list_del (Ptr (TASK_LIST t)) (links s) = Some h \<and> queues_are (s\<lparr>links := h\<rparr>) F R B"
    by (simp add: queues_are_def)
  from * show "t \<notin> set F \<union> set R \<union> set B" by (simp add: members_queue_of)
qed

lemma del_blocked_ok:
  assumes "queues_are s F R (B1 @ t # B2)"
  shows "\<exists>h. list_del (Ptr (TASK_LIST t)) (links s) = Some h \<and> queues_are (s\<lparr>links := h\<rparr>) F R (B1 @ B2)"
proof -
  have "queue_of F R (B1 @ t # B2) CONSOLE_BLOCKED = map TASK_LIST B1 @ TASK_LIST t # map TASK_LIST B2" by simp
  from lq.queues_del [OF assms [unfolded queues_are_def] heads_in(3) this]
  show ?thesis by (simp add: queues_are_def flip: map_append)
qed

lemma free_empty_iff: "queues_are s F R B \<Longrightarrow> list_empty (Ptr FREEQUEUE) (links s) = Some (F = [])"
  using lq.queues_empty [of "links s" QHEADS "queue_of F R B" FREEQUEUE] by (simp add: queues_are_def)

lemma ready_empty_iff: "queues_are s F R B \<Longrightarrow> list_empty (Ptr READYQUEUE) (links s) = Some (R = [])"
  using lq.queues_empty [of "links s" QHEADS "queue_of F R B" READYQUEUE] by (simp add: queues_are_def)

section \<open>The contract of a policy\<close>

text \<open>The task the policy runs next: the first ready one, or the idle task.\<close>

definition next_task :: "nat list \<Rightarrow> nat \<Rightarrow> nat" where
  "next_task R i = (case R of [] \<Rightarrow> i | t # _ \<Rightarrow> t)"

text \<open>The running task has left the CPU's ready set: everything that can be next can be continued.\<close>

definition ready_to_switch :: "layout \<Rightarrow> kernel \<Rightarrow> nat \<Rightarrow> nat \<Rightarrow> nat list \<Rightarrow> nat list \<Rightarrow> nat list \<Rightarrow> bool" where
  "ready_to_switch L s c i F R B \<longleftrightarrow> queues_are s F R B \<and> idle_task s = Some i \<and> c < 10 \<and> i < 10
     \<and> set R \<subseteq> {..<10} \<and> stack_room L s c \<and> (\<forall>t\<in>insert i (set R). t = c \<or> resumable L s t)"

locale scheduling_policy =
  fixes L :: layout and P :: policy
  assumes next_law: "layout_ok L \<Longrightarrow> ready_to_switch L s c i F R B \<Longrightarrow>
      \<exists>r s' h q. sched_next P s = Some (r, s') \<and> queues_are s' F (tl R) B
        \<and> switched L (s\<lparr>links := h, CPU_QUANTUM := q\<rparr>) c (next_task R i) s'"
    and park_law: "layout_ok L \<Longrightarrow> current L s = Some c \<Longrightarrow> list_add_tail (Ptr (TASK_LIST c)) q (links s) = Some h \<Longrightarrow>
      update_current_state P q s = Some (s\<lparr>links := h\<rparr>)"
    and data_law: "\<exists>g. \<forall>s. update_sched_data P s = s\<lparr>CPU_QUANTUM := g (CPU_QUANTUM s)\<rparr>"
    and needs_law: "CPU_QUANTUM s' = CPU_QUANTUM s \<Longrightarrow> needs_sched P s' = needs_sched P s"

lemma on_links_eq [simp]: "on_links f s = map_option (\<lambda>h. s\<lparr>links := h\<rparr>) (f (links s))"
  by (cases "f (links s)") (simp_all add: on_links_def)

lemma stack_room_cong: "cpu s' = cpu s \<Longrightarrow> stack_room L s' c = stack_room L s c"
  by (simp add: stack_room_def)

lemma same_rest_sels:
  assumes "same_rest s s'"
  shows "links s' = links s" "idle_task s' = idle_task s" "init_task s' = init_task s"
    "CPU_QUANTUM s' = CPU_QUANTUM s" "PID_MAX s' = PID_MAX s" "phys_mem s' = phys_mem s"
    "dir_pages s' = dir_pages s" "pagusr_table s' = pagusr_table s" "mem s' = mem s"
    "zeos_ticks s' = zeos_ticks s" "scr s' = scr s" "tsc s' = tsc s"
proof -
  let ?t = "s'\<lparr>task := task s, cpu := cpu s, tsc_pos := tsc_pos s, cr3 := cr3 s, tss := tss s\<rparr>"
  have e: "?t = s" using assms by (simp add: same_rest_def)
  have "links ?t = links s'" "idle_task ?t = idle_task s'" "init_task ?t = init_task s'"
    "CPU_QUANTUM ?t = CPU_QUANTUM s'" "PID_MAX ?t = PID_MAX s'" "phys_mem ?t = phys_mem s'"
    "dir_pages ?t = dir_pages s'" "pagusr_table ?t = pagusr_table s'" "mem ?t = mem s'"
    "zeos_ticks ?t = zeos_ticks s'" "scr ?t = scr s'" "tsc ?t = tsc s'" by simp_all
  then show "links s' = links s" "idle_task s' = idle_task s" "init_task s' = init_task s"
    "CPU_QUANTUM s' = CPU_QUANTUM s" "PID_MAX s' = PID_MAX s" "phys_mem s' = phys_mem s"
    "dir_pages s' = dir_pages s" "pagusr_table s' = pagusr_table s" "mem s' = mem s"
    "zeos_ticks s' = zeos_ticks s" "scr s' = scr s" "tsc s' = tsc s" unfolding e by simp_all
qed

lemma sched_next_rr_ok:
  assumes L: "layout_ok L" and r: "ready_to_switch L s c i F R B"
  shows "\<exists>r s' h. sched_next_rr L s = Some (r, s') \<and> queues_are s' F (tl R) B
    \<and> switched L (s\<lparr>links := h, CPU_QUANTUM := if R = [] then CPU_QUANTUM s else quantum (task_of s (hd R))\<rparr>)
        c (next_task R i) s'"
proof (cases R)
  case Nil
  with r have "\<exists>r s'. task_switch L i s = Some (r, s') \<and> switched L s c i s'"
    by (intro task_switch_ok [OF L]) (auto simp: ready_to_switch_def)
  then obtain r' s' where s': "task_switch L i s = Some (r', s')" "switched L s c i s'" by blast
  then have "links s' = links s" using same_rest_sels(1) by (auto simp: switched_def)
  moreover have "s\<lparr>links := links s, CPU_QUANTUM := CPU_QUANTUM s\<rparr> = s" by simp
  ultimately show ?thesis
    using r s' Nil ready_empty_iff [of s F R B]
    by (intro exI [of _ r'] exI [of _ s'] exI [of _ "links s"])
      (auto simp: sched_next_rr_def ready_to_switch_def next_task_def queues_are_def)
next
  case (Cons t R')
  with r have q: "queues_are s F (t # R') B" by (simp add: ready_to_switch_def)
  obtain h where h: "list_del (Ptr (TASK_LIST t)) (links s) = Some h" "queues_are (s\<lparr>links := h\<rparr>) F R' B"
    using pop_ready_ok(2) [OF q] by blast
  let ?s = "s\<lparr>links := h, CPU_QUANTUM := quantum (task_of s t)\<rparr>"
  have "resumable L ?s t = resumable L s t" by (rule resumable_cong) simp
  with r Cons have "\<exists>r s'. task_switch L t ?s = Some (r, s') \<and> switched L ?s c t s'"
    by (intro task_switch_ok [OF L]) (auto simp: ready_to_switch_def stack_room_def)
  then obtain r' s' where s': "task_switch L t ?s = Some (r', s')" "switched L ?s c t s'" by blast
  then have "links s' = h" using same_rest_sels(1) [of ?s s'] by (auto simp: switched_def)
  then show ?thesis
    using s' h Cons ready_empty_iff [OF q] pop_ready_ok(1) [OF q]
    by (auto simp: sched_next_rr_def next_task_def queues_are_def)
qed

interpretation rr: scheduling_policy L "rr_policy L" for L
proof
  fix s c i F R B
  assume "layout_ok L" "ready_to_switch L s c i F R B"
  from sched_next_rr_ok [OF this]
  show "\<exists>r s' h q. sched_next (rr_policy L) s = Some (r, s') \<and> queues_are s' F (tl R) B
        \<and> switched L (s\<lparr>links := h, CPU_QUANTUM := q\<rparr>) c (next_task R i) s'"
    by (simp add: rr_policy_def) blast
next
  fix s c q h
  assume "current L s = Some c" "list_add_tail (Ptr (TASK_LIST c)) q (links s) = Some h"
  then show "update_current_state (rr_policy L) q s = Some (s\<lparr>links := h\<rparr>)"
    by (simp add: rr_policy_def update_current_state_rr_def)
next
  show "\<exists>g. \<forall>s. update_sched_data (rr_policy L) s = s\<lparr>CPU_QUANTUM := g (CPU_QUANTUM s)\<rparr>"
    by (intro exI [of _ "\<lambda>q. q - 1"]) (simp add: rr_policy_def update_sched_data_rr_def)
next
  fix s s' :: kernel
  assume "CPU_QUANTUM s' = CPU_QUANTUM s"
  then show "needs_sched (rr_policy L) s' = needs_sched (rr_policy L) s"
    by (simp add: rr_policy_def needs_sched_rr_def)
qed

end
