(* ===== verification/Kernel_Sys.thy ===== *)
theory Kernel_Sys
  imports Kernel_Policy
begin

text \<open>
  The system calls, \<^verbatim>\<open>sys.c\<close>: every handler from its entry accounting to its return value,
  over the kernel state.  A handler that switches to another task yields the point where
  that task continues.
\<close>

section \<open>Simple calls\<close>

definition LECTURA :: cint where [simp]: "LECTURA = 0"
definition ESCRIPTURA :: cint where [simp]: "ESCRIPTURA = 1"
definition MAX_WRITE :: cint where [simp]: "MAX_WRITE = 128"

definition check_fd :: "cint \<Rightarrow> cint \<Rightarrow> cint" where
  "check_fd fd permissions =
     (if fd \<noteq> 1 then - EBADF else if permissions \<noteq> ESCRIPTURA then - EACCES else 0)"

definition sys_ni_syscall :: cint where "sys_ni_syscall = - ENOSYS"

definition sys_gettime :: "layout \<Rightarrow> kernel \<Rightarrow> (cint \<times> kernel) option" where
  "sys_gettime L s =
     do { s \<leftarrow> act_ticks_user2kernel L s;
          s \<leftarrow> act_ticks_kernel2user L s;
          Some (zeos_ticks s, s) }"

definition sys_getpid :: "layout \<Rightarrow> kernel \<Rightarrow> (cint \<times> kernel) option" where
  "sys_getpid L s =
     do { s \<leftarrow> act_ticks_user2kernel L s;
          s \<leftarrow> act_ticks_kernel2user L s;
          c \<leftarrow> current L s;
          Some (PID (task_of s c), s) }"

definition ret_from_fork :: "layout \<Rightarrow> kernel \<Rightarrow> (cint \<times> kernel) option" where
  "ret_from_fork L s = do { s \<leftarrow> act_ticks_kernel2user L s; Some (0, s) }"

section \<open>sys\_write\<close>

text \<open>
  One chunk: \<^verbatim>\<open>copy_from_user(buffer + written, &buff2, n)\<close>, and the console write when it
  reports no error.  \<^verbatim>\<open>buff2\<close> is a buffer of \<open>n\<close> bytes of its own; the copy overwrites all of
  it before it is read, so its first contents (here zero) do not matter.
\<close>

definition write_chunk :: "layout \<Rightarrow> dword \<Rightarrow> cint \<Rightarrow> cint \<times> cint \<times> kernel \<Rightarrow> (cint \<times> cint \<times> kernel) option" where
  "write_chunk L buffer n = (\<lambda>(written, sz, s).
     do { (r, s, buff2) \<leftarrow> copy_from_user (uread L) (kwrite (unat n)) (buffer + written) 0 n (s, \<lambda>_. 0);
          if 0 \<le> sint r
          then let (w, d) = sys_write_console buff2 n (scr s)
               in Some (written + w, sz - w, s\<lparr>scr := d\<rparr>)
          else Some (written, sz, s) })"

partial_function (option) write_loop :: "layout \<Rightarrow> dword \<Rightarrow> cint \<times> cint \<times> kernel \<Rightarrow> (cint \<times> cint \<times> kernel) option" where
  "write_loop L buffer x =
     (if sint MAX_WRITE \<le> sint (fst (snd x))
      then Option.bind (write_chunk L buffer MAX_WRITE x) (write_loop L buffer)
      else Some x)"

text \<open>Control that reaches the end of the C function without \<^verbatim>\<open>return\<close> has no result here.\<close>

definition sys_write :: "layout \<Rightarrow> cint \<Rightarrow> dword \<Rightarrow> cint \<Rightarrow> kernel \<Rightarrow> (cint \<times> kernel) option" where
  "sys_write L fd buffer sz s =
     do { s \<leftarrow> act_ticks_user2kernel L s;
          if sint (check_fd fd 1) < 0
          then do { s \<leftarrow> act_ticks_kernel2user L s; Some (- EBADF, s) }
          else if buffer = 0
          then do { s \<leftarrow> act_ticks_kernel2user L s; Some (- EFAULT, s) }
          else if sint sz < 0
          then do { s \<leftarrow> act_ticks_kernel2user L s; Some (- EINVAL, s) }
          else do { (written, sz, s) \<leftarrow> write_loop L buffer (0, sz, s);
                    (written, sz, s) \<leftarrow> write_chunk L buffer sz (written, sz, s);
                    if sz = 0
                    then do { s \<leftarrow> act_ticks_kernel2user L s; Some (written, s) }
                    else None } }"

section \<open>sys\_fork\<close>

definition free_PCB :: "nat \<Rightarrow> kernel \<Rightarrow> kernel option" where
  "free_PCB t s = on_links (list_add (Ptr (TASK_LIST t)) (Ptr FREEQUEUE)) s"

text \<open>
  \<^verbatim>\<open>copy_data(parent, child, KERNEL_STACK_SIZE*4)\<close> copies the whole union, the structure with
  its anchor \<^verbatim>\<open>list\<close> and the stack.
\<close>

definition copy_task_union :: "nat \<Rightarrow> nat \<Rightarrow> kernel \<Rightarrow> kernel" where
  "copy_task_union parent child s =
     s\<lparr>task := (task s)(child := task s parent),
       links := (links s)(TASK_LIST child := links s (TASK_LIST parent))\<rparr>"

text \<open>
  The loop that fills \<^verbatim>\<open>child_frames\<close>: \<open>fs\<close> are the entries filled so far.  On failure the
  entries are freed from the last (the \<open>-1\<close> itself) to the first.
\<close>

fun fork_alloc :: "nat \<Rightarrow> cint list \<Rightarrow> kernel \<Rightarrow> cint list option \<times> kernel" where
  "fork_alloc 0 fs s = (Some fs, s)"
| "fork_alloc (Suc n) fs s =
     (let (f, s) = alloc_frame s; fs = fs @ [f]
      in if f = - 1 then (None, fold free_frame (rev fs) s) else fork_alloc n fs s)"

text \<open>The four page-table and memory loops of the copy.\<close>

definition fork_code_page :: "layout \<Rightarrow> dword \<Rightarrow> dword \<Rightarrow> nat \<Rightarrow> kernel \<Rightarrow> kernel option" where
  "fork_code_page L parent_page child_page i s =
     do { parent_frame \<leftarrow> get_frame L parent_page (of_nat (i + NUM_PAG_KERNEL)) s;
          set_ss_pag L child_page (of_nat (i + NUM_PAG_KERNEL)) parent_frame s }"

definition fork_data_page :: "layout \<Rightarrow> dword \<Rightarrow> dword \<Rightarrow> cint list \<Rightarrow> nat \<Rightarrow> kernel \<Rightarrow> kernel option" where
  "fork_data_page L parent_page child_page child_frames i s =
     do { let child_frame = child_frames ! (i - NUM_PAG_KERNEL);
          s \<leftarrow> set_ss_pag L parent_page (of_nat (i + (NUM_PAG_CODE + NUM_PAG_DATA))) child_frame s;
          set_ss_pag L child_page (of_nat (i + NUM_PAG_CODE)) child_frame s }"

definition fork_unmap_page :: "layout \<Rightarrow> dword \<Rightarrow> nat \<Rightarrow> kernel \<Rightarrow> kernel option" where
  "fork_unmap_page L parent_page i s =
     del_ss_pag L parent_page (of_nat (i + (NUM_PAG_CODE + NUM_PAG_DATA))) s"

text \<open>The child's return path: step (5) and the saved stack pointer.\<close>

definition fork_child_stack :: "layout \<Rightarrow> nat \<Rightarrow> nat \<Rightarrow> kernel \<Rightarrow> kernel option" where
  "fork_child_stack L parent child s =
     do { let pos_act = (ebp (cpu s) - task_addr L parent) div 4;
          s \<leftarrow> set_stack_word child (unat pos_act) (ret_from_fork_addr L) s;
          s \<leftarrow> set_stack_word child (unat (pos_act - 1)) 0 s;
          Some (upd_pcb child (\<lambda>p. p\<lparr>kernel_esp := task_addr L child + 4 * (pos_act - 1)\<rparr>) s) }"

text \<open>Steps (6), (4) and (5) and the insertion in the ready queue, up to the return.\<close>

definition fork_finish :: "layout \<Rightarrow> nat \<Rightarrow> nat \<Rightarrow> kernel \<Rightarrow> (cint \<times> kernel) option" where
  "fork_finish L parent child s =
     do { let s = set_cr3 (get_DIR parent s) s;
          let pid = PID_MAX s + 1;
          let s = upd_pcb child (\<lambda>p. p\<lparr>PID := pid\<rparr>) s;
          let s = s\<lparr>PID_MAX := pid\<rparr>;
          s \<leftarrow> fork_child_stack L parent child s;
          s \<leftarrow> set_ini_stats child s;
          s \<leftarrow> on_links (list_add_tail (Ptr (TASK_LIST child)) (Ptr READYQUEUE)) s;
          s \<leftarrow> act_ticks_kernel2user L s;
          Some (pid, s) }"

definition sys_fork :: "layout \<Rightarrow> kernel \<Rightarrow> (cint \<times> kernel) option" where
  "sys_fork L s =
     do { s \<leftarrow> act_ticks_user2kernel L s;
          e \<leftarrow> list_empty (Ptr FREEQUEUE) (links s);
          if e then do { s \<leftarrow> act_ticks_kernel2user L s; Some (- EAGAIN, s) }
          else do {
            l \<leftarrow> list_first (Ptr FREEQUEUE) (links s);
            s \<leftarrow> on_links (list_del l) s;
            child \<leftarrow> list_head_to_task_struct l;
            parent \<leftarrow> current L s;
            let s = copy_task_union parent child s;
            parent_page \<leftarrow> get_PT L parent s;
            let (allocDir_ret, s) = allocate_DIR L child s;
            if allocDir_ret \<noteq> 1
            then do { s \<leftarrow> free_PCB child s; s \<leftarrow> act_ticks_kernel2user L s; Some (- ENOMEM, s) }
            else do {
              child_page \<leftarrow> get_PT L child s;
              s \<leftarrow> mfold (fork_code_page L parent_page child_page) [0..<NUM_PAG_CODE] s;
              let (r, s) = fork_alloc NUM_PAG_DATA [] s;
              case r of
                None \<Rightarrow> do { s \<leftarrow> free_PCB child s; s \<leftarrow> act_ticks_kernel2user L s; Some (- ENOMEM, s) }
              | Some child_frames \<Rightarrow> do {
                  s \<leftarrow> mfold (fork_data_page L parent_page child_page child_frames)
                         [NUM_PAG_KERNEL..<NUM_PAG_DATA + NUM_PAG_KERNEL] s;
                  let dir_ini = L_USER_START + of_nat (NUM_PAG_CODE * PAGE_SIZE);
                  let dir_dest = L_USER_START + of_nat ((NUM_PAG_CODE + NUM_PAG_DATA) * PAGE_SIZE);
                  s \<leftarrow> copy_data (vread L) (vwrite L) dir_ini dir_dest (of_nat (NUM_PAG_DATA * PAGE_SIZE)) s;
                  s \<leftarrow> mfold (fork_unmap_page L parent_page)
                         [NUM_PAG_KERNEL..<NUM_PAG_DATA + NUM_PAG_KERNEL] s;
                  fork_finish L parent child s } } } }"

section \<open>sys\_exit\<close>

definition exit_free_page :: "layout \<Rightarrow> dword \<Rightarrow> nat \<Rightarrow> kernel \<Rightarrow> kernel option" where
  "exit_free_page L act_pag i s =
     do { frame_act \<leftarrow> get_frame L act_pag (of_nat (NUM_PAG_KERNEL + NUM_PAG_CODE + i)) s;
          Some (free_frame frame_act s) }"

definition sys_exit :: "layout \<Rightarrow> policy \<Rightarrow> kernel \<Rightarrow> (resumed \<times> kernel) option" where
  "sys_exit L P s =
     do { s \<leftarrow> act_ticks_user2kernel L s;
          act \<leftarrow> current L s;
          act_pag \<leftarrow> get_PT L act s;
          s \<leftarrow> mfold (exit_free_page L act_pag) [0..<NUM_PAG_DATA] s;
          let s = upd_pcb act (\<lambda>p. p\<lparr>PID := - 1\<rparr>) s;
          s \<leftarrow> update_current_state P (Ptr FREEQUEUE) s;
          sched_next P s }"

section \<open>sys\_get\_stats and sys\_read\<close>

definition sys_get_stats :: "layout \<Rightarrow> cint \<Rightarrow> dword \<Rightarrow> kernel \<Rightarrow> (cint \<times> kernel) option" where
  "sys_get_stats L pid st s =
     do { s \<leftarrow> act_ticks_user2kernel L s;
          if sint pid < 0 then do { s \<leftarrow> act_ticks_kernel2user L s; Some (- EINVAL, s) }
          else if st = 0 \<or> st < L_USER_START
              \<or> st > L_USER_START + of_nat ((NUM_PAG_DATA + NUM_PAG_CODE) * PAGE_SIZE)
          then do { s \<leftarrow> act_ticks_kernel2user L s; Some (- EFAULT, s) }
          else do {
            c \<leftarrow> current L s;
            if PID (task_of s c) = pid
            then do { s \<leftarrow> act_ticks_kernel2user L s;
                      (_, s) \<leftarrow> copy_stats_to_user L c st s;
                      Some (0, s) }
            else do { (err, s) \<leftarrow> getStatPID L pid st s;
                      if err = - 1
                      then do { s \<leftarrow> act_ticks_kernel2user L s; Some (- ESRCH, s) }
                      else do { s \<leftarrow> act_ticks_kernel2user L s; Some (0, s) } } } }"

text \<open>
  \<^verbatim>\<open>sys_read\<close> is code of the binary library; \<^verbatim>\<open>sys_read_cutre\<close> brackets it with the
  accounting and has no \<^verbatim>\<open>return\<close>, so only its effect on the state is modelled.
\<close>

definition sys_read_cutre :: "layout \<Rightarrow> (cint \<Rightarrow> dword \<Rightarrow> cint \<Rightarrow> kernel \<Rightarrow> kernel option)
    \<Rightarrow> cint \<Rightarrow> dword \<Rightarrow> cint \<Rightarrow> kernel \<Rightarrow> kernel option" where
  "sys_read_cutre L sys_read fd buf nbytes s =
     do { s \<leftarrow> act_ticks_user2kernel L s;
          s \<leftarrow> sys_read fd buf nbytes s;
          act_ticks_kernel2user L s }"

end
