(* ===== verification/Kernel_Memory.thy ===== *)
theory Kernel_Memory
  imports Kernel_Sys
begin

text \<open>
  Address spaces and frame ownership.  \<open>mm_inv L s A\<close> is the memory invariant for a set \<open>A\<close>
  of live processes: each has the shared code frames and twenty data frames of its own, no
  two pages share a data frame, and the allocator's free frames are exactly the others.
  The lemmas give the closed form of the loops of \<^verbatim>\<open>sys_fork\<close> and \<^verbatim>\<open>sys_exit\<close>.
\<close>

section \<open>The invariant\<close>

definition code_frame :: "nat \<Rightarrow> nat" where "code_frame k = 256 + 2 * k"

definition code_frames :: "nat set" where "code_frames = code_frame ` {..<8}"

definition data_frame :: "kernel \<Rightarrow> nat \<Rightarrow> nat \<Rightarrow> nat" where
  "data_frame s t k = unat (pbase_addr (pagusr_table s t (264 + k)))"

definition frames_of :: "kernel \<Rightarrow> nat \<Rightarrow> nat set" where
  "frames_of s t = data_frame s t ` {..<20}"

text \<open>The pages of one process: code, and data with the stack.\<close>

definition aspace :: "layout \<Rightarrow> kernel \<Rightarrow> nat \<Rightarrow> bool" where
  "aspace L s t \<longleftrightarrow> dir_pages_baseAddr (task_of s t) = dir_addr L t
     \<and> (\<forall>k<8. pte_present (pagusr_table s t (256 + k)) \<and> pte_user (pagusr_table s t (256 + k))
          \<and> pbase_addr (pagusr_table s t (256 + k)) = of_nat (code_frame k))
     \<and> (\<forall>k<20. pagusr_table s t (264 + k) = user_pte (of_nat (data_frame s t k))
          \<and> data_frame s t k \<in> set user_frames - code_frames)"

definition mm_inv :: "layout \<Rightarrow> kernel \<Rightarrow> nat set \<Rightarrow> bool" where
  "mm_inv L s A \<longleftrightarrow> dirs_ok L s \<and> A \<subseteq> {..<10} \<and> (\<forall>t\<in>A. aspace L s t)
     \<and> inj_on (\<lambda>(t, k). data_frame s t k) (A \<times> {..<20})
     \<and> free_frames s = set user_frames - code_frames - (\<Union>t\<in>A. frames_of s t)
     \<and> (\<forall>t<10. \<forall>p. 284 \<le> p \<longrightarrow> p < 1024 \<longrightarrow> pagusr_table s t p = 0)
     \<and> (\<forall>t<10. \<forall>p<256. \<not> pte_user (pagusr_table s t p))"

text \<open>The byte at offset \<open>n\<close> of the data of a process, and the physical address that holds it.\<close>

definition data_loc :: "(nat \<Rightarrow> nat) \<Rightarrow> nat \<Rightarrow> dword" where
  "data_loc fr n = of_nat (4096 * fr (n div 4096) + n mod 4096)"

definition user_data :: "kernel \<Rightarrow> nat \<Rightarrow> nat \<Rightarrow> byte" where
  "user_data s t n = mem s (data_loc (data_frame s t) n)"

lemma mm_invD:
  assumes "mm_inv L s A"
  shows "dirs_ok L s" "A \<subseteq> {..<10}" "t \<in> A \<Longrightarrow> aspace L s t" "t \<in> A \<Longrightarrow> t < 10"
    "inj_on (\<lambda>(t, k). data_frame s t k) (A \<times> {..<20})"
    "free_frames s = set user_frames - code_frames - (\<Union>t\<in>A. frames_of s t)"
    "t < 10 \<Longrightarrow> 284 \<le> p \<Longrightarrow> p < 1024 \<Longrightarrow> pagusr_table s t p = 0"
    "t < 10 \<Longrightarrow> p < 256 \<Longrightarrow> \<not> pte_user (pagusr_table s t p)"
  using assms by (auto simp: mm_inv_def)

lemma data_frame_bounds: "aspace L s t \<Longrightarrow> k < 20 \<Longrightarrow> 272 \<le> data_frame s t k \<and> data_frame s t k < 1024"
proof -
  assume "aspace L s t" "k < 20"
  then have "data_frame s t k \<in> set user_frames - code_frames" by (simp add: aspace_def)
  then obtain m where "data_frame s t k = 256 + 2 * m" "m < 384" "m \<notin> {..<8}"
    by (fastforce simp: user_frames_def code_frames_def code_frame_def)
  then show ?thesis by simp
qed

lemma frame_lt [simp]: "f < 1024 \<Longrightarrow> (of_nat f :: dword) < 0x100000"
proof -
  assume "f < 1024"
  then have "unat (of_nat f :: dword) = f" by (simp add: unat_of_nat32)
  then show ?thesis using \<open>f < 1024\<close> by (simp add: word_less_nat_alt)
qed

lemma pbase_user_pte_frame [simp]: "f < 1024 \<Longrightarrow> unat (pbase_addr (user_pte (of_nat f))) = f"
  by (simp add: unat_of_nat32)

lemma data_page: "aspace L s t \<Longrightarrow> k < 20 \<Longrightarrow>
    pagusr_table s t (264 + k) = user_pte (of_nat (data_frame s t k))
    \<and> pbase_addr (pagusr_table s t (264 + k)) = of_nat (data_frame s t k)"
  using data_frame_bounds [of L s t k] by (simp add: aspace_def)

lemma frames_of_card: "mm_inv L s A \<Longrightarrow> card (\<Union>t\<in>A. frames_of s t) = 20 * card A"
proof -
  assume m: "mm_inv L s A"
  have "(\<Union>t\<in>A. frames_of s t) = (\<lambda>(t, k). data_frame s t k) ` (A \<times> {..<20})"
    by (auto simp: frames_of_def)
  then show ?thesis using card_image [OF mm_invD(5) [OF m]] by (simp add: card_cartesian_product)
qed

lemma card_user_frames: "card (set user_frames) = 384"
proof -
  have "set user_frames = (\<lambda>k. 256 + 2 * k) ` {..<384}" by (auto simp: user_frames_def)
  then show ?thesis by (simp add: card_image inj_on_def)
qed

lemma frames_of_sub: "mm_inv L s A \<Longrightarrow> (\<Union>t\<in>A. frames_of s t) \<subseteq> set user_frames - code_frames"
  by (auto simp: frames_of_def mm_inv_def aspace_def)

text \<open>Conservation of frames: the free ones are those no code page and no process holds.\<close>

lemma free_frames_card:
  assumes m: "mm_inv L s A"
  shows "card (free_frames s) = 376 - 20 * card A"
proof -
  have c: "code_frames \<subseteq> set user_frames" "card code_frames = 8"
    by (auto simp: code_frames_def code_frame_def user_frames_def card_image inj_on_def)
  have "finite A" using mm_invD(2) [OF m] finite_subset by blast
  then have "card (free_frames s) = card (set user_frames - code_frames) - card (\<Union>t\<in>A. frames_of s t)"
    unfolding mm_invD(6) [OF m] by (intro card_Diff_subset frames_of_sub [OF m]) (simp add: frames_of_def)
  moreover have "card (set user_frames - code_frames) = 376"
    using c card_user_frames by (simp add: card_Diff_subset finite_subset)
  ultimately show ?thesis using frames_of_card [OF m] by simp
qed

text \<open>What the invariant depends on.\<close>

lemma aspace_cong:
  "pagusr_table s' t = pagusr_table s t \<Longrightarrow> dir_pages_baseAddr (task_of s' t) = dir_pages_baseAddr (task_of s t)
    \<Longrightarrow> aspace L s' t = aspace L s t"
  by (simp add: aspace_def data_frame_def)

lemma mm_inv_cong:
  assumes "pagusr_table s' = pagusr_table s" "dir_pages s' = dir_pages s" "phys_mem s' = phys_mem s"
    "\<And>t. t \<in> A \<Longrightarrow> dir_pages_baseAddr (task_of s' t) = dir_pages_baseAddr (task_of s t)"
  shows "mm_inv L s' A = mm_inv L s A"
proof -
  have "data_frame s' = data_frame s" using assms by (simp add: data_frame_def fun_eq_iff)
  moreover have "(\<forall>t\<in>A. aspace L s' t) = (\<forall>t\<in>A. aspace L s t)"
    using assms aspace_cong [of s' _ s L] by (intro ball_cong) simp_all
  ultimately show ?thesis using assms
    by (simp add: mm_inv_def dirs_ok_def free_frames_def frames_of_def)
qed

section \<open>Closed forms of page-table loops\<close>

text \<open>Entries \<open>a, \<dots>, b - 1\<close> of row \<open>t\<close> replaced by \<open>g\<close>.\<close>

definition set_row :: "nat \<Rightarrow> nat \<Rightarrow> nat \<Rightarrow> (nat \<Rightarrow> dword) \<Rightarrow> (nat \<Rightarrow> nat \<Rightarrow> dword) \<Rightarrow> nat \<Rightarrow> nat \<Rightarrow> dword" where
  "set_row t a b g pt = pt(t := (\<lambda>p. if a \<le> p \<and> p < b then g p else pt t p))"

lemma set_row_empty [simp]: "set_row t a a g pt = pt"
  by (auto simp: set_row_def fun_eq_iff)

lemma set_row_Suc: "a \<le> b \<Longrightarrow> (set_row t a b g pt)(t := (set_row t a b g pt t)(b := g b)) = set_row t a (Suc b) g pt"
  by (auto simp: set_row_def fun_eq_iff)

lemma set_row_apply:
  "set_row t a b g pt t' p = (if t' = t \<and> a \<le> p \<and> p < b then g p else pt t' p)"
  by (simp add: set_row_def)

lemma upd_pt_const: "upd_pt t p (\<lambda>_. v) s = s\<lparr>pagusr_table := (pagusr_table s)(t := (pagusr_table s t)(p := v))\<rparr>"
  by (simp add: upd_pt_def)

lemma fork_code_pages:
  assumes "par < 10" "ch < 10" "par \<noteq> ch"
  shows "mfold (fork_code_page L (pt_addr L par) (pt_addr L ch)) [0..<8] s
    = Some (s\<lparr>pagusr_table := set_row ch 256 264 (\<lambda>p. user_pte (pbase_addr (pagusr_table s par p))) (pagusr_table s)\<rparr>)"
proof -
  let ?g = "\<lambda>p. user_pte (pbase_addr (pagusr_table s par p))"
  have "\<exists>s'. mfold (fork_code_page L (pt_addr L par) (pt_addr L ch)) [0..<8] s = Some s'
     \<and> s' = s\<lparr>pagusr_table := set_row ch 256 (256 + 8) ?g (pagusr_table s)\<rparr>"
  proof (rule mfold_upt_rule [where I = "\<lambda>k s'. s' = s\<lparr>pagusr_table := set_row ch 256 (256 + k) ?g (pagusr_table s)\<rparr>"])
    fix k s' assume k: "k < (8 :: nat)" and s': "s' = s\<lparr>pagusr_table := set_row ch 256 (256 + k) ?g (pagusr_table s)\<rparr>"
    have "get_frame L (pt_addr L par) (of_nat (k + 256)) s' = Some (pbase_addr (pagusr_table s par (k + 256)))"
      using assms k by (subst get_frame_at) (auto simp: s' set_row_apply)
    moreover have "set_ss_pag L (pt_addr L ch) (of_nat (k + 256)) f s' = Some (upd_pt ch (k + 256) (\<lambda>_. user_pte f) s')" for f
      using assms k by (intro set_ss_pag_at) auto
    moreover have "upd_pt ch (k + 256) (\<lambda>_. ?g (k + 256)) s' = s\<lparr>pagusr_table := set_row ch 256 (256 + Suc k) ?g (pagusr_table s)\<rparr>"
      using set_row_Suc [of 256 "256 + k" ch ?g "pagusr_table s"] by (simp add: upd_pt_const s' add.commute)
    ultimately show "\<exists>s''. fork_code_page L (pt_addr L par) (pt_addr L ch) k s' = Some s''
        \<and> s'' = s\<lparr>pagusr_table := set_row ch 256 (256 + Suc k) ?g (pagusr_table s)\<rparr>"
      by (simp add: fork_code_page_def)
  qed simp_all
  then show ?thesis by simp
qed

lemma fork_data_pages:
  assumes "par < 10" "ch < 10" "par \<noteq> ch"
  shows "mfold (fork_data_page L (pt_addr L par) (pt_addr L ch) fs) [256..<276] s
    = Some (s\<lparr>pagusr_table := set_row ch 264 284 (\<lambda>p. user_pte (fs ! (p - 264)))
        (set_row par 284 304 (\<lambda>p. user_pte (fs ! (p - 284))) (pagusr_table s))\<rparr>)"
proof -
  let ?h = "\<lambda>p. user_pte (fs ! (p - 264))" and ?g = "\<lambda>p. user_pte (fs ! (p - 284))"
  let ?pt = "\<lambda>k. set_row ch 264 (k + 8) ?h (set_row par 284 (k + 28) ?g (pagusr_table s))"
  have "\<exists>s'. mfold (fork_data_page L (pt_addr L par) (pt_addr L ch) fs) [256..<276] s = Some s'
     \<and> s' = s\<lparr>pagusr_table := ?pt 276\<rparr>"
  proof (rule mfold_upt_rule [where I = "\<lambda>k s'. s' = s\<lparr>pagusr_table := ?pt k\<rparr>"])
    fix k s' assume k: "256 \<le> k" "k < (276 :: nat)" and s': "s' = s\<lparr>pagusr_table := ?pt k\<rparr>"
    let ?f = "fs ! (k - 256)"
    have "set_ss_pag L (pt_addr L par) (of_nat (k + 28)) ?f s' = Some (upd_pt par (k + 28) (\<lambda>_. user_pte ?f) s')"
      using assms k by (intro set_ss_pag_at) auto
    moreover have "set_ss_pag L (pt_addr L ch) (of_nat (k + 8)) ?f s'' = Some (upd_pt ch (k + 8) (\<lambda>_. user_pte ?f) s'')" for s''
      using assms k by (intro set_ss_pag_at) auto
    moreover have "upd_pt ch (k + 8) (\<lambda>_. user_pte ?f) (upd_pt par (k + 28) (\<lambda>_. user_pte ?f) s') = s\<lparr>pagusr_table := ?pt (Suc k)\<rparr>"
      using k assms by (auto simp: upd_pt_const s' set_row_def fun_eq_iff less_Suc_eq)
    ultimately show "\<exists>s''. fork_data_page L (pt_addr L par) (pt_addr L ch) fs k s' = Some s''
        \<and> s'' = s\<lparr>pagusr_table := ?pt (Suc k)\<rparr>"
      by (simp add: fork_data_page_def)
  qed simp_all
  then show ?thesis by simp
qed

lemma fork_unmap_pages:
  assumes "par < 10"
  shows "mfold (fork_unmap_page L (pt_addr L par)) [256..<276] s
    = Some (s\<lparr>pagusr_table := set_row par 284 304 (\<lambda>_. 0) (pagusr_table s)\<rparr>)"
proof -
  let ?pt = "\<lambda>k. set_row par 284 (k + 28) (\<lambda>_. 0) (pagusr_table s)"
  have "\<exists>s'. mfold (fork_unmap_page L (pt_addr L par)) [256..<276] s = Some s' \<and> s' = s\<lparr>pagusr_table := ?pt 276\<rparr>"
  proof (rule mfold_upt_rule [where I = "\<lambda>k s'. s' = s\<lparr>pagusr_table := ?pt k\<rparr>"])
    fix k s' assume k: "256 \<le> k" "k < (276 :: nat)" and s': "s' = s\<lparr>pagusr_table := ?pt k\<rparr>"
    have "del_ss_pag L (pt_addr L par) (of_nat (k + 28)) s' = Some (upd_pt par (k + 28) (\<lambda>_. 0) s')"
      using assms k by (intro del_ss_pag_at) auto
    moreover have "upd_pt par (k + 28) (\<lambda>_. 0) s' = s\<lparr>pagusr_table := ?pt (Suc k)\<rparr>"
      using k set_row_Suc [of 284 "k + 28" par "\<lambda>_. 0" "pagusr_table s"] by (simp add: upd_pt_const s')
    ultimately show "\<exists>s''. fork_unmap_page L (pt_addr L par) k s' = Some s'' \<and> s'' = s\<lparr>pagusr_table := ?pt (Suc k)\<rparr>"
      by (simp add: fork_unmap_page_def)
  qed simp_all
  then show ?thesis by simp
qed

section \<open>Allocating and freeing the frames of a process\<close>

definition mark :: "byte \<Rightarrow> nat set \<Rightarrow> kernel \<Rightarrow> kernel" where
  "mark v F s = s\<lparr>phys_mem := (\<lambda>f. if f \<in> F then v else phys_mem s f)\<rparr>"

lemma mark_sels [simp]:
  "phys_mem (mark v F s) f = (if f \<in> F then v else phys_mem s f)"
  "pagusr_table (mark v F s) = pagusr_table s" "dir_pages (mark v F s) = dir_pages s"
  "task (mark v F s) = task s" "links (mark v F s) = links s" "mem (mark v F s) = mem s"
  "cr3 (mark v F s) = cr3 s" "cpu (mark v F s) = cpu s" "idle_task (mark v F s) = idle_task s"
  "init_task (mark v F s) = init_task s" "CPU_QUANTUM (mark v F s) = CPU_QUANTUM s" "act_t (mark v F s) = act_t s"
  "PID_MAX (mark v F s) = PID_MAX s" "zeos_ticks (mark v F s) = zeos_ticks s" "tss (mark v F s) = tss s"
  "gdt (mark v F s) = gdt s" "gdtR (mark v F s) = gdtR s" "idt (mark v F s) = idt s" "idtR (mark v F s) = idtR s"
  "gdt_reg (mark v F s) = gdt_reg s" "idt_reg (mark v F s) = idt_reg s" "task_reg (mark v F s) = task_reg s"
  "cr0 (mark v F s) = cr0 s" "tsc (mark v F s) = tsc s" "tsc_pos (mark v F s) = tsc_pos s" "scr (mark v F s) = scr s"
  "kernel.more (mark v F s) = kernel.more s"
  by (simp_all add: mark_def)

lemma mark_empty [simp]: "mark v {} s = s"
  by (simp add: mark_def)

lemma mark_mark [simp]: "mark v F (mark v G s) = mark v (F \<union> G) s"
  by (auto simp: mark_def fun_eq_iff)

lemma phys_mem_mark: "s\<lparr>phys_mem := (phys_mem s)(f := v)\<rparr> = mark v {f} s"
  by (auto simp: mark_def fun_eq_iff)

lemma free_frames_mark_used: "free_frames (mark 1 F s) = free_frames s - F"
  by (auto simp: free_frames_def)

lemma free_frames_mark_free: "F \<subseteq> set user_frames \<Longrightarrow> free_frames (mark 0 F s) = free_frames s \<union> F"
  by (auto simp: free_frames_def)

lemma unat_minus1 [simp]: "unat (- 1 :: dword) = 4294967295"
  by (simp add: unsigned_minus_1_eq_mask mask_eq_exp_minus_1)

lemma of_nat_frame_not_minus1: "f < 1024 \<Longrightarrow> (of_nat f :: cint) \<noteq> - 1"
proof -
  assume f: "f < 1024"
  then have "unat (of_nat f :: cint) = f" by (intro unat_of_nat32) simp
  with f have "unat (of_nat f :: cint) \<noteq> unat (- 1 :: cint)" by simp
  then show ?thesis by metis
qed

lemma fork_alloc_ok:
  assumes "n \<le> card (free_frames s)"
  shows "\<exists>ns. fork_alloc n fs s = (Some (fs @ map of_nat ns), mark USED_FRAME (set ns) s)
    \<and> length ns = n \<and> distinct ns \<and> set ns \<subseteq> free_frames s"
  using assms
proof (induction n arbitrary: fs s)
  case (Suc n)
  then have "free_frames s \<noteq> {}" by auto
  then obtain f where f: "f \<in> free_frames s"
    "alloc_frame s = (of_nat f, s\<lparr>phys_mem := (phys_mem s)(f := USED_FRAME)\<rparr>)"
    by (rule alloc_frame_ok)
  let ?s = "mark USED_FRAME {f} s"
  have "(of_nat f :: cint) \<noteq> - 1"
    using f user_frames_bounds [of f] by (intro of_nat_frame_not_minus1) (auto simp: free_frames_def)
  then have step: "fork_alloc (Suc n) fs s = fork_alloc n (fs @ [of_nat f]) ?s"
    using f by (simp add: phys_mem_mark)
  have "n \<le> card (free_frames ?s)"
    using Suc.prems f by (simp add: free_frames_mark_used)
  from Suc.IH [OF this, of "fs @ [of_nat f]"] obtain ns where ns: "length ns = n" "distinct ns" "set ns \<subseteq> free_frames s - {f}"
    "fork_alloc n (fs @ [of_nat f]) ?s = (Some (fs @ map of_nat (f # ns)), mark USED_FRAME (set (f # ns)) s)"
    by (auto simp: free_frames_mark_used)
  then show ?case using step f by (intro exI [of _ "f # ns"]) auto
qed simp

lemma free_frame_minus1: "free_frame (- 1) s = s"
  by (rule free_frame_ignored) simp

lemma fold_free_frame:
  assumes "set ns \<subseteq> set user_frames - {256}"
  shows "fold free_frame (map of_nat ns) s = mark FREE_FRAME (set ns) s"
  using assms
proof (induction ns arbitrary: s)
  case (Cons f ns)
  then have "256 < f" "f < 1024" using user_frames_bounds [of f] by auto
  with Cons show ?case by (simp add: free_frame_at phys_mem_mark)
qed simp

text \<open>A failed allocation undoes itself, unless it had taken frame 256.\<close>

lemma fork_alloc_fail:
  assumes "card (free_frames s) < n" "256 \<notin> free_frames s"
    and "set ns \<subseteq> set user_frames - {256}" "s = mark USED_FRAME (set ns) s0" "\<forall>f\<in>set ns. phys_mem s0 f = FREE_FRAME"
  shows "fork_alloc n (map of_nat ns) s = (None, s0)"
  using assms
proof (induction n arbitrary: ns s)
  case (Suc n)
  show ?case
  proof (cases "free_frames s = {}")
    case True
    have "mark FREE_FRAME (set ns) (mark USED_FRAME (set ns) s0) = s0"
      using Suc.prems(5) by (simp add: mark_def fun_eq_iff)
    moreover have "fold free_frame (rev (map of_nat ns)) s = mark FREE_FRAME (set ns) s" for s
      using fold_free_frame [of "rev ns" s] Suc.prems(3) by (simp add: rev_map)
    ultimately show ?thesis using True Suc.prems(4) by (simp add: alloc_frame_none free_frame_minus1)
  next
    case False
    then obtain f where f: "f \<in> free_frames s"
      "alloc_frame s = (of_nat f, s\<lparr>phys_mem := (phys_mem s)(f := USED_FRAME)\<rparr>)"
      by (rule alloc_frame_ok)
    have fu: "f \<in> set user_frames - {256}" using f Suc.prems(2) by (auto simp: free_frames_def)
    have nf: "f \<notin> set ns" "phys_mem s0 f = FREE_FRAME"
      using f Suc.prems(4) by (auto simp: free_frames_def split: if_splits)
    let ?s = "mark USED_FRAME {f} s"
    have "(of_nat f :: cint) \<noteq> - 1"
      using fu user_frames_bounds [of f] by (intro of_nat_frame_not_minus1) auto
    then have step: "fork_alloc (Suc n) (map of_nat ns) s = fork_alloc n (map of_nat (ns @ [f])) ?s"
      using f by (simp add: phys_mem_mark)
    have "0 < card (free_frames s)" using f by (auto simp: card_gt_0_iff)
    then have "card (free_frames ?s) < n"
      using Suc.prems(1) f by (simp add: free_frames_mark_used)
    moreover have "256 \<notin> free_frames ?s" using Suc.prems(2) by (simp add: free_frames_mark_used)
    moreover have "?s = mark USED_FRAME (set (ns @ [f])) s0" using Suc.prems(4) by simp
    ultimately show ?thesis unfolding step using Suc.prems(3,5) fu nf by (intro Suc.IH) auto
  qed
qed simp

lemma exit_free_pages:
  assumes t: "t < 10" and a: "aspace L s t"
  shows "mfold (exit_free_page L (pt_addr L t)) [0..<20] s = Some (mark FREE_FRAME (frames_of s t) s)"
proof -
  have "\<exists>s'. mfold (exit_free_page L (pt_addr L t)) [0..<20] s = Some s'
     \<and> s' = mark FREE_FRAME (data_frame s t ` {..<20}) s"
  proof (rule mfold_upt_rule [where I = "\<lambda>k s'. s' = mark FREE_FRAME (data_frame s t ` {..<k}) s"])
    fix k s' assume k: "k < (20 :: nat)" and s': "s' = mark FREE_FRAME (data_frame s t ` {..<k}) s"
    have "get_frame L (pt_addr L t) (of_nat (264 + k)) s' = Some (of_nat (data_frame s t k))"
      using t k data_page [OF a k] by (subst get_frame_at) (auto simp: s')
    moreover have "free_frame (of_nat (data_frame s t k)) s' = mark FREE_FRAME (data_frame s t ` {..<Suc k}) s"
      using data_frame_bounds [OF a k] by (simp add: free_frame_at phys_mem_mark s' lessThan_Suc)
    ultimately show "\<exists>s''. exit_free_page L (pt_addr L t) k s' = Some s'' \<and> s'' = mark FREE_FRAME (data_frame s t ` {..<Suc k}) s"
      by (simp add: exit_free_page_def)
  qed simp_all
  then show ?thesis by (simp add: frames_of_def)
qed

section \<open>Copying the data of the parent\<close>

lemma put_all_mem:
  "put_all (\<lambda>pa v s. s\<lparr>mem := (mem s)(pa := v)\<rparr>) ls vs s
     = s\<lparr>mem := fold (\<lambda>(l, v) m. m(l := v)) (zip ls vs) (mem s)\<rparr>"
proof (induction ls arbitrary: vs s)
  case (Cons l ls)
  then show ?case by (cases vs) (simp_all add: put_all_def)
qed simp

lemma unat_data_loc: "fr (n div 4096) < 1024 \<Longrightarrow> unat (data_loc fr n) = 4096 * fr (n div 4096) + n mod 4096"
  unfolding data_loc_def by (rule unat_va) simp_all

lemma data_loc_eqD:
  assumes "fr (n div 4096) < 1024" "fr' (n' div 4096) < 1024" "data_loc fr n = data_loc fr' n'"
  shows "fr (n div 4096) = fr' (n' div 4096) \<and> n mod 4096 = n' mod 4096"
proof -
  have e: "4096 * fr (n div 4096) + n mod 4096 = 4096 * fr' (n' div 4096) + n' mod 4096"
    using unat_data_loc [of fr n] unat_data_loc [of fr' n'] assms by simp
  then have "(4096 * fr (n div 4096) + n mod 4096) div 4096 = (4096 * fr' (n' div 4096) + n' mod 4096) div 4096" by simp
  then have "fr (n div 4096) = fr' (n' div 4096)" by simp
  with e show ?thesis by simp
qed

lemma data_loc_inj:
  assumes "\<And>k. k < 20 \<Longrightarrow> fr k < 1024" "\<And>k. k < 20 \<Longrightarrow> fr' k < 1024" "n < 81920" "n' < 81920"
    and "data_loc fr n = data_loc fr' n'"
  shows "fr (n div 4096) = fr' (n' div 4096) \<and> n mod 4096 = n' mod 4096"
  using assms by (intro data_loc_eqD) (simp_all add: div_less_iff_less_mult)

lemma data_run:
  assumes L: "layout_ok L" "dirs_ok L s" "t < 10" "cr3 s = dir_addr L t"
    and p: "p0 + 20 \<le> 1024" "a = of_nat (4096 * p0)"
    and fr: "\<And>k. k < 20 \<Longrightarrow> pagusr_table s t (p0 + k) = user_pte (of_nat (fr k)) \<and> fr k < 1024"
  shows "run_at (translate L) a s (map (data_loc fr) [0..<81920])"
  unfolding run_at_iff
proof (intro allI impI)
  fix n assume "n < length (map (data_loc fr) [0..<81920])"
  then have n: "n < 81920" by simp
  then have k: "n div 4096 < 20" by (simp add: div_less_iff_less_mult)
  have "4096 * p0 + n = 4096 * (p0 + n div 4096) + n mod 4096" by (simp add: algebra_simps)
  then have "a + of_nat n = of_nat (4096 * (p0 + n div 4096) + n mod 4096)"
    unfolding p(2) by (metis of_nat_add)
  moreover have "translate L (of_nat (4096 * (p0 + n div 4096) + n mod 4096)) s
      = Some (push_bit 12 (of_nat (fr (n div 4096))) OR of_nat (n mod 4096))"
    using k p fr [OF k] by (subst translate_at [OF L]) simp_all
  moreover have "push_bit 12 (of_nat (fr (n div 4096)) :: dword) OR of_nat (n mod 4096) = data_loc fr n"
    using fr [OF k] by (subst frame_addr) (simp_all add: data_loc_def)
  ultimately show "translate L (a + of_nat n) s = Some (map (data_loc fr) [0..<81920] ! n)"
    using n by (simp add: add.commute)
qed

text \<open>
  The copy through the temporary window: every byte of the new frames is the byte of the
  parent's data at the same offset, and no other byte of memory changes.
\<close>

lemma fork_copy:
  assumes L: "layout_ok L" "dirs_ok L s" "par < 10" "cr3 s = dir_addr L par"
    and src: "\<And>k. k < 20 \<Longrightarrow> pagusr_table s par (264 + k) = user_pte (of_nat (fr k)) \<and> fr k < 1024"
    and dst: "\<And>k. k < 20 \<Longrightarrow> pagusr_table s par (284 + k) = user_pte (of_nat (fc k)) \<and> fc k < 1024"
    and dis: "inj_on fc {..<20}" "\<And>k k'. k < 20 \<Longrightarrow> k' < 20 \<Longrightarrow> fr k \<noteq> fc k'"
  shows "\<exists>m. copy_data (vread L) (vwrite L) 0x108000 0x11C000 81920 s = Some (s\<lparr>mem := m\<rparr>)
    \<and> (\<forall>n<81920. m (data_loc fc n) = mem s (data_loc fr n))
    \<and> (\<forall>a. a \<notin> data_loc fc ` {..<81920} \<longrightarrow> m a = mem s a)"
proof -
  let ?rs = "map (data_loc fr) [0..<81920]" and ?ws = "map (data_loc fc) [0..<81920]"
  let ?put = "\<lambda>pa v s. s\<lparr>mem := (mem s)(pa := v)\<rparr>"
  have frb: "\<And>k. k < 20 \<Longrightarrow> fr k < 1024" and fcb: "\<And>k. k < 20 \<Longrightarrow> fc k < 1024"
    using src dst by blast+
  have "data_loc fr n \<noteq> data_loc fc n'" if "n < 81920" "n' < 81920" for n n'
    using data_loc_inj [of fr fc, OF _ _ that] frb fcb dis(2) [of "n div 4096" "n' div 4096"] that
    by (auto simp: div_less_iff_less_mult)
  then have disj: "set ?rs \<inter> set ?ws = {}" by fastforce
  have "n = n'" if n: "n < 81920" "n' < 81920" "data_loc fc n = data_loc fc n'" for n n'
  proof -
    have "fc (n div 4096) = fc (n' div 4096)" "n mod 4096 = n' mod 4096"
      using data_loc_inj [of fc fc, OF _ _ n] fcb by simp_all
    moreover from this have "n div 4096 = n' div 4096"
      using dis(1) n by (auto simp: inj_on_def div_less_iff_less_mult)
    ultimately show ?thesis by (metis mult_div_mod_eq)
  qed
  then have dist: "distinct ?ws" by (auto simp: distinct_map inj_on_def)
  have "run_at (translate L) 0x108000 s ?rs" by (rule data_run [OF L, of 264]) (use src in auto)
  moreover have "run_at (translate L) 0x11C000 s ?ws" by (rule data_run [OF L, of 284]) (use dst in auto)
  ultimately have c: "copy_data (vread L) (vwrite L) 0x108000 0x11C000 81920 s
      = Some (put_all ?put ?ws (map (\<lambda>r. mem s r) ?rs) s)"
    by (rule vm.copy_data_spec) (use disj in auto)
  define m where "m = mem (put_all ?put ?ws (map (\<lambda>r. mem s r) ?rs) s)"
  have m: "put_all ?put ?ws (map (\<lambda>r. mem s r) ?rs) s = s\<lparr>mem := m\<rparr>"
    by (simp add: m_def put_all_mem)
  have "m (data_loc fc n) = mem s (data_loc fr n)" if "n < 81920" for n
    using vm.get_put_all [OF dist, of "map (\<lambda>r. mem s r) ?rs" n s] that by (simp add: m_def)
  moreover have "m a = mem s a" if "a \<notin> data_loc fc ` {..<81920}" for a
    using vm.get_put_all_other [of a ?ws "map (\<lambda>r. mem s r) ?rs" s] that
    by (simp add: m_def atLeast0LessThan)
  ultimately show ?thesis using c m by (intro exI [of _ m]) simp
qed

section \<open>How fork and exit change the invariant\<close>

text \<open>The page tables after \<^verbatim>\<open>sys_fork\<close>: the child's code and data rows, a cleared window.\<close>

definition fork_tables :: "nat \<Rightarrow> nat \<Rightarrow> nat list \<Rightarrow> (nat \<Rightarrow> nat \<Rightarrow> dword) \<Rightarrow> nat \<Rightarrow> nat \<Rightarrow> dword" where
  "fork_tables par ch ns pt =
     set_row ch 256 264 (\<lambda>p. user_pte (pbase_addr (pt par p)))
      (set_row ch 264 284 (\<lambda>p. user_pte (of_nat (ns ! (p - 264)))) pt)"

lemma nth_in_superset: "set xs \<subseteq> X \<Longrightarrow> k < length xs \<Longrightarrow> xs ! k \<in> X"
  using nth_mem by blast

lemma data_frame_fork:
  assumes "pagusr_table s' = fork_tables par ch ns (pagusr_table s)" "length ns = 20" "set ns \<subseteq> set user_frames"
  shows "k < 20 \<Longrightarrow> data_frame s' ch k = ns ! k" "t \<noteq> ch \<Longrightarrow> data_frame s' t k = data_frame s t k"
proof -
  assume "k < 20"
  then have "ns ! k < 1024" using nth_in_superset [OF assms(3), of k] assms(2) user_frames_bounds by auto
  then show "data_frame s' ch k = ns ! k"
    using \<open>k < 20\<close> by (simp add: data_frame_def assms(1) fork_tables_def set_row_apply unat_of_nat32)
qed (simp add: data_frame_def assms(1) fork_tables_def set_row_apply)

lemma aspace_fork:
  assumes pt: "pagusr_table s' = fork_tables par ch ns (pagusr_table s)"
    and ns: "length ns = 20" "set ns \<subseteq> set user_frames - code_frames"
    and par: "aspace L s par" "par \<noteq> ch" and dir: "dir_pages_baseAddr (task_of s' ch) = dir_addr L ch"
  shows "aspace L s' ch"
proof -
  have nsu: "set ns \<subseteq> set user_frames" using ns(2) by auto
  note df = data_frame_fork [OF pt ns(1) nsu]
  have code: "pagusr_table s' ch (256 + k) = user_pte (of_nat (code_frame k))" if "k < 8" for k
    using par that by (simp add: pt fork_tables_def set_row_apply aspace_def)
  have "ns ! k \<in> set user_frames - code_frames" if "k < 20" for k
    using nth_in_superset [OF ns(2), of k] ns(1) that by simp
  moreover have "pagusr_table s' ch (264 + k) = user_pte (of_nat (ns ! k))" if "k < 20" for k
    using that by (simp add: pt fork_tables_def set_row_apply)
  moreover have "pbase_addr (user_pte (of_nat (code_frame k))) = of_nat (code_frame k)" if "k < 8" for k
    using that by (simp add: code_frame_def del: of_nat_add of_nat_mult)
  ultimately show ?thesis
    unfolding aspace_def using dir df(1) code by auto
qed

lemma mm_inv_fork:
  assumes m: "mm_inv L s A" and par: "par \<in> A" and ch: "ch \<notin> A" "ch < 10"
    and pt: "pagusr_table s' = fork_tables par ch ns (pagusr_table s)"
    and ns: "length ns = 20" "distinct ns" "set ns \<subseteq> free_frames s"
    and ph: "phys_mem s' = phys_mem (mark USED_FRAME (set ns) s)" and dp: "dir_pages s' = dir_pages s"
    and dir: "dir_pages_baseAddr (task_of s' ch) = dir_addr L ch"
      "\<And>t. t \<in> A \<Longrightarrow> dir_pages_baseAddr (task_of s' t) = dir_pages_baseAddr (task_of s t)"
  shows "mm_inv L s' (insert ch A)"
proof -
  have nsu: "set ns \<subseteq> set user_frames - code_frames" using ns(3) mm_invD(6) [OF m] by auto
  have nsu': "set ns \<subseteq> set user_frames" using nsu by auto
  note df = data_frame_fork [OF pt ns(1) nsu']
  have chA: "t \<noteq> ch" if "t \<in> A" for t using that ch by auto
  have row: "pagusr_table s' t = pagusr_table s t" if "t \<noteq> ch" for t
    using that by (simp add: pt fork_tables_def set_row_def)
  have fo: "frames_of s' ch = set ns" "t \<noteq> ch \<Longrightarrow> frames_of s' t = frames_of s t" for t
    using df ns(1) by (auto simp: frames_of_def in_set_conv_nth image_iff)
  have "inj_on (\<lambda>(t, k). data_frame s' t k) (insert ch A \<times> {..<20})"
  proof -
    have "inj_on (\<lambda>(t, k). data_frame s' t k) (A \<times> {..<20})"
      using mm_invD(5) [OF m] df(2) chA by (auto simp: inj_on_def)
    moreover have "inj_on (\<lambda>(t, k). data_frame s' t k) ({ch} \<times> {..<20})"
      using ns df(1) by (auto simp: inj_on_def nth_eq_iff_index_eq)
    moreover have "data_frame s' ch k \<noteq> data_frame s' t k'" if "t \<in> A" "k < 20" "k' < 20" for k t k'
    proof -
      have "data_frame s' ch k \<in> free_frames s" using df(1) that nth_in_superset [OF ns(3), of k] ns(1) by simp
      moreover have "data_frame s' t k' \<notin> free_frames s"
        using that df(2) chA unfolding mm_invD(6) [OF m] by (auto simp: frames_of_def)
      ultimately show ?thesis by metis
    qed
    ultimately show ?thesis by (auto simp: inj_on_def) (metis+)
  qed
  moreover have "free_frames s' = set user_frames - code_frames - (\<Union>t\<in>insert ch A. frames_of s' t)"
  proof -
    have "free_frames s' = free_frames s - set ns"
      using ph free_frames_mark_used [of "set ns" s] by (simp add: free_frames_def)
    then show ?thesis using fo chA unfolding mm_invD(6) [OF m] by auto
  qed
  moreover have "aspace L s' t" if "t \<in> insert ch A" for t
  proof (cases "t = ch")
    case True
    then show ?thesis using aspace_fork [OF pt ns(1) nsu mm_invD(3) [OF m par] chA [OF par] dir(1)] by simp
  next
    case False
    then have "t \<in> A" using that by simp
    then show ?thesis using mm_invD(3) [OF m] aspace_cong [of s' t s L] row False dir(2) by simp
  qed
  moreover have "pagusr_table s' t p = 0" if "t < 10" "284 \<le> p" "p < 1024" for t p
    using that mm_invD(7) [OF m that] by (auto simp: pt fork_tables_def set_row_apply)
  moreover have "\<not> pte_user (pagusr_table s' t p)" if "t < 10" "p < 256" for t p
    using that mm_invD(8) [OF m that] by (auto simp: pt fork_tables_def set_row_apply)
  ultimately show ?thesis
    using mm_invD(1,2) [OF m] ch dp by (simp add: mm_inv_def dirs_ok_def)
qed

lemma mm_inv_exit:
  assumes m: "mm_inv L s A" and t: "t \<in> A"
    and pt: "pagusr_table s' = pagusr_table s" and dp: "dir_pages s' = dir_pages s"
    and ph: "phys_mem s' = phys_mem (mark FREE_FRAME (frames_of s t) s)"
    and dir: "\<And>t. t \<in> A \<Longrightarrow> dir_pages_baseAddr (task_of s' t) = dir_pages_baseAddr (task_of s t)"
  shows "mm_inv L s' (A - {t})"
proof -
  have df: "data_frame s' = data_frame s" using pt by (simp add: data_frame_def fun_eq_iff)
  then have fo: "frames_of s' = frames_of s" by (simp add: frames_of_def fun_eq_iff)
  have sub: "frames_of s t \<subseteq> set user_frames - code_frames" using frames_of_sub [OF m] t by auto
  have inj: "inj_on (\<lambda>(t, k). data_frame s t k) (A \<times> {..<20})" by (rule mm_invD(5) [OF m])
  have "frames_of s t \<inter> frames_of s t' = {}" if "t' \<in> A" "t' \<noteq> t" for t'
    using inj t that by (fastforce simp: frames_of_def inj_on_def)
  moreover have "free_frames s' = free_frames s \<union> frames_of s t"
    using ph sub free_frames_mark_free [of "frames_of s t" s] by (auto simp: free_frames_def)
  ultimately have "free_frames s' = set user_frames - code_frames - (\<Union>t'\<in>A - {t}. frames_of s' t')"
    using sub unfolding mm_invD(6) [OF m] fo by auto
  moreover have "inj_on (\<lambda>(t, k). data_frame s' t k) ((A - {t}) \<times> {..<20})"
    unfolding df by (rule inj_on_subset [OF inj]) auto
  moreover have "aspace L s' t'" if "t' \<in> A" for t'
    using mm_invD(3) [OF m that] aspace_cong [of s' t' s L] pt dir [OF that] by simp
  ultimately show ?thesis using mm_invD(1,2,7,8) [OF m] pt dp by (auto simp: mm_inv_def dirs_ok_def)
qed

section \<open>Isolation\<close>

text \<open>
  The physical addresses a process can write in user mode: those its page table maps with
  the present, user and write bits.
\<close>

definition user_writable :: "kernel \<Rightarrow> nat \<Rightarrow> dword \<Rightarrow> bool" where
  "user_writable s t a \<longleftrightarrow> (\<exists>p<1024. \<exists>k<4096. pte_present (pagusr_table s t p) \<and> pte_user (pagusr_table s t p)
     \<and> pte_rw (pagusr_table s t p) \<and> a = of_nat (4096 * unat (pbase_addr (pagusr_table s t p)) + k))"

text \<open>The frames behind the pages of a process, and that none of them holds data of another.\<close>

lemma page_frame:
  assumes m: "mm_inv L s A" and t: "t \<in> A" and p: "256 \<le> p" "p < 284"
  shows "unat (pbase_addr (pagusr_table s t p)) \<in> code_frames \<union> frames_of s t"
proof (cases "p < 264")
  case True
  define j where "j = p - 256"
  then have j: "p = 256 + j" "j < 8" using p(1) True by simp_all
  then have "unat (pbase_addr (pagusr_table s t p)) = code_frame j"
    using mm_invD(3) [OF m t] by (simp add: aspace_def code_frame_def unat_of_nat32 del: of_nat_add of_nat_mult)
  then show ?thesis using j by (auto simp: code_frames_def)
next
  case False
  then have "unat (pbase_addr (pagusr_table s t p)) = data_frame s t (p - 264)" by (simp add: data_frame_def)
  then show ?thesis using p(2) False by (auto simp: frames_of_def)
qed

lemma frame_disjoint:
  assumes m: "mm_inv L s A" and t: "t \<in> A" "t' \<in> A" "t \<noteq> t'" and n: "n < 81920"
    and f: "f \<in> code_frames \<union> frames_of s t'" "k < 4096"
  shows "data_loc (data_frame s t) n \<noteq> of_nat (4096 * f + k)"
proof
  assume eq: "data_loc (data_frame s t) n = of_nat (4096 * f + k)"
  have nk: "n div 4096 < 20" using n by (simp add: div_less_iff_less_mult)
  have fb: "f < 1024" using f(1) frames_of_sub [OF m] t user_frames_bounds
    by (auto simp: code_frames_def code_frame_def)
  note db = data_frame_bounds [OF mm_invD(3) [OF m t(1)] nk]
  have "4096 * data_frame s t (n div 4096) + n mod 4096 = 4096 * f + k"
    using arg_cong [OF eq, of unat] unat_data_loc [of "data_frame s t" n] db unat_va [OF fb f(2)] by simp
  then have "(4096 * data_frame s t (n div 4096) + n mod 4096) div 4096 = (4096 * f + k) div 4096" by simp
  then have e: "f = data_frame s t (n div 4096)" using f(2) by simp
  have "f \<notin> code_frames" using mm_invD(3) [OF m t(1)] nk e by (simp add: aspace_def)
  then obtain k' where "k' < 20" "f = data_frame s t' k'" using f(1) by (auto simp: frames_of_def)
  then show False using mm_invD(5) [OF m] t nk e unfolding inj_on_def by fastforce
qed

lemma user_writable_page:
  assumes m: "mm_inv L s A" and t: "t \<in> A" and w: "user_writable s t a"
  obtains f k where "f \<in> code_frames \<union> frames_of s t" "k < 4096" "a = of_nat (4096 * f + k)"
proof -
  from w obtain p k where p: "p < 1024" "k < 4096" "pte_user (pagusr_table s t p)"
    "pte_present (pagusr_table s t p)" "a = of_nat (4096 * unat (pbase_addr (pagusr_table s t p)) + k)"
    by (auto simp: user_writable_def)
  have t10: "t < 10" by (rule mm_invD(4) [OF m t])
  have "256 \<le> p" using mm_invD(8) [OF m t10, of p] p(3) by (meson not_le)
  moreover have "p < 284" using mm_invD(7) [OF m t10, of p] p(1,4) by (cases "p < 284") auto
  ultimately show thesis using that page_frame [OF m t] p(2,5) by blast
qed

lemma isolation:
  assumes m: "mm_inv L s A" and t: "t \<in> A" "t' \<in> A" "t \<noteq> t'" and n: "n < 81920"
  shows "\<not> user_writable s t' (data_loc (data_frame s t) n)"
  using user_writable_page [OF m t(2)] frame_disjoint [OF m t n] by metis

text \<open>
  The kernel writes to a process through its page table too: what it stores at an address of
  the user part does not reach the data of another process.
\<close>

lemma user_part_disjoint:
  assumes L: "layout_ok L" and m: "mm_inv L s A" and t: "t \<in> A" "c \<in> A" "t \<noteq> c" and n: "n < 81920"
    and cr: "cr3 s = dir_addr L c" and a: "0x100000 \<le> unat a" "unat a < 0x11D000" and tr: "translate L a s = Some pa"
  shows "pa \<noteq> data_loc (data_frame s t) n"
proof -
  define p k where "p = unat a div 4096" and "k = unat a mod 4096"
  have ap: "a = of_nat (4096 * p + k)" "k < 4096" by (simp_all add: p_def k_def flip: of_nat_mult of_nat_add)
  have p: "256 \<le> p" "p < 285" using a by (simp_all add: p_def div_less_iff_less_mult less_eq_div_iff_mult_less_eq)
  have c: "c < 10" by (rule mm_invD(4) [OF m t(2)])
  have pr: "pte_present (pagusr_table s c p)" "pa = push_bit 12 (pbase_addr (pagusr_table s c p)) OR of_nat k"
    using translate_at [OF L mm_invD(1) [OF m] c cr _ ap(2), of p] p tr unfolding ap(1) by (auto split: if_splits)
  have "p \<noteq> 284" using mm_invD(7) [OF m c, of 284] pr(1) by auto
  then have f: "unat (pbase_addr (pagusr_table s c p)) \<in> code_frames \<union> frames_of s c" using page_frame [OF m t(2)] p by simp
  then have "unat (pbase_addr (pagusr_table s c p)) < 1024"
    using frames_of_sub [OF m] t user_frames_bounds by (auto simp: code_frames_def code_frame_def)
  then have "pa = of_nat (4096 * unat (pbase_addr (pagusr_table s c p)) + k)"
    using frame_addr [of "unat (pbase_addr (pagusr_table s c p))" k] ap(2) unfolding pr(2) by simp
  then show ?thesis using frame_disjoint [OF m t n f ap(2)] by simp
qed

end
