(* ===== verification/Kernel_Invariant.thy ===== *)
theory Kernel_Invariant
  imports Kernel_Memory
begin

text \<open>
  The global invariant of the kernel between two of its entries, and its preservation by
  every handler.  \<open>kinv L s c i F R B\<close>: task \<open>c\<close> runs, \<open>i\<close> is the idle task, and every other
  task is in exactly one of the free, ready and console queues \<open>F\<close>, \<open>R\<close>, \<open>B\<close>; whatever waits
  can be continued by a context switch; and the memory invariant holds for the live
  processes.
\<close>

section \<open>The invariant\<close>

definition live :: "nat \<Rightarrow> nat list \<Rightarrow> nat set" where
  "live i F = {..<10} - {i} - set F"

definition kinv :: "layout \<Rightarrow> kernel \<Rightarrow> nat \<Rightarrow> nat \<Rightarrow> nat list \<Rightarrow> nat list \<Rightarrow> nat list \<Rightarrow> bool" where
  "kinv L s c i F R B \<longleftrightarrow>
     queues_are s F R B \<and> idle_task s = Some i
     \<and> insert i (insert c (set F \<union> set R \<union> set B)) = {..<10}
     \<and> i \<notin> set F \<union> set R \<union> set B \<and> c \<notin> set F \<union> set R \<union> set B
     \<and> (\<forall>t\<in>insert i (set R \<union> set B). t \<noteq> c \<longrightarrow> resumable L s t)
     \<and> mm_inv L s (live i F)
     \<and> dir_pages_baseAddr (task_of s i) = dir_addr L i
     \<and> cr3 s = dir_addr L c \<and> tss_esp0 (tss s) = KERNEL_ESP L c"

text \<open>
  Process identifiers: the idle task has 0, free tasks \<open>-1\<close>, live processes distinct positive
  numbers up to the largest one given out.
\<close>

definition pids_ok :: "kernel \<Rightarrow> nat \<Rightarrow> nat list \<Rightarrow> bool" where
  "pids_ok s i F \<longleftrightarrow> PID (task_of s i) = 0 \<and> (\<forall>t\<in>set F. PID (task_of s t) = - 1)
     \<and> (\<forall>t\<in>live i F. 0 < sint (PID (task_of s t)) \<and> sint (PID (task_of s t)) \<le> sint (PID_MAX s))
     \<and> inj_on (\<lambda>t. PID (task_of s t)) (live i F)"

lemma kinvD:
  assumes "kinv L s c i F R B"
  shows "queues_are s F R B" "idle_task s = Some i"
    "insert i (insert c (set F \<union> set R \<union> set B)) = {..<10}"
    "i \<notin> set F \<union> set R \<union> set B" "c \<notin> set F \<union> set R \<union> set B"
    "t \<in> insert i (set R \<union> set B) \<Longrightarrow> t \<noteq> c \<Longrightarrow> resumable L s t"
    "mm_inv L s (live i F)" "dir_pages_baseAddr (task_of s i) = dir_addr L i"
    "cr3 s = dir_addr L c" "tss_esp0 (tss s) = KERNEL_ESP L c"
  using assms by (auto simp: kinv_def)

lemma kinv_bounds:
  assumes "kinv L s c i F R B"
  shows "c < 10" "i < 10" "t \<in> set F \<union> set R \<union> set B \<Longrightarrow> t < 10"
  using kinvD(3) [OF assms] by auto

lemma live_tasks:
  assumes "kinv L s c i F R B"
  shows "live i F = insert c (set R \<union> set B) - {i}"
  using kinvD(3,4,5) [OF assms] queues_are_distinct [OF kinvD(1) [OF assms]]
  by (auto simp: live_def)

text \<open>Every live task's directory is its own, and so is the idle task's.\<close>

lemma kinv_dir:
  assumes "kinv L s c i F R B" "t \<in> insert i (insert c (set R \<union> set B))"
  shows "dir_pages_baseAddr (task_of s t) = dir_addr L t"
proof (cases "t = i")
  case False
  then have "t \<in> live i F" using assms live_tasks [OF assms(1)] by auto
  then show ?thesis using mm_invD(3) [OF kinvD(7) [OF assms(1)]] by (simp add: aspace_def)
qed (use kinvD(8) [OF assms(1)] in simp)

text \<open>Ten tasks: a fork always finds its twenty frames.\<close>

lemma kinv_frames:
  assumes "kinv L s c i (ch # F) R B"
  shows "20 \<le> card (free_frames s)"
proof -
  have "i \<noteq> ch" "ch < 10" "i < 10"
    using kinvD(4) [OF assms] kinv_bounds [OF assms] by auto
  then have "live i (ch # F) \<subseteq> {..<10} - {i, ch}" and "card ({..<10} - {i, ch}) = 8"
    by (auto simp: live_def card_Diff_subset)
  then have "card (live i (ch # F)) \<le> 8" by (metis card_mono finite_Diff finite_lessThan)
  then show ?thesis using free_frames_card [OF kinvD(7) [OF assms]] by simp
qed

text \<open>
  What the invariant depends on: accounting and screen output do not touch it, nor does
  moving waiting tasks between the ready and the console queue.
\<close>

lemma resumable_cong':
  "kernel_esp (task_of s' t) = kernel_esp (task_of s t) \<Longrightarrow> stack (task s' t) = stack (task s t)
    \<Longrightarrow> resumable L s' t = resumable L s t"
  by (simp add: resumable_def suspended_def fresh_def)

lemma kinv_transfer:
  assumes k: "kinv L s c i F R B"
    and q: "queues_are s' F R' B'" "set R' \<union> set B' = set R \<union> set B"
    and same: "idle_task s' = idle_task s" "cr3 s' = cr3 s" "tss_esp0 (tss s') = tss_esp0 (tss s)"
      "pagusr_table s' = pagusr_table s" "dir_pages s' = dir_pages s" "phys_mem s' = phys_mem s"
    and task: "\<And>t. dir_pages_baseAddr (task_of s' t) = dir_pages_baseAddr (task_of s t)"
      "\<And>t. t \<noteq> c \<Longrightarrow> kernel_esp (task_of s' t) = kernel_esp (task_of s t) \<and> stack (task s' t) = stack (task s t)"
  shows "kinv L s' c i F R' B'"
proof -
  have "resumable L s' t" if t: "t \<in> insert i (set R' \<union> set B')" "t \<noteq> c" for t
  proof -
    have "t \<in> insert i (set R \<union> set B)" using t(1) q(2) by auto
    then show ?thesis using kinvD(6) [OF k _ t(2)] resumable_cong' [of s' t s L] task(2) [OF t(2)] by simp
  qed
  moreover have "set F \<union> set R' \<union> set B' = set F \<union> set R \<union> set B" using q(2) by (simp add: Un_assoc)
  moreover have "mm_inv L s' (live i F)" using kinvD(7) [OF k] mm_inv_cong [of s' s] same task(1) by simp
  ultimately show ?thesis using k q(1) same task(1) unfolding kinv_def by simp
qed

lemma kinv_stats:
  assumes "kinv L s c i F R B"
  shows "kinv L (upd_pcb c (\<lambda>p. p\<lparr>statics := f (statics p)\<rparr>) (s\<lparr>tsc_pos := n\<rparr>)) c i F R B"
  using kinvD(1) [OF assms] by (intro kinv_transfer [OF assms]) (auto simp: queues_are_def)

section \<open>Switching away from a parked task\<close>

text \<open>
  The running task \<open>c\<close> has been put in a queue (or is the idle task): what every path into
  \<^verbatim>\<open>sched_next\<close> establishes.
\<close>

definition parked :: "layout \<Rightarrow> kernel \<Rightarrow> nat \<Rightarrow> nat \<Rightarrow> nat list \<Rightarrow> nat list \<Rightarrow> nat list \<Rightarrow> bool" where
  "parked L s c i F R B \<longleftrightarrow>
     queues_are s F R B \<and> idle_task s = Some i
     \<and> insert i (set F \<union> set R \<union> set B) = {..<10} \<and> i \<notin> set F \<union> set R \<union> set B
     \<and> (\<forall>t\<in>insert i (set R \<union> set B). t \<noteq> c \<longrightarrow> resumable L s t)
     \<and> mm_inv L s (live i F) \<and> dir_pages_baseAddr (task_of s i) = dir_addr L i
     \<and> c < 10 \<and> stack_room L s c"

lemma parked_dir:
  assumes "parked L s c i F R B" "t \<in> insert i (set R \<union> set B)"
  shows "dir_pages_baseAddr (task_of s t) = dir_addr L t"
proof (cases "t = i")
  case False
  have "t \<in> live i F"
    using assms False queues_are_distinct(4,5) [of s F R B] unfolding parked_def live_def by auto
  then show ?thesis using assms(1) mm_invD(3) by (auto simp: parked_def aspace_def)
qed (use assms in \<open>simp add: parked_def\<close>)

text \<open>Parking the running task in one of the queues.\<close>

lemma parkedI:
  assumes k: "kinv L s c i F R B" and room: "stack_room L s c"
    and q: "queues_are s' F' R' B'" "set F' \<union> set R' \<union> set B' = insert c (set F \<union> set R \<union> set B) - {i}"
      "set R' \<union> set B' \<subseteq> insert c (set R \<union> set B)"
    and same: "idle_task s' = idle_task s" "cpu s' = cpu s" "\<And>t. t \<noteq> c \<Longrightarrow> task s' t = task s t"
      "dir_pages_baseAddr (task_of s' c) = dir_pages_baseAddr (task_of s c)"
    and m: "mm_inv L s' (live i F')"
  shows "parked L s' c i F' R' B'"
proof -
  have "resumable L s' t" if t: "t \<in> insert i (set R' \<union> set B')" "t \<noteq> c" for t
  proof -
    have "t \<in> insert i (set R \<union> set B)" using t q(3) by auto
    then show ?thesis using kinvD(6) [OF k _ t(2)] resumable_cong [OF same(3) [OF t(2)]] by simp
  qed
  moreover have "dir_pages_baseAddr (task_of s' i) = dir_addr L i"
    using kinvD(8) [OF k] same(3) [of i] same(4) by (cases "i = c") auto
  moreover have "insert i (set F' \<union> set R' \<union> set B') = {..<10}" "i \<notin> set F' \<union> set R' \<union> set B'"
    unfolding q(2) using kinvD(3) [OF k] by auto
  ultimately show ?thesis
    using q(1) same(1) kinvD(2) [OF k] kinv_bounds(1) [OF k] room m stack_room_cong [OF same(2)]
    by (simp add: parked_def)
qed

context scheduling_policy
begin

lemma next_ok:
  assumes L: "layout_ok L" and p: "parked L s c i F R B"
  shows "\<exists>r s'. sched_next P s = Some (r, s') \<and> kinv L s' (next_task R i) i F (tl R) B
    \<and> suspended L s' c (cpu s) \<and> mem s' = mem s \<and> pagusr_table s' = pagusr_table s
    \<and> phys_mem s' = phys_mem s \<and> PID_MAX s' = PID_MAX s \<and> scr s' = scr s
    \<and> zeos_ticks s' = zeos_ticks s \<and> (\<forall>t. PID (task_of s' t) = PID (task_of s t)) \<and> hands_over L s c (next_task R i) s'"
proof -
  let ?n = "next_task R i"
  have "ready_to_switch L s c i F R B" using p by (auto simp: ready_to_switch_def parked_def)
  from next_law [OF L this] obtain r s' h q where s': "sched_next P s = Some (r, s')" "queues_are s' F (tl R) B"
    and sw: "switched L (s\<lparr>links := h, CPU_QUANTUM := q\<rparr>) c ?n s'" by blast
  let ?s = "s\<lparr>links := h, CPU_QUANTUM := q\<rparr>"
  have sr: "same_rest ?s s'" and sus: "suspended L s' c (cpu s)" using sw by (auto simp: switched_def)
  note rest = same_rest_sels [OF sr, simplified]
  have nR: "?n = i \<and> R = [] \<or> R = ?n # tl R" by (cases R) (auto simp: next_task_def)
  have n: "?n \<in> insert i (set R \<union> set B)" using nR by (cases R) (auto simp: next_task_def)
  have other: "task s' t = task s t" if "t \<noteq> c" "t \<noteq> ?n" for t
    using sw that by (simp add: switched_def)
  have "resumable L s' t" if "t \<in> insert i (set (tl R) \<union> set B)" "t \<noteq> ?n" for t
  proof (cases "t = c")
    case True
    then show ?thesis using sus by (auto simp: resumable_def)
  next
    case False
    have "t \<in> insert i (set R \<union> set B)" using that(1) by (cases R) auto
    then show ?thesis using p False other [OF False that(2)] resumable_cong [of s' t s L] by (auto simp: parked_def)
  qed
  moreover have "mm_inv L s' (live i F)"
    using p sw rest by (subst mm_inv_cong [of s' s]) (auto simp: parked_def switched_def)
  moreover have "dir_pages_baseAddr (task_of s' i) = dir_addr L i" "cr3 s' = dir_addr L ?n"
    using sw p parked_dir [OF p n] by (auto simp: switched_def get_DIR_def parked_def)
  moreover have "?n \<notin> set F \<union> set (tl R) \<union> set B" "i \<notin> set F \<union> set (tl R) \<union> set B"
    "insert i (insert ?n (set F \<union> set (tl R) \<union> set B)) = {..<10}"
    using p nR queues_are_distinct [of s F R B] unfolding parked_def
    by (cases R; auto simp: next_task_def)+
  ultimately have "kinv L s' ?n i F (tl R) B"
    using s'(2) rest sw p unfolding kinv_def by (simp add: switched_def parked_def)
  moreover have "hands_over L s c ?n s'" using sw hands_over_cong [of ?s s] by (simp add: switched_def)
  ultimately show ?thesis using s' sus rest sw by (auto simp: switched_def)
qed

end

end
