(* ===== verification/Kernel_Fork.thy ===== *)
theory Kernel_Fork
  imports Kernel_Invariant
begin

text \<open>
  \<^verbatim>\<open>sys_fork\<close>: with a free task and the invariant it succeeds, gives the child the next
  identifier, a copy of the parent's data in frames of its own, the parent's stack with a
  return path through \<^verbatim>\<open>ret_from_fork\<close>, and the last place of the ready queue, and changes
  no other process.  Without a free task it is refused.
\<close>

section \<open>sys\_fork\<close>

lemma fork_windows:
  assumes "\<And>p. 284 \<le> p \<Longrightarrow> p < 1024 \<Longrightarrow> pt par p = 0" "par \<noteq> ch" "length ns = 20"
  shows "set_row par 284 304 (\<lambda>_. 0) (set_row ch 264 284 (\<lambda>p. user_pte (map of_nat ns ! (p - 264)))
      (set_row par 284 304 g (set_row ch 256 264 (\<lambda>p. user_pte (pbase_addr (pt par p))) pt)))
    = fork_tables par ch ns pt"
  using assms by (auto simp: fork_tables_def set_row_apply fun_eq_iff)

text \<open>The memory part of a fork, from the code pages to the closed window.\<close>

lemma fork_memory:
  assumes L: "layout_ok L" and m: "mm_inv L s A" and par: "par \<in> A" and ch: "ch \<notin> A" "ch < 10"
    and cr: "cr3 s = dir_addr L par" and free: "20 \<le> card (free_frames s)"
  obtains ns m s4 s5 s6 s7 where
    "length ns = 20" "distinct ns" "set ns \<subseteq> free_frames s"
    "mfold (fork_code_page L (pt_addr L par) (pt_addr L ch)) [0..<8] s = Some s4"
    "fork_alloc 20 [] s4 = (Some (map of_nat ns), s5)"
    "mfold (fork_data_page L (pt_addr L par) (pt_addr L ch) (map of_nat ns)) [256..<276] s5 = Some s6"
    "copy_data (vread L) (vwrite L) 0x108000 0x11C000 81920 s6 = Some s7"
    "mfold (fork_unmap_page L (pt_addr L par)) [256..<276] s7
       = Some ((mark USED_FRAME (set ns) s)\<lparr>pagusr_table := fork_tables par ch ns (pagusr_table s), mem := m\<rparr>)"
    "\<forall>n<81920. m (data_loc ((!) ns) n) = mem s (data_loc (data_frame s par) n)"
    "\<forall>a. a \<notin> data_loc ((!) ns) ` {..<81920} \<longrightarrow> m a = mem s a"
proof -
  let ?pt = "pagusr_table s"
  have pb: "par < 10" "par \<noteq> ch" and asp: "aspace L s par" using mm_invD(3,4) [OF m par] par ch by auto
  define s4 where "s4 = s\<lparr>pagusr_table := set_row ch 256 264 (\<lambda>p. user_pte (pbase_addr (?pt par p))) ?pt\<rparr>"
  have code: "mfold (fork_code_page L (pt_addr L par) (pt_addr L ch)) [0..<8] s = Some s4"
    unfolding s4_def by (rule fork_code_pages [OF pb(1) ch(2) pb(2)])
  have f4: "free_frames s4 = free_frames s" by (simp add: s4_def free_frames_def)
  obtain ns where ns: "fork_alloc 20 [] s4 = (Some (map of_nat ns), mark USED_FRAME (set ns) s4)"
    "length ns = 20" "distinct ns" "set ns \<subseteq> free_frames s"
    using fork_alloc_ok [of 20 s4 "[]"] free unfolding f4 by auto
  let ?row = "set_row ch 264 284 (\<lambda>p. user_pte (map of_nat ns ! (p - 264)))
        (set_row par 284 304 (\<lambda>p. user_pte (map of_nat ns ! (p - 284))) (pagusr_table s4))"
  define s6 where "s6 = (mark USED_FRAME (set ns) s4)\<lparr>pagusr_table := ?row\<rparr>"
  have data: "mfold (fork_data_page L (pt_addr L par) (pt_addr L ch) (map of_nat ns)) [256..<276]
      (mark USED_FRAME (set ns) s4) = Some s6"
    unfolding s6_def by (subst fork_data_pages [OF pb(1) ch(2) pb(2)]) simp
  have nsb: "ns ! k < 1024 \<and> ns ! k \<in> free_frames s" if "k < 20" for k
    using nth_in_superset [OF ns(4), of k] ns(2) that user_frames_bounds by (auto simp: free_frames_def)
  have "\<exists>m. copy_data (vread L) (vwrite L) 0x108000 0x11C000 81920 s6 = Some (s6\<lparr>mem := m\<rparr>)
    \<and> (\<forall>n<81920. m (data_loc ((!) ns) n) = mem s6 (data_loc (data_frame s par) n))
    \<and> (\<forall>a. a \<notin> data_loc ((!) ns) ` {..<81920} \<longrightarrow> m a = mem s6 a)"
  proof (rule fork_copy [OF L _ pb(1)])
    show "dirs_ok L s6" using mm_invD(1) [OF m] by (simp add: s6_def s4_def dirs_ok_def)
    show "cr3 s6 = dir_addr L par" using cr by (simp add: s6_def s4_def)
    show "inj_on ((!) ns) {..<20}" using ns by (auto simp: inj_on_def nth_eq_iff_index_eq)
    fix k :: nat assume k: "k < 20"
    show "pagusr_table s6 par (264 + k) = user_pte (of_nat (data_frame s par k)) \<and> data_frame s par k < 1024"
      using data_page [OF asp k] data_frame_bounds [OF asp k] pb k by (simp add: s6_def s4_def set_row_apply)
    show "pagusr_table s6 par (284 + k) = user_pte (of_nat (ns ! k)) \<and> ns ! k < 1024"
      using nsb [OF k] ns(2) pb k by (simp add: s6_def set_row_apply)
    fix k' :: nat assume k': "k' < 20"
    show "data_frame s par k \<noteq> ns ! k'"
      using nsb [OF k'] k par unfolding mm_invD(6) [OF m] frames_of_def by (metis DiffD2 UN_I imageI lessThan_iff)
  qed
  then obtain m' where m': "copy_data (vread L) (vwrite L) 0x108000 0x11C000 81920 s6 = Some (s6\<lparr>mem := m'\<rparr>)"
    "\<forall>n<81920. m' (data_loc ((!) ns) n) = mem s (data_loc (data_frame s par) n)"
    "\<forall>a. a \<notin> data_loc ((!) ns) ` {..<81920} \<longrightarrow> m' a = mem s a"
    by (auto simp: s6_def s4_def)
  have "mfold (fork_unmap_page L (pt_addr L par)) [256..<276] (s6\<lparr>mem := m'\<rparr>)
      = Some ((mark USED_FRAME (set ns) s)\<lparr>pagusr_table := fork_tables par ch ns ?pt, mem := m'\<rparr>)"
    using fork_windows [of ?pt par ch ns] mm_invD(7) [OF m] pb ns(2)
    by (subst fork_unmap_pages [OF pb(1)])
      (simp, rule kernel.equality, simp_all add: s6_def s4_def mark_def cong: if_cong)
  with that [OF ns(2,3,4) code ns(1) data m'(1)] m'(2,3) show thesis by blast
qed

lemma get_PT_cong:
  "dir_pages s' = dir_pages s \<Longrightarrow> dir_pages_baseAddr (task_of s' t) = dir_pages_baseAddr (task_of s t)
    \<Longrightarrow> get_PT L t s' = get_PT L t s"
  by (simp add: get_PT_def split: option.splits)

text \<open>The pieces of the tail of a fork.\<close>

lemma set_ini_stats_eq:
  "set_ini_stats t s = Some (upd_pcb t (\<lambda>p. p\<lparr>t_state := ST_READY, statics := (statics p)\<lparr>user_ticks := 0,
      system_ticks := 0, blocked_ticks := 0, elapsed_total_ticks := ticks_at s (tsc_pos s), total_trans := 0,
      remaining_ticks := 18\<rparr>\<rparr>) (s\<lparr>tsc_pos := Suc (tsc_pos s)\<rparr>))"
  by (simp add: set_ini_stats_def)

lemma fork_child_stack_at:
  assumes "layout_ok L" "par < 10" "ch < 10" "ebp (cpu s) = elem_addr (task_base L) par (Suc j)" "14 \<le> j" "Suc j < 1024"
  shows "fork_child_stack L par ch s = Some (s\<lparr>task := (task s)(ch := (task s ch)\<lparr>
      stack := (stack (task s ch))(Suc j := ret_from_fork_addr L, j := 0),
      pcb := (task_of s ch)\<lparr>kernel_esp := elem_addr (task_base L) ch j\<rparr>\<rparr>)\<rparr>)"
proof -
  have d: "ebp (cpu s) - task_addr L par = of_nat (4 * Suc j)"
    unfolding assms(4) task_addr_def by (simp add: elem_addr_def)
  have u: "unat (of_nat (4 * Suc j) :: dword) = 4 * Suc j" "unat (of_nat (Suc j) :: dword) = Suc j"
    "unat (of_nat j :: dword) = j"
    using assms by - (rule unat_of_nat32, simp)+
  have q: "(of_nat (4 * Suc j) :: dword) div 4 = of_nat (Suc j)"
    unfolding word_unat_eq_iff unat_div u by simp
  have "task_addr L ch + 4 * (of_nat (Suc j) - 1) = elem_addr (task_base L) ch j"
    by (simp add: task_addr_def elem_addr_def)
  then show ?thesis
    unfolding fork_child_stack_def Let_def d q
    using assms u by (simp add: set_stack_word_def)
qed

lemma queues_are_unlinked:
  assumes q: "queues_are s F R B" and t: "t \<notin> set F \<union> set R \<union> set B"
  shows "queues_are (s\<lparr>links := (links s)(TASK_LIST t := a)\<rparr>) F R B"
proof -
  have "dlist ((links s)(TASK_LIST t := a)) qh (queue_of F R B qh)" if "qh \<in> QHEADS" for qh
  proof (rule dlist_frame [OF lq.queues_rep [OF q [unfolded queues_are_def] that]])
    fix z assume "z \<in> insert qh (set (queue_of F R B qh))"
    then have "z \<noteq> TASK_LIST t" using that t members_queue_of [of t F R B]
      by (auto simp: lq.members_def)
    then show "((links s)(TASK_LIST t := a)) z = links s z" by simp
  qed
  then show ?thesis using q by (auto simp: queues_are_def lq.queues_def)
qed

text \<open>
  The child as a fork leaves it: the parent's control block and stack, but for the directory,
  the identifier, the statistics and the return path.
\<close>

definition fork_child :: "layout \<Rightarrow> kernel \<Rightarrow> task_union \<Rightarrow> nat \<Rightarrow> nat \<Rightarrow> dword \<Rightarrow> task_union" where
  "fork_child L s u ch j now = u\<lparr>
     stack := (stack u)(Suc j := ret_from_fork_addr L, j := 0),
     pcb := (pcb u)\<lparr>dir_pages_baseAddr := dir_addr L ch, PID := PID_MAX s + 1,
       kernel_esp := elem_addr (task_base L) ch j, t_state := ST_READY,
       statics := (statics (pcb u))\<lparr>user_ticks := 0, system_ticks := 0, blocked_ticks := 0,
         elapsed_total_ticks := now, total_trans := 0, remaining_ticks := 18\<rparr>\<rparr>\<rparr>"

lemma fork_sizes: "NUM_PAG_KERNEL = 256" "NUM_PAG_CODE = 8" "NUM_PAG_DATA = 20" "20 + 256 = (276 :: nat)"
  "L_USER_START + of_nat (8 * PAGE_SIZE) = (0x108000 :: dword)"
  "L_USER_START + of_nat ((8 + 20) * PAGE_SIZE) = (0x11C000 :: dword)"
  "of_nat (20 * PAGE_SIZE) = (81920 :: cint)"
  by simp_all

definition fork_parent :: "kernel \<Rightarrow> nat \<Rightarrow> task_union" where
  "fork_parent s c = (task s c)\<lparr>pcb := (task_of s c)\<lparr>statics := charge user_ticks_update s (statics (task_of s c))\<rparr>\<rparr>"

text \<open>The first part, up to the page tables of both.\<close>

lemma fork_start:
  assumes L: "layout_ok L" and k: "kinv L s c i (ch # F) R B" and cur: "current L s = Some c"
  obtains s1 h1 s2 h3 s3 where
    "act_ticks_user2kernel L s = Some s1" "list_empty (Ptr FREEQUEUE) (links s1) = Some False"
    "list_first (Ptr FREEQUEUE) (links s1) = Some (Ptr (TASK_LIST ch))"
    "on_links (list_del (Ptr (TASK_LIST ch))) s1 = Some (s1\<lparr>links := h1\<rparr>)"
    "current L (s1\<lparr>links := h1\<rparr>) = Some c" "copy_task_union c ch (s1\<lparr>links := h1\<rparr>) = s2"
    "get_PT L c s2 = Some (pt_addr L c)" "allocate_DIR L ch s2 = (1, s3)" "get_PT L ch s3 = Some (pt_addr L ch)"
    "queues_are s3 F R B" "s3 = s\<lparr>links := h3, tsc_pos := tsc_pos s + 2, task := (task s)(c := fork_parent s c,
        ch := (fork_parent s c)\<lparr>pcb := (pcb (fork_parent s c))\<lparr>dir_pages_baseAddr := dir_addr L ch\<rparr>\<rparr>)\<rparr>"
proof -
  let ?u = "fork_parent s c"
  have b: "c < 10" "ch < 10" "c \<noteq> ch" using kinv_bounds [OF k] kinvD(5) [OF k] by auto
  define s1 where "s1 = upd_stats c (charge user_ticks_update s) (tick2 s)"
  have s1: "act_ticks_user2kernel L s = Some s1" by (simp add: act_ticks_user2kernel_eq [OF cur] s1_def)
  have q1: "queues_are s1 (ch # F) R B" using kinvD(1) [OF k] by (simp add: s1_def queues_are_def)
  obtain h1 where h1: "list_del (Ptr (TASK_LIST ch)) (links s1) = Some h1" "queues_are (s1\<lparr>links := h1\<rparr>) F R B"
    using pop_free_ok(2) [OF q1] by blast
  let ?h3 = "h1(TASK_LIST ch := h1 (TASK_LIST c))"
  define s2 where "s2 = s\<lparr>links := ?h3, tsc_pos := tsc_pos s + 2, task := (task s)(c := ?u, ch := ?u)\<rparr>"
  define s3 where "s3 = s\<lparr>links := ?h3, tsc_pos := tsc_pos s + 2, task := (task s)(c := ?u,
        ch := ?u\<lparr>pcb := (pcb ?u)\<lparr>dir_pages_baseAddr := dir_addr L ch\<rparr>\<rparr>)\<rparr>"
  have "copy_task_union c ch (s1\<lparr>links := h1\<rparr>) = s2"
    by (rule kernel.equality) (simp_all add: copy_task_union_def s1_def s2_def fork_parent_def)
  moreover have "allocate_DIR L ch s2 = (1, s3)"
    using b by (simp add: allocate_DIR_at s2_def s3_def)
  moreover have "dirs_ok L s2" "dirs_ok L s3" using mm_invD(1) [OF kinvD(7) [OF k]] by (simp_all add: s2_def s3_def dirs_ok_def)
  then have "get_PT L c s2 = Some (pt_addr L c)" "get_PT L ch s3 = Some (pt_addr L ch)"
    using kinv_dir [OF k, of c] b by (auto intro!: get_PT_at [OF L] simp: s2_def s3_def fork_parent_def)
  moreover have "queues_are s3 F R B"
    using queues_are_unlinked [OF h1(2) pop_free_ok(3) [OF q1]] by (simp add: s3_def queues_are_def)
  ultimately show thesis
    using that [of s1 h1 s2 s3 ?h3] s1 free_empty_iff [OF q1] pop_free_ok(1) [OF q1] h1 cur
    by (simp add: s3_def current_def s1_def)
qed

text \<open>The last part, from the closed window to the return.\<close>

lemma fork_finish_exec:
  assumes L: "layout_ok L" "c < 10" "ch < 10" "c \<noteq> ch" and cur: "current L s = Some c"
    and cr: "cr3 s = dir_pages_baseAddr (task_of s c)" and q: "queues_are s F R B" "ch \<notin> set F \<union> set R \<union> set B"
    and bp: "ebp (cpu s) = elem_addr (task_base L) c (Suc j)" "14 \<le> j" "Suc j < 1024"
    and dir: "dir_pages_baseAddr (task_of s ch) = dir_addr L ch"
  obtains h u where "queues_are (s\<lparr>links := h\<rparr>) F (R @ [ch]) B"
    "pcb u = (task_of s c)\<lparr>statics := statics (pcb u)\<rparr>" "stack u = stack (task s c)"
    "fork_finish L c ch s = Some (PID_MAX s + 1, s\<lparr>links := h, PID_MAX := PID_MAX s + 1, tsc_pos := tsc_pos s + 3,
        task := (task s)(c := u, ch := fork_child L s (task s ch) ch j (ticks_at s (tsc_pos s)))\<rparr>)"
proof -
  let ?pid = "PID_MAX s + 1"
  define s9 where "s9 = s\<lparr>PID_MAX := ?pid, task := (task s)(ch := (task s ch)\<lparr>pcb := (task_of s ch)\<lparr>PID := ?pid\<rparr>\<rparr>)\<rparr>"
  define s10 where "s10 = s\<lparr>PID_MAX := ?pid, task := (task s)(ch := (task s ch)\<lparr>
      stack := (stack (task s ch))(Suc j := ret_from_fork_addr L, j := 0),
      pcb := (task_of s ch)\<lparr>PID := ?pid, kernel_esp := elem_addr (task_base L) ch j\<rparr>\<rparr>)\<rparr>"
  define s11 where "s11 = s\<lparr>PID_MAX := ?pid, tsc_pos := Suc (tsc_pos s),
      task := (task s)(ch := fork_child L s (task s ch) ch j (ticks_at s (tsc_pos s)))\<rparr>"
  have "upd_pcb ch (\<lambda>p. p\<lparr>PID := ?pid\<rparr>) (set_cr3 (get_DIR c s) s)\<lparr>PID_MAX := ?pid\<rparr> = s9"
    using cr by (intro kernel.equality) (simp_all add: s9_def set_cr3_def get_DIR_def)
  moreover have "PID_MAX (set_cr3 d s) = PID_MAX s" for d by (simp add: set_cr3_def)
  moreover have "fork_child_stack L c ch s9 = Some s10"
    using bp L by (subst fork_child_stack_at [of L c ch _ j]) (simp_all add: s9_def s10_def)
  moreover have "(task_of s ch)\<lparr>dir_pages_baseAddr := dir_addr L ch\<rparr> = task_of s ch"
    using dir by (intro task_struct.equality) simp_all
  then have "fork_child L s (task s ch) ch j (ticks_at s (tsc_pos s)) = (task s ch)\<lparr>
      stack := (stack (task s ch))(Suc j := ret_from_fork_addr L, j := 0),
      pcb := (task_of s ch)\<lparr>PID := ?pid, kernel_esp := elem_addr (task_base L) ch j, t_state := ST_READY,
       statics := (statics (task_of s ch))\<lparr>user_ticks := 0, system_ticks := 0, blocked_ticks := 0,
         elapsed_total_ticks := ticks_at s (tsc_pos s), total_trans := 0, remaining_ticks := 18\<rparr>\<rparr>\<rparr>"
    by (simp add: fork_child_def)
  then have "set_ini_stats ch s10 = Some s11"
    by (simp add: set_ini_stats_eq s10_def s11_def ticks_at_def)
  moreover obtain h where h: "list_add_tail (Ptr (TASK_LIST ch)) (Ptr READYQUEUE) (links s11) = Some h"
    "queues_are (s\<lparr>links := h\<rparr>) F (R @ [ch]) B"
    using add_tail_ok(2) [OF q] by (auto simp: s11_def)
  moreover define u where "u = (task s c)\<lparr>pcb := (task_of s c)\<lparr>statics := charge system_ticks_update (s11\<lparr>links := h\<rparr>) (statics (task_of s c))\<rparr>\<rparr>"
  have "current L (s11\<lparr>links := h\<rparr>) = Some c" using cur by (simp add: current_def s11_def)
  note act_ticks_kernel2user_eq [OF this]
  moreover have "upd_stats c (charge system_ticks_update (s11\<lparr>links := h\<rparr>)) (tick2 (s11\<lparr>links := h\<rparr>))
      = s\<lparr>links := h, PID_MAX := PID_MAX s + 1, tsc_pos := tsc_pos s + 3,
        task := (task s)(c := u, ch := fork_child L s (task s ch) ch j (ticks_at s (tsc_pos s)))\<rparr>"
    using L by (intro kernel.equality) (simp_all add: s11_def u_def fun_upd_twist [of c ch])
  ultimately show thesis
    using that [of h u] unfolding fork_finish_def Let_def by (simp add: u_def)
qed

lemma sys_fork_exec:
  assumes L: "layout_ok L" and k: "kinv L s c i (ch # F) R B" and ci: "c \<noteq> i" and cur: "current L s = Some c"
    and bp: "ebp (cpu s) = elem_addr (task_base L) c (Suc j)" "14 \<le> j" "Suc j < 1024"
  obtains ns m h u where
    "length ns = 20" "distinct ns" "set ns \<subseteq> free_frames s"
    "\<forall>n<81920. m (data_loc ((!) ns) n) = mem s (data_loc (data_frame s c) n)"
    "\<forall>a. a \<notin> data_loc ((!) ns) ` {..<81920} \<longrightarrow> m a = mem s a"
    "queues_are (s\<lparr>links := h\<rparr>) F (R @ [ch]) B"
    "pcb u = (task_of s c)\<lparr>statics := statics (pcb u)\<rparr>" "stack u = stack (task s c)"
    "sys_fork L s = Some (PID_MAX s + 1,
       (mark USED_FRAME (set ns) s)\<lparr>links := h, PID_MAX := PID_MAX s + 1,
         pagusr_table := fork_tables c ch ns (pagusr_table s), mem := m, tsc_pos := tsc_pos s + 5,
         task := (task s)(c := u, ch := fork_child L s (fork_parent s c) ch j (ticks_at s (tsc_pos s + 2)))\<rparr>)"
proof -
  have b: "c < 10" "ch < 10" "c \<noteq> ch" using kinv_bounds [OF k] kinvD(5) [OF k] by auto
  have cA: "c \<in> live i (ch # F)" "ch \<notin> live i (ch # F)" using live_tasks [OF k] ci by (auto simp: live_def)
  have ch_out: "ch \<notin> set F \<union> set R \<union> set B" by (rule pop_free_ok(3) [OF kinvD(1) [OF k]])
  obtain s1 h1 s2 h3 s3 where st: "act_ticks_user2kernel L s = Some s1" "list_empty (Ptr FREEQUEUE) (links s1) = Some False"
    "list_first (Ptr FREEQUEUE) (links s1) = Some (Ptr (TASK_LIST ch))"
    "on_links (list_del (Ptr (TASK_LIST ch))) s1 = Some (s1\<lparr>links := h1\<rparr>)"
    "current L (s1\<lparr>links := h1\<rparr>) = Some c" "copy_task_union c ch (s1\<lparr>links := h1\<rparr>) = s2"
    "get_PT L c s2 = Some (pt_addr L c)" "allocate_DIR L ch s2 = (1, s3)" "get_PT L ch s3 = Some (pt_addr L ch)"
    and q3: "queues_are s3 F R B"
    and s3: "s3 = s\<lparr>links := h3, tsc_pos := tsc_pos s + 2, task := (task s)(c := fork_parent s c,
        ch := (fork_parent s c)\<lparr>pcb := (pcb (fork_parent s c))\<lparr>dir_pages_baseAddr := dir_addr L ch\<rparr>\<rparr>)\<rparr>"
    by (rule fork_start [OF L k cur])
  have sel3: "free_frames s3 = free_frames s" "data_frame s3 = data_frame s" "mem s3 = mem s"
    "pagusr_table s3 = pagusr_table s"
    by (simp_all add: s3 free_frames_def data_frame_def fun_eq_iff)
  have m3: "mm_inv L s3 (live i (ch # F))"
    using kinvD(7) [OF k] cA by (subst mm_inv_cong [of s3 s]) (auto simp: s3 fork_parent_def)
  have cr: "cr3 s3 = dir_addr L c" using kinvD(9) [OF k] by (simp add: s3)
  have free3: "20 \<le> card (free_frames s3)" using kinv_frames [OF k] by (simp add: sel3)
  obtain ns m s4 s5 s6 s7 where ns: "length ns = 20" "distinct ns" "set ns \<subseteq> free_frames s3"
    and steps: "mfold (fork_code_page L (pt_addr L c) (pt_addr L ch)) [0..<8] s3 = Some s4"
    "fork_alloc 20 [] s4 = (Some (map of_nat ns), s5)"
    "mfold (fork_data_page L (pt_addr L c) (pt_addr L ch) (map of_nat ns)) [256..<276] s5 = Some s6"
    "copy_data (vread L) (vwrite L) 0x108000 0x11C000 81920 s6 = Some s7"
    "mfold (fork_unmap_page L (pt_addr L c)) [256..<276] s7
       = Some ((mark USED_FRAME (set ns) s3)\<lparr>pagusr_table := fork_tables c ch ns (pagusr_table s3), mem := m\<rparr>)"
    and m: "\<forall>n<81920. m (data_loc ((!) ns) n) = mem s3 (data_loc (data_frame s3 c) n)"
    "\<forall>a. a \<notin> data_loc ((!) ns) ` {..<81920} \<longrightarrow> m a = mem s3 a"
    by (rule fork_memory [OF L m3 cA b(2) cr free3])
  define s8 where "s8 = (mark USED_FRAME (set ns) s3)\<lparr>pagusr_table := fork_tables c ch ns (pagusr_table s3), mem := m\<rparr>"
  have sel8: "PID_MAX s8 = PID_MAX s" "cpu s8 = cpu s" "cr3 s8 = cr3 s" "links s8 = links s3" "task s8 = task s3"
    "tsc_pos s8 = tsc_pos s + 2" "tsc s8 = tsc s" by (simp_all add: s8_def s3 mark_def)
  have "ebp (cpu s8) = elem_addr (task_base L) c (Suc j)" "current L s8 = Some c" "queues_are s8 F R B"
    "cr3 s8 = dir_pages_baseAddr (task_of s8 c)" "dir_pages_baseAddr (task_of s8 ch) = dir_addr L ch"
    using bp(1) cur q3 kinv_dir [OF k, of c] kinvD(9) [OF k] b
    by (simp_all add: sel8 current_def queues_are_def s3 fork_parent_def)
  then obtain h u where h: "queues_are (s8\<lparr>links := h\<rparr>) F (R @ [ch]) B"
    and u: "pcb u = (task_of s8 c)\<lparr>statics := statics (pcb u)\<rparr>" "stack u = stack (task s8 c)"
    and f: "fork_finish L c ch s8 = Some (PID_MAX s8 + 1, s8\<lparr>links := h, PID_MAX := PID_MAX s8 + 1, tsc_pos := tsc_pos s8 + 3,
        task := (task s8)(c := u, ch := fork_child L s8 (task s8 ch) ch j (ticks_at s8 (tsc_pos s8)))\<rparr>)"
    using fork_finish_exec [OF L b, of s8 F R B j] ch_out bp(2,3) by metis
  have ch8: "fork_child L s8 (task s8 ch) ch j (ticks_at s8 (tsc_pos s8))
      = fork_child L s (fork_parent s c) ch j (ticks_at s (tsc_pos s + 2))"
    using b by (simp add: fork_child_def sel8 s3 ticks_at_def)
  have fin: "s8\<lparr>links := h, PID_MAX := PID_MAX s8 + 1, tsc_pos := tsc_pos s8 + 3,
        task := (task s8)(c := u, ch := fork_child L s8 (task s8 ch) ch j (ticks_at s8 (tsc_pos s8)))\<rparr>
    = (mark USED_FRAME (set ns) s)\<lparr>links := h, PID_MAX := PID_MAX s + 1,
         pagusr_table := fork_tables c ch ns (pagusr_table s), mem := m, tsc_pos := tsc_pos s + 5,
         task := (task s)(c := u, ch := fork_child L s (fork_parent s c) ch j (ticks_at s (tsc_pos s + 2)))\<rparr>"
    unfolding ch8 using b
    by (intro kernel.equality) (simp_all add: s8_def s3 mark_def fun_upd_twist [of c ch] cong: if_cong)
  have "sys_fork L s = fork_finish L c ch s8"
    unfolding sys_fork_def
    by (simp only: st list_head_to_task_struct.simps Let_def fork_sizes steps s8_def [symmetric]
        prod.case option.case Option.bind_lunit if_False simp_thms)
  moreover have "queues_are (s\<lparr>links := h\<rparr>) F (R @ [ch]) B" using h by (simp add: queues_are_def)
  moreover have "pcb u = (task_of s c)\<lparr>statics := statics (pcb u)\<rparr>" "stack u = stack (task s c)"
    using u b by (simp_all add: sel8 s3 fork_parent_def)
  ultimately show thesis
    using that [OF ns(1,2), of m h u] ns(3) m f [unfolded fin] unfolding sel8(1) sel3 by auto
qed

text \<open>The state a fork leaves, and that it is a good one.\<close>

definition forked :: "layout \<Rightarrow> kernel \<Rightarrow> nat \<Rightarrow> nat \<Rightarrow> nat \<Rightarrow> nat set \<Rightarrow> kernel \<Rightarrow> bool" where
  "forked L s c ch j A s' \<longleftrightarrow> fresh L s' ch (ret_from_fork_addr L) j
     \<and> (\<forall>k>Suc j. stack (task s' ch) k = stack (task s c) k)
     \<and> PID (task_of s' ch) = PID_MAX s + 1 \<and> PID_MAX s' = PID_MAX s + 1 \<and> cpu s' = cpu s
     \<and> stack (task s' c) = stack (task s c) \<and> PID (task_of s' c) = PID (task_of s c)
     \<and> (\<forall>t. t \<noteq> c \<longrightarrow> t \<noteq> ch \<longrightarrow> task s' t = task s t)
     \<and> (\<forall>n<81920. user_data s' ch n = user_data s c n)
     \<and> (\<forall>t\<in>A. \<forall>n<81920. user_data s' t n = user_data s t n)"

text \<open>What a fork does to the data of every process.\<close>

lemma fork_user_data:
  assumes mi: "mm_inv L s A" and c: "c \<in> A" "ch \<notin> A"
    and ns: "length ns = 20" "set ns \<subseteq> free_frames s"
    and m: "\<forall>n<81920. mem s' (data_loc ((!) ns) n) = mem s (data_loc (data_frame s c) n)"
    "\<forall>a. a \<notin> data_loc ((!) ns) ` {..<81920} \<longrightarrow> mem s' a = mem s a"
    and pt': "pagusr_table s' = fork_tables c ch ns (pagusr_table s)"
  shows "n < 81920 \<Longrightarrow> user_data s' ch n = user_data s c n"
    and "t \<in> A \<Longrightarrow> n < 81920 \<Longrightarrow> user_data s' t n = user_data s t n"
proof -
  have nsu: "set ns \<subseteq> set user_frames" using ns(2) by (auto simp: free_frames_def)
  have nb: "k < 20 \<Longrightarrow> ns ! k \<in> free_frames s \<and> ns ! k < 1024" for k
    using nth_in_superset [OF ns(2), of k] nth_in_superset [OF nsu, of k] ns(1) user_frames_bounds by auto
  {
    assume n: "n < 81920"
    then have "n div 4096 < 20" by (simp add: div_less_iff_less_mult)
    then have "data_loc (data_frame s' ch) n = data_loc ((!) ns) n"
      using data_frame_fork(1) [OF pt' ns(1) nsu] by (simp add: data_loc_def)
    then show "user_data s' ch n = user_data s c n" using m(1) n by (simp add: user_data_def)
  }
  assume t: "t \<in> A" and n: "n < 81920"
  have fb: "k < 20 \<Longrightarrow> data_frame s t k < 1024" for k
    using data_frame_bounds [OF mm_invD(3) [OF mi t]] by simp
  have "data_loc (data_frame s t) n \<notin> data_loc ((!) ns) ` {..<81920}"
  proof
    assume "data_loc (data_frame s t) n \<in> data_loc ((!) ns) ` {..<81920}"
    then obtain n' where n': "n' < 81920" "data_loc (data_frame s t) n = data_loc ((!) ns) n'" by auto
    then have "data_frame s t (n div 4096) = ns ! (n' div 4096)"
      using data_loc_inj [of "data_frame s t" "(!) ns" n n'] fb nb n by auto
    moreover have "ns ! (n' div 4096) \<in> free_frames s" "n div 4096 < 20"
      using nb n n'(1) by (auto simp: div_less_iff_less_mult)
    ultimately show False using t unfolding mm_invD(6) [OF mi] frames_of_def
      by (metis DiffD2 UN_I imageI lessThan_iff)
  qed
  moreover have "t \<noteq> ch" using t c by auto
  then have "data_frame s' t = data_frame s t" using data_frame_fork(2) [OF pt' ns(1) nsu] by (simp add: fun_eq_iff)
  ultimately show "user_data s' t n = user_data s t n" using m(2) by (simp add: user_data_def)
qed

lemma sys_fork_ok:
  assumes L: "layout_ok L" and k: "kinv L s c i (ch # F) R B" and ci: "c \<noteq> i" and cur: "current L s = Some c"
    and bp: "ebp (cpu s) = elem_addr (task_base L) c (Suc j)" "14 \<le> j" "Suc j < 1024"
  shows "\<exists>s'. sys_fork L s = Some (PID_MAX s + 1, s') \<and> kinv L s' c i F (R @ [ch]) B
    \<and> forked L s c ch j (live i (ch # F)) s'"
proof -
  obtain ns m h u where ns: "length ns = 20" "distinct ns" "set ns \<subseteq> free_frames s"
    and m: "\<forall>n<81920. m (data_loc ((!) ns) n) = mem s (data_loc (data_frame s c) n)"
    "\<forall>a. a \<notin> data_loc ((!) ns) ` {..<81920} \<longrightarrow> m a = mem s a"
    and q: "queues_are (s\<lparr>links := h\<rparr>) F (R @ [ch]) B"
    and u: "pcb u = (task_of s c)\<lparr>statics := statics (pcb u)\<rparr>" "stack u = stack (task s c)"
    and f: "sys_fork L s = Some (PID_MAX s + 1,
       (mark USED_FRAME (set ns) s)\<lparr>links := h, PID_MAX := PID_MAX s + 1,
         pagusr_table := fork_tables c ch ns (pagusr_table s), mem := m, tsc_pos := tsc_pos s + 5,
         task := (task s)(c := u, ch := fork_child L s (fork_parent s c) ch j (ticks_at s (tsc_pos s + 2)))\<rparr>)"
    by (rule sys_fork_exec [OF assms])
  define s' where "s' = (mark USED_FRAME (set ns) s)\<lparr>links := h, PID_MAX := PID_MAX s + 1,
         pagusr_table := fork_tables c ch ns (pagusr_table s), mem := m, tsc_pos := tsc_pos s + 5,
         task := (task s)(c := u, ch := fork_child L s (fork_parent s c) ch j (ticks_at s (tsc_pos s + 2)))\<rparr>"
  have b: "c < 10" "ch < 10" "c \<noteq> ch" "i \<noteq> ch" using kinv_bounds [OF k] kinvD(4,5) [OF k] by auto
  let ?A = "live i (ch # F)"
  have cA: "c \<in> ?A" "ch \<notin> ?A" using live_tasks [OF k] ci by (auto simp: live_def)
  have A': "live i F = insert ch ?A"
    using b queues_are_distinct(1) [OF kinvD(1) [OF k]] by (auto simp: live_def)
  have du: "dir_pages_baseAddr (pcb u) = dir_pages_baseAddr (task_of s c)" "PID (pcb u) = PID (task_of s c)"
    by (subst u(1), simp)+
  have task': "task s' t = task s t" if "t \<noteq> c" "t \<noteq> ch" for t using that by (simp add: s'_def)
  have pt': "pagusr_table s' = fork_tables c ch ns (pagusr_table s)" by (simp add: s'_def)
  have fr: "fresh L s' ch (ret_from_fork_addr L) j" using bp b by (simp add: fresh_def s'_def fork_child_def)
  have "mm_inv L s' (live i F)"
    unfolding A' by (rule mm_inv_fork [OF kinvD(7) [OF k] cA(1) cA(2) b(2) pt' ns])
      (use du b cA in \<open>auto simp: s'_def fork_child_def mark_def\<close>)
  moreover have "resumable L s' t" if t: "t \<in> insert i (set (R @ [ch]) \<union> set B)" "t \<noteq> c" for t
  proof (cases "t = ch")
    case True
    then show ?thesis using fr by (auto simp: resumable_def)
  next
    case False
    then show ?thesis using t kinvD(6) [OF k, of t] resumable_cong [OF task'] by auto
  qed
  moreover have "queues_are s' F (R @ [ch]) B" using q by (simp add: queues_are_def s'_def)
  moreover have "dir_pages_baseAddr (task_of s' i) = dir_addr L i" using kinvD(8) [OF k] task' [of i] ci b by simp
  ultimately have "kinv L s' c i F (R @ [ch]) B"
    using kinvD(2,3,4,5,9,10) [OF k] queues_are_distinct(1,4,5) [OF kinvD(1) [OF k]]
    unfolding kinv_def by (auto simp: s'_def mark_def)
  moreover have "mem s' = m" by (simp add: s'_def)
  then have "forked L s c ch j ?A s'"
    using fr b du u(2) fork_user_data [OF kinvD(7) [OF k] cA ns(1,3) _ _ pt'] m unfolding forked_def
    by (simp add: s'_def fork_child_def fork_parent_def mark_def)
  ultimately show ?thesis using f by (auto simp: s'_def)
qed

text \<open>No free task: the fork is refused and only the clock has moved.\<close>

lemma sys_fork_full:
  assumes k: "kinv L s c i [] R B" and cur: "current L s = Some c"
  shows "\<exists>s'. sys_fork L s = Some (- EAGAIN, s') \<and> kinv L s' c i [] R B \<and> mem s' = mem s
    \<and> pagusr_table s' = pagusr_table s \<and> phys_mem s' = phys_mem s \<and> PID_MAX s' = PID_MAX s
    \<and> (\<forall>t. PID (task_of s' t) = PID (task_of s t))"
proof -
  define s1 where "s1 = upd_stats c (charge user_ticks_update s) (tick2 s)"
  have k1: "kinv L s1 c i [] R B" unfolding s1_def by (rule kinv_stats [OF k])
  have cur1: "current L s1 = Some c" using cur by (simp add: s1_def current_def)
  have "sys_fork L s = Some (- EAGAIN, upd_stats c (charge system_ticks_update s1) (tick2 s1))"
    using free_empty_iff [OF kinvD(1) [OF k1]] act_ticks_user2kernel_eq [OF cur, folded s1_def]
    by (simp add: sys_fork_def act_ticks_kernel2user_eq [OF cur1])
  then show ?thesis using kinv_stats [OF k1] by (simp add: s1_def)
qed

end
