(* ===== verification/Kernel_Handlers.thy ===== *)
theory Kernel_Handlers
  imports Kernel_Fork
begin

text \<open>
  The other paths through the scheduler, for any policy that keeps the contract: leaving
  (\<^verbatim>\<open>sys_exit\<close>), blocking and unblocking (\<^verbatim>\<open>block_process\<close>, \<^verbatim>\<open>unblock_process\<close>).
  Each preserves the invariant, with the queues it leaves.
\<close>

section \<open>sys\_exit\<close>

context scheduling_policy
begin

lemma exit_ok:
  assumes L: "layout_ok L" and k: "kinv L s c i F R B" and ci: "c \<noteq> i" and room: "stack_room L s c"
  shows "\<exists>r s'. sys_exit L P s = Some (r, s') \<and> kinv L s' (next_task R i) i (F @ [c]) (tl R) B
    \<and> PID (task_of s' c) = - 1 \<and> (\<forall>t. t \<noteq> c \<longrightarrow> PID (task_of s' t) = PID (task_of s t))
    \<and> free_frames s' = free_frames s \<union> frames_of s c
    \<and> mem s' = mem s \<and> pagusr_table s' = pagusr_table s \<and> PID_MAX s' = PID_MAX s \<and> hands_over L s c (next_task R i) s'"
proof -
  have c: "c < 10" by (rule kinv_bounds(1) [OF k])
  have cA: "c \<in> live i F" using live_tasks [OF k] ci by auto
  have cur: "current L s = Some c" by (rule stack_room_current [OF L c room])
  define s1 where "s1 = upd_stats c (charge user_ticks_update s) (tick2 s)"
  note k1 = kinv_stats [OF k, where f = "charge user_ticks_update s" and n = "Suc (Suc (tsc_pos s))", folded s1_def]
  have cur1: "current L s1 = Some c" using cur by (simp add: s1_def current_def)
  have pt: "get_PT L c s1 = Some (pt_addr L c)"
    using kinv_dir [OF k1, of c] c by (intro get_PT_at [OF L mm_invD(1) [OF kinvD(7) [OF k1]]]) simp_all
  define s2 where "s2 = mark FREE_FRAME (frames_of s1 c) s1"
  have fr: "mfold (exit_free_page L (pt_addr L c)) [0..<20] s1 = Some s2"
    unfolding s2_def by (rule exit_free_pages [OF c mm_invD(3) [OF kinvD(7) [OF k1] cA]])
  define s3 where "s3 = upd_pcb c (\<lambda>p. p\<lparr>PID := - 1\<rparr>) s2"
  have q3: "queues_are s3 F R B" using kinvD(1) [OF k] by (simp add: s3_def s2_def s1_def queues_are_def)
  obtain h where h: "list_add_tail (Ptr (TASK_LIST c)) (Ptr FREEQUEUE) (links s3) = Some h"
    "queues_are (s3\<lparr>links := h\<rparr>) (F @ [c]) R B"
    using add_tail_ok(1) [OF q3 kinvD(5) [OF k]] by blast
  let ?s = "s3\<lparr>links := h\<rparr>"
  have "current L s3 = Some c" using cur1 by (simp add: s3_def s2_def current_def)
  note park = park_law [OF L this h(1)]
  have "live i (F @ [c]) = live i F - {c}" by (auto simp: live_def)
  moreover have "mm_inv L ?s (live i F - {c})"
    by (rule mm_inv_exit [OF kinvD(7) [OF k1] cA]) (auto simp: s3_def s2_def mark_def)
  ultimately have "parked L ?s c i (F @ [c]) R B"
    using ci kinvD(4,5) [OF k] by (intro parkedI [OF k room h(2)]) (auto simp: s3_def s2_def s1_def mark_def)
  from next_ok [OF L this] obtain r s' where s': "sched_next P ?s = Some (r, s')"
    "kinv L s' (next_task R i) i (F @ [c]) (tl R) B" "mem s' = mem ?s" "pagusr_table s' = pagusr_table ?s"
    "phys_mem s' = phys_mem ?s" "PID_MAX s' = PID_MAX ?s" "\<forall>t. PID (task_of s' t) = PID (task_of ?s t)"
    "hands_over L ?s c (next_task R i) s'" by blast
  have ho: "hands_over L s c (next_task R i) s'"
    using s'(8) by (subst hands_over_cong [of s ?s]) (simp_all add: s3_def s2_def s1_def mark_def)
  have "frames_of s1 c = frames_of s c" by (simp add: s1_def frames_of_def data_frame_def)
  moreover have "frames_of s c \<subseteq> set user_frames" using frames_of_sub [OF kinvD(7) [OF k]] cA by auto
  moreover have "phys_mem s' = phys_mem (mark 0 (frames_of s1 c) s)"
    using s'(5) by (simp add: s3_def s2_def s1_def fun_eq_iff)
  then have "free_frames s' = free_frames (mark 0 (frames_of s1 c) s)" unfolding free_frames_def by (simp only:)
  ultimately have "free_frames s' = free_frames s \<union> frames_of s c"
    using free_frames_mark_free [of "frames_of s c" s] by simp
  moreover have "sys_exit L P s = sched_next P ?s"
    using act_ticks_user2kernel_eq [OF cur, folded s1_def] cur1 pt fr park
    by (simp add: sys_exit_def s3_def)
  ultimately show ?thesis using s' ho by (auto simp: s3_def s2_def s1_def mark_def)
qed

section \<open>Blocking\<close>

lemma block_ok:
  assumes L: "layout_ok L" and k: "kinv L s c i F R B" and ci: "c \<noteq> i" and room: "stack_room L s c"
  shows "\<exists>r s'. block_process L P (Ptr CONSOLE_BLOCKED) s = Some (r, s')
    \<and> kinv L s' (next_task R i) i F (tl R) (B @ [c]) \<and> suspended L s' c (cpu s)
    \<and> (\<forall>t. PID (task_of s' t) = PID (task_of s t)) \<and> PID_MAX s' = PID_MAX s
    \<and> mem s' = mem s \<and> pagusr_table s' = pagusr_table s \<and> hands_over L s c (next_task R i) s'"
proof -
  have c: "c < 10" by (rule kinv_bounds(1) [OF k])
  have cur: "current L s = Some c" by (rule stack_room_current [OF L c room])
  obtain h where h: "list_add_tail (Ptr (TASK_LIST c)) (Ptr CONSOLE_BLOCKED) (links s) = Some h"
    "queues_are (s\<lparr>links := h\<rparr>) F R (B @ [c])"
    using add_tail_ok(3) [OF kinvD(1) [OF k] kinvD(5) [OF k]] by blast
  define s2 where "s2 = upd_pcb c (\<lambda>p. p\<lparr>statics := (statics p)\<lparr>system_ticks := ticks_at s (tsc_pos s)
       - elapsed_total_ticks (statics p), elapsed_total_ticks := ticks_at s (Suc (tsc_pos s))\<rparr>, t_state := ST_BLOCKED\<rparr>)
     (s\<lparr>links := h, tsc_pos := Suc (Suc (tsc_pos s))\<rparr>)"
  have "mm_inv L s2 (live i F)" using kinvD(7) [OF k] by (subst mm_inv_cong [of s2 s]) (auto simp: s2_def)
  moreover have "queues_are s2 F R (B @ [c])" using h(2) by (simp add: s2_def queues_are_def)
  ultimately have "parked L s2 c i F R (B @ [c])"
    using ci kinvD(4,5) [OF k] by (intro parkedI [OF k room]) (auto simp: s2_def)
  from next_ok [OF L this] obtain r s' where s': "sched_next P s2 = Some (r, s')"
    "kinv L s' (next_task R i) i F (tl R) (B @ [c])" "suspended L s' c (cpu s2)" "PID_MAX s' = PID_MAX s2"
    "\<forall>t. PID (task_of s' t) = PID (task_of s2 t)" "mem s' = mem s2" "pagusr_table s' = pagusr_table s2"
    "hands_over L s2 c (next_task R i) s'"
    by blast
  have "block_process L P (Ptr CONSOLE_BLOCKED) s = sched_next P s2"
    using cur park_law [OF L cur h(1)] by (simp add: block_process_def s2_def)
  moreover have "hands_over L s c (next_task R i) s'"
    using s'(8) by (subst hands_over_cong [of s s2]) (simp_all add: s2_def)
  ultimately show ?thesis using s' by (auto simp: s2_def)
qed

text \<open>
  Unblocking a task: it moves to the end of the ready queue, and if the policy wants to
  reschedule the running task goes behind it and the first ready task continues.
\<close>

lemma unblock_ok:
  assumes L: "layout_ok L" and k: "kinv L s c i F R (B1 @ t # B2)" and room: "stack_room L s c"
    and idle: "c = i \<Longrightarrow> needs_sched P s = 0"
  shows "\<exists>r s'. unblock_process L P t s = Some (r, s')
    \<and> (r = None \<longrightarrow> kinv L s' c i F (R @ [t]) (B1 @ B2) \<and> cpu s' = cpu s
         \<and> (\<forall>t. stack (task s' t) = stack (task s t) \<and> kernel_esp (task_of s' t) = kernel_esp (task_of s t)))
    \<and> (r \<noteq> None \<longrightarrow> kinv L s' (hd (R @ [t])) i F (tl (R @ [t]) @ [c]) (B1 @ B2) \<and> suspended L s' c (cpu s)
         \<and> hands_over L s c (hd (R @ [t])) s')
    \<and> (\<forall>t. PID (task_of s' t) = PID (task_of s t)) \<and> PID_MAX s' = PID_MAX s
    \<and> mem s' = mem s \<and> pagusr_table s' = pagusr_table s"
proof -
  have c: "c < 10" by (rule kinv_bounds(1) [OF k])
  have cur: "current L s = Some c" by (rule stack_room_current [OF L c room])
  obtain h1 where h1: "list_del (Ptr (TASK_LIST t)) (links s) = Some h1" "queues_are (s\<lparr>links := h1\<rparr>) F R (B1 @ B2)"
    using del_blocked_ok [OF kinvD(1) [OF k]] by blast
  have "t \<notin> set F \<union> set R \<union> set (B1 @ B2)"
    using queues_are_distinct(3,5,6) [OF kinvD(1) [OF k]] by auto
  from add_tail_ok(2) [OF h1(2) this] obtain h2
    where h2: "list_add_tail (Ptr (TASK_LIST t)) (Ptr READYQUEUE) h1 = Some h2"
      "queues_are (s\<lparr>links := h2\<rparr>) F (R @ [t]) (B1 @ B2)" by auto
  define s2 where "s2 = upd_pcb t (\<lambda>p. p\<lparr>statics := charge blocked_ticks_update s (statics p), t_state := ST_READY\<rparr>)
     (s\<lparr>links := h2, tsc_pos := Suc (Suc (tsc_pos s))\<rparr>)"
  have k2: "kinv L s2 c i F (R @ [t]) (B1 @ B2)"
    using h2(2) by (intro kinv_transfer [OF k]) (auto simp: s2_def queues_are_def)
  have room2: "stack_room L s2 c" and cur2: "current L s2 = Some c"
    using room cur by (simp_all add: s2_def stack_room_def current_def)
  have pid: "PID (task_of s2 t') = PID (task_of s t')" for t' by (simp add: s2_def)
  have u: "unblock_process L P t s = (if needs_sched P s2 \<noteq> 0
          then do { s \<leftarrow> update_current_state P (Ptr READYQUEUE) s2; (r, s) \<leftarrow> sched_next P s; Some (Some r, s) }
          else Some (None, s2))"
    using h1 h2 by (simp add: unblock_process_def get_task_list_def s2_def charge_eqs)
  show ?thesis
  proof (cases "needs_sched P s2 = 0")
    case True
    then show ?thesis using u k2 pid by (auto simp: s2_def)
  next
    case False
    then have ci: "c \<noteq> i" using idle needs_law [of s2 s] by (auto simp: s2_def)
    obtain h3 where h3: "list_add_tail (Ptr (TASK_LIST c)) (Ptr READYQUEUE) (links s2) = Some h3"
      "queues_are (s2\<lparr>links := h3\<rparr>) F ((R @ [t]) @ [c]) (B1 @ B2)"
      using add_tail_ok(2) [OF kinvD(1) [OF k2] kinvD(5) [OF k2]] by blast
    have "mm_inv L (s2\<lparr>links := h3\<rparr>) (live i F)"
      using kinvD(7) [OF k2] by (subst mm_inv_cong [of _ s2]) auto
    then have "parked L (s2\<lparr>links := h3\<rparr>) c i F ((R @ [t]) @ [c]) (B1 @ B2)"
      using ci kinvD(4,5) [OF k2] by (intro parkedI [OF k2 room2 h3(2)]) auto
    note next_ok [OF L this]
    moreover have "next_task ((R @ [t]) @ [c]) i = hd (R @ [t])" "tl ((R @ [t]) @ [c]) = tl (R @ [t]) @ [c]"
      by (cases R; simp add: next_task_def)+
    ultimately obtain r s' where s': "sched_next P (s2\<lparr>links := h3\<rparr>) = Some (r, s')"
      "kinv L s' (hd (R @ [t])) i F (tl (R @ [t]) @ [c]) (B1 @ B2)" "suspended L s' c (cpu s2)"
      "PID_MAX s' = PID_MAX s2" "\<forall>t. PID (task_of s' t) = PID (task_of s2 t)"
      "mem s' = mem s2" "pagusr_table s' = pagusr_table s2" "hands_over L (s2\<lparr>links := h3\<rparr>) c (hd (R @ [t])) s'"
      by auto
    have "hands_over L s c (hd (R @ [t])) s'"
      using s'(8) by (subst hands_over_cong [of s "s2\<lparr>links := h3\<rparr>"]) (simp_all add: s2_def)
    moreover
    have "unblock_process L P t s = Some (Some r, s')"
      using u False park_law [OF L cur2 h3(1)] s'(1) by simp
    ultimately show ?thesis using s' pid by (auto simp: s2_def)
  qed
qed

end

end
