(* ===== verification/Kernel_Interrupt.thy ===== *)
theory Kernel_Interrupt
  imports Kernel_Handlers
begin

text \<open>
  \<^verbatim>\<open>interrupt.c\<close> and the dispatch of \<^verbatim>\<open>entry.S\<close> and \<^verbatim>\<open>sys_call_table.S\<close>: the interrupt
  descriptor table, the keyboard and clock routines, and the system call entry with its
  range check and table.
\<close>

section \<open>The interrupt descriptor table\<close>

definition IDT_ENTRIES :: nat where [simp]: "IDT_ENTRIES = 256"

definition set_gate :: "nat \<Rightarrow> dword \<Rightarrow> hword \<Rightarrow> kernel \<Rightarrow> kernel option" where
  "set_gate vector handler flags s =
     (if vector < IDT_ENTRIES
      then Some (s\<lparr>idt := (idt s)(vector := \<lparr>g_lowOffset = lowWord handler, g_segmentSelector = KERNEL_CS,
             g_flags = flags, g_highOffset = highWord handler\<rparr>)\<rparr>)
      else None)"

definition setInterruptHandler :: "nat \<Rightarrow> dword \<Rightarrow> cint \<Rightarrow> kernel \<Rightarrow> kernel option" where
  "setInterruptHandler vector handler maxAccessibleFromPL s =
     set_gate vector handler (ucast (push_bit 13 maxAccessibleFromPL) OR 0x8E00) s"

definition setTrapHandler :: "nat \<Rightarrow> dword \<Rightarrow> cint \<Rightarrow> kernel \<Rightarrow> kernel option" where
  "setTrapHandler vector handler maxAccessibleFromPL s =
     set_gate vector handler (ucast (push_bit 13 maxAccessibleFromPL) OR 0x8E00) s"

text \<open>\<open>set_handlers\<close>, which fills in the exception vectors, is library code.\<close>

definition setIdt :: "layout \<Rightarrow> (kernel \<Rightarrow> kernel) \<Rightarrow> kernel \<Rightarrow> kernel option" where
  "setIdt L set_handlers s =
     do { let s = s\<lparr>idtR := \<lparr>r_limit = of_nat (IDT_ENTRIES * 8 - 1), r_base = idt_addr L\<rparr>\<rparr>;
          let s = set_handlers s;
          let s = set_idt_reg s;
          s \<leftarrow> setInterruptHandler 33 (keyboard_handler_addr L) 0 s;
          s \<leftarrow> setInterruptHandler 32 (clock_handler_addr L) 0 s;
          setTrapHandler 0x80 (system_call_handler_addr L) 3 s }"

section \<open>The keyboard\<close>

definition char_map :: "byte list" where
  "char_map =
     [0, 0, 49, 50, 51, 52, 53, 54, 55, 56, 57, 48, 39, 161, 0, 0,
      113, 119, 101, 114, 116, 121, 117, 105, 111, 112, 96, 43, 0, 0, 97, 115,
      100, 102, 103, 104, 106, 107, 108, 241, 0, 186, 0, 231, 122, 120, 99, 118,
      98, 110, 109, 44, 46, 45, 0, 42, 0, 0, 0, 0, 0, 0, 0, 0,
      0, 0, 0, 0, 0, 0, 0, 55, 56, 57, 45, 52, 53, 54, 43, 49,
      50, 51, 48, 0, 0, 0, 60, 0, 0, 0, 0, 0, 0, 0, 0, 0,
      0, 0]"

text \<open>
  \<open>key\<close> is the scan code the port gives.  Reading \<^verbatim>\<open>char_map\<close> beyond its end has no result.
\<close>

definition keyboard_routine :: "byte \<Rightarrow> kernel \<Rightarrow> (cint \<times> kernel) option" where
  "keyboard_routine key s =
     (let m = unat (key AND 0x7F)
      in if key AND 0x80 = 0
         then if m < length char_map
              then let t = char_map ! m; t = (if t = 0 then 0x43 else t)
                   in Some (1, s\<lparr>scr := printc_xy 0 0 t (scr s)\<rparr>)
              else None
         else Some (1, s))"

section \<open>The clock\<close>

text \<open>How a kernel entry ends: with a return value, or in another task.\<close>

datatype outcome = Return cint | Switched resumed

text \<open>
  What follows the call of \<^verbatim>\<open>sched_next\<close> in \<^verbatim>\<open>clock_routine\<close>, executed at once when no switch
  is needed and otherwise when the task is continued.  \<open>emul\<close> and \<open>show\<close> are
  \<^verbatim>\<open>zeos_update_read_console_emul\<close> and \<^verbatim>\<open>zeos_show_clock\<close> of the library.
\<close>

definition clock_routine_end :: "layout \<Rightarrow> (kernel \<Rightarrow> kernel option) \<Rightarrow> kernel \<Rightarrow> (outcome \<times> kernel) option" where
  "clock_routine_end L show_clock s =
     do { s \<leftarrow> show_clock s;
          s \<leftarrow> act_ticks_kernel2user L s;
          Some (Return 0, s) }"

definition clock_routine :: "layout \<Rightarrow> policy \<Rightarrow> (kernel \<Rightarrow> kernel option) \<Rightarrow> (kernel \<Rightarrow> kernel option)
    \<Rightarrow> kernel \<Rightarrow> (outcome \<times> kernel) option" where
  "clock_routine L P emul show_clock s =
     do { s \<leftarrow> act_ticks_user2kernel L s;
          let s = s\<lparr>zeos_ticks := zeos_ticks s + 1\<rparr>;
          s \<leftarrow> emul s;
          let s = update_sched_data P s;
          if needs_sched P s = 1
          then do { c \<leftarrow> current L s;
                    s \<leftarrow> (if PID (task_of s c) \<noteq> 0 then update_current_state P (Ptr READYQUEUE) s
                          else act_stats_surt_idle s);
                    (r, s) \<leftarrow> sched_next P s;
                    Some (Switched r, s) }
          else clock_routine_end L show_clock s }"

section \<open>System calls\<close>

datatype sys_call = SYS_NI | SYS_EXIT | SYS_FORK | SYS_READ | SYS_WRITE | SYS_GETTIME
  | SYS_SET_SCHED_POLICY | SYS_GETPID | SYS_GET_STATS

definition MAX_SYSCALL :: nat where [simp]: "MAX_SYSCALL = 40"

definition sys_call_table :: "sys_call list" where
  "sys_call_table =
     [SYS_NI, SYS_EXIT, SYS_FORK, SYS_READ, SYS_WRITE, SYS_NI, SYS_NI, SYS_NI, SYS_NI, SYS_NI,
      SYS_GETTIME, SYS_NI, SYS_NI, SYS_NI, SYS_NI, SYS_NI, SYS_NI, SYS_SET_SCHED_POLICY, SYS_NI, SYS_NI,
      SYS_GETPID, SYS_NI, SYS_NI, SYS_NI, SYS_NI, SYS_NI, SYS_NI, SYS_NI, SYS_NI, SYS_NI,
      SYS_NI, SYS_NI, SYS_NI, SYS_NI, SYS_NI, SYS_GET_STATS, SYS_NI, SYS_NI, SYS_NI, SYS_NI, SYS_NI]"

definition returning :: "(cint \<times> kernel) option \<Rightarrow> (outcome \<times> kernel) option" where
  "returning x = map_option (\<lambda>(v, s). (Return v, s)) x"

definition switching :: "(resumed \<times> kernel) option \<Rightarrow> (outcome \<times> kernel) option" where
  "switching x = map_option (\<lambda>(r, s). (Switched r, s)) x"

text \<open>
  \<open>a1\<close>, \<open>a2\<close>, \<open>a3\<close> are the words \<^verbatim>\<open>SAVE_ALL\<close> leaves where a C function expects its
  arguments, the user's \<^verbatim>\<open>ebx\<close>, \<^verbatim>\<open>ecx\<close>, \<^verbatim>\<open>edx\<close>.  \<open>lib_read\<close> and \<open>lib_policy\<close> are
  \<^verbatim>\<open>sys_read\<close> and \<^verbatim>\<open>sys_set_sched_policy\<close> of the library.
\<close>

definition system_call_handler :: "layout \<Rightarrow> policy
    \<Rightarrow> (dword \<Rightarrow> dword \<Rightarrow> dword \<Rightarrow> kernel \<Rightarrow> (outcome \<times> kernel) option)
    \<Rightarrow> (dword \<Rightarrow> dword \<Rightarrow> dword \<Rightarrow> kernel \<Rightarrow> (outcome \<times> kernel) option)
    \<Rightarrow> cint \<Rightarrow> dword \<Rightarrow> dword \<Rightarrow> dword \<Rightarrow> kernel \<Rightarrow> (outcome \<times> kernel) option" where
  "system_call_handler L P lib_read lib_policy eax a1 a2 a3 s =
     (if sint eax < 0 \<or> sint eax > int MAX_SYSCALL then Some (Return (- 38), s)
      else case sys_call_table ! unat eax of
          SYS_NI \<Rightarrow> Some (Return sys_ni_syscall, s)
        | SYS_EXIT \<Rightarrow> switching (sys_exit L P s)
        | SYS_FORK \<Rightarrow> returning (sys_fork L s)
        | SYS_READ \<Rightarrow> lib_read a1 a2 a3 s
        | SYS_WRITE \<Rightarrow> returning (sys_write L a1 a2 a3 s)
        | SYS_GETTIME \<Rightarrow> returning (sys_gettime L s)
        | SYS_SET_SCHED_POLICY \<Rightarrow> lib_policy a1 a2 a3 s
        | SYS_GETPID \<Rightarrow> returning (sys_getpid L s)
        | SYS_GET_STATS \<Rightarrow> returning (sys_get_stats L a1 a2 s))"

lemma length_sys_call_table: "length sys_call_table = Suc MAX_SYSCALL"
  by (simp add: sys_call_table_def)

section \<open>Gates\<close>

definition gate_offset :: "gate \<Rightarrow> dword" where
  "gate_offset g = push_bit 16 (ucast (g_highOffset g)) OR ucast (g_lowOffset g)"

definition gate_dpl :: "gate \<Rightarrow> nat" where
  "gate_dpl g = unat (drop_bit 13 (g_flags g) AND 3)"

lemma gate_halves: "push_bit 16 (ucast (highWord a)) OR ucast (lowWord a) = (a :: dword)"
proof -
  have m: "(0xFFFF :: dword) = mask 16" by (simp add: mask_eq_exp_minus_1)
  show ?thesis
    unfolding highWord_def lowWord_def m
    by (rule bit_eqI) (auto simp: bit_simps)
qed

lemma set_gate_offset:
  "set_gate v h f s = Some s' \<Longrightarrow> gate_offset (idt s' v) = h \<and> g_segmentSelector (idt s' v) = KERNEL_CS
     \<and> g_flags (idt s' v) = f \<and> (\<forall>v'. v' \<noteq> v \<longrightarrow> idt s' v' = idt s v')"
  by (auto simp: set_gate_def gate_offset_def gate_halves split: if_splits)

section \<open>The clock interrupt\<close>

text \<open>The two library routines of the clock only draw on the screen.\<close>

definition screen_only :: "(kernel \<Rightarrow> kernel option) \<Rightarrow> bool" where
  "screen_only f \<longleftrightarrow> (\<forall>s. \<exists>d. f s = Some (s\<lparr>scr := d\<rparr>))"

lemma kinv_scr:
  "kinv L (s\<lparr>scr := d\<rparr>) c i F R B = kinv L s c i F R B"
  "kinv L (s\<lparr>zeos_ticks := n\<rparr>) c i F R B = kinv L s c i F R B"
  "kinv L (s\<lparr>CPU_QUANTUM := q\<rparr>) c i F R B = kinv L s c i F R B"
  by (auto simp: kinv_def queues_are_def resumable_def suspended_def fresh_def mm_inv_def dirs_ok_def aspace_def
      free_frames_def frames_of_def data_frame_def)

text \<open>After the tick: the task that runs and the ready queue.\<close>

definition after_tick :: "nat \<Rightarrow> nat \<Rightarrow> nat list \<Rightarrow> nat \<times> nat list" where
  "after_tick c i R = (if c = i then (next_task R i, tl R) else (hd (R @ [c]), tl (R @ [c])))"

context scheduling_policy
begin

lemma clock_switch:
  assumes L: "layout_ok L" and k: "kinv L s c i F R B" and room: "stack_room L s c"
    and pid: "PID (task_of s c) = 0 \<longleftrightarrow> c = i"
  shows "\<exists>s1 r s'. (if PID (task_of s c) \<noteq> 0 then update_current_state P (Ptr READYQUEUE) s
                  else act_stats_surt_idle s) = Some s1
    \<and> sched_next P s1 = Some (r, s')
    \<and> kinv L s' (fst (after_tick c i R)) i F (snd (after_tick c i R)) B \<and> suspended L s' c (cpu s)
    \<and> zeos_ticks s' = zeos_ticks s \<and> PID_MAX s' = PID_MAX s \<and> (\<forall>t. PID (task_of s' t) = PID (task_of s t))
    \<and> mem s' = mem s \<and> pagusr_table s' = pagusr_table s \<and> hands_over L s c (fst (after_tick c i R)) s'"
proof -
  have c: "c < 10" by (rule kinv_bounds(1) [OF k])
  have cur: "current L s = Some c" by (rule stack_room_current [OF L c room])
  show ?thesis
  proof (cases "c = i")
    case True
    let ?s = "upd_stats c (charge system_ticks_update s) (tick2 s)"
    have "kinv L ?s c i F R B" by (rule kinv_stats [OF k])
    then have pk: "parked L ?s c i F R B"
      using True kinvD(3,4) [OF k] by (intro parkedI [OF k room]) (auto dest: kinvD(1) kinvD(7))
    have su: "act_stats_surt_idle s = Some ?s"
      using kinvD(2) [OF k] True by (simp add: act_stats_surt_idle_def charge_eqs)
    from next_ok [OF L pk] obtain r s' where s': "sched_next P ?s = Some (r, s')" "kinv L s' (next_task R i) i F (tl R) B"
      "suspended L s' c (cpu ?s)" "mem s' = mem ?s" "pagusr_table s' = pagusr_table ?s" "PID_MAX s' = PID_MAX ?s"
      "zeos_ticks s' = zeos_ticks ?s" "\<forall>t. PID (task_of s' t) = PID (task_of ?s t)" "hands_over L ?s c (next_task R i) s'" by blast
    have "hands_over L s c (next_task R i) s'" using s'(9) by (subst hands_over_cong [of s ?s]) simp_all
    then show ?thesis using su s' pid True by (intro exI [of _ ?s] exI [of _ r] exI [of _ s']) (simp add: after_tick_def)
  next
    case False
    obtain h where h: "list_add_tail (Ptr (TASK_LIST c)) (Ptr READYQUEUE) (links s) = Some h"
      "queues_are (s\<lparr>links := h\<rparr>) F (R @ [c]) B"
      using add_tail_ok(2) [OF kinvD(1) [OF k] kinvD(5) [OF k]] by blast
    have "mm_inv L (s\<lparr>links := h\<rparr>) (live i F)" using kinvD(7) [OF k] by (subst mm_inv_cong [of _ s]) auto
    then have pk: "parked L (s\<lparr>links := h\<rparr>) c i F (R @ [c]) B"
      using False kinvD(4,5) [OF k] by (intro parkedI [OF k room h(2)]) auto
    have nt: "next_task (R @ [c]) i = hd (R @ [c])" by (cases R) (auto simp: next_task_def)
    let ?s = "s\<lparr>links := h\<rparr>"
    from next_ok [OF L pk, unfolded nt] obtain r s' where s': "sched_next P ?s = Some (r, s')"
      "kinv L s' (hd (R @ [c])) i F (tl (R @ [c])) B"
      "suspended L s' c (cpu ?s)" "mem s' = mem ?s" "pagusr_table s' = pagusr_table ?s" "PID_MAX s' = PID_MAX ?s"
      "zeos_ticks s' = zeos_ticks ?s" "\<forall>t. PID (task_of s' t) = PID (task_of ?s t)" "hands_over L ?s c (hd (R @ [c])) s'" by blast
    have "hands_over L s c (hd (R @ [c])) s'" using s'(9) by (subst hands_over_cong [of s ?s]) simp_all
    then show ?thesis using park_law [OF L cur h(1)] s' pid False
      by (intro exI [of _ ?s] exI [of _ r] exI [of _ s']) (simp add: after_tick_def)
  qed
qed

lemma clock_ok:
  assumes L: "layout_ok L" and k: "kinv L s c i F R B" and room: "stack_room L s c"
    and pid: "PID (task_of s c) = 0 \<longleftrightarrow> c = i" and lib: "screen_only emul" "screen_only show_clock"
  shows "\<exists>out s'. clock_routine L P emul show_clock s = Some (out, s') \<and> zeos_ticks s' = zeos_ticks s + 1
    \<and> (if needs_sched P (update_sched_data P s) = 1
       then (\<exists>r. out = Switched r) \<and> kinv L s' (fst (after_tick c i R)) i F (snd (after_tick c i R)) B
          \<and> suspended L s' c (cpu s) \<and> hands_over L s c (fst (after_tick c i R)) s'
       else out = Return 0 \<and> kinv L s' c i F R B \<and> cpu s' = cpu s
          \<and> CPU_QUANTUM s' = CPU_QUANTUM (update_sched_data P s) \<and> (\<forall>t. stack (task s' t) = stack (task s t) \<and> kernel_esp (task_of s' t) = kernel_esp (task_of s t)))
    \<and> PID_MAX s' = PID_MAX s \<and> (\<forall>t. PID (task_of s' t) = PID (task_of s t))
    \<and> mem s' = mem s \<and> pagusr_table s' = pagusr_table s"
proof -
  have cur: "current L s = Some c" by (rule stack_room_current [OF L kinv_bounds(1) [OF k] room])
  define s1 where "s1 = upd_stats c (charge user_ticks_update s) (tick2 s)"
  have a: "act_ticks_user2kernel L s = Some s1" by (simp add: act_ticks_user2kernel_eq [OF cur] s1_def)
  obtain d where d: "emul (s1\<lparr>zeos_ticks := zeos_ticks s1 + 1\<rparr>) = Some (s1\<lparr>zeos_ticks := zeos_ticks s1 + 1, scr := d\<rparr>)"
    using lib(1) by (auto simp: screen_only_def)
  obtain g where g: "\<And>s. update_sched_data P s = s\<lparr>CPU_QUANTUM := g (CPU_QUANTUM s)\<rparr>" using data_law by blast
  define s2 where "s2 = s1\<lparr>zeos_ticks := zeos_ticks s1 + 1, scr := d, CPU_QUANTUM := g (CPU_QUANTUM s1)\<rparr>"
  have u: "update_sched_data P (s1\<lparr>zeos_ticks := zeos_ticks s1 + 1, scr := d\<rparr>) = s2" by (simp add: g s2_def)
  have n: "needs_sched P s2 = needs_sched P (update_sched_data P s)"
    by (rule needs_law) (simp add: g s2_def s1_def)
  have k2: "kinv L s2 c i F R B" unfolding s2_def s1_def kinv_scr by (rule kinv_stats [OF k])
  have sel: "cpu s2 = cpu s" "zeos_ticks s2 = zeos_ticks s + 1" "PID_MAX s2 = PID_MAX s"
    "\<And>t. PID (task_of s2 t) = PID (task_of s t)" "CPU_QUANTUM s2 = CPU_QUANTUM (update_sched_data P s)"
    by (simp_all add: g s2_def s1_def)
  have sel2: "mem s2 = mem s" "pagusr_table s2 = pagusr_table s" "\<And>t. stack (task s2 t) = stack (task s t)"
    "\<And>t. kernel_esp (task_of s2 t) = kernel_esp (task_of s t)"
    by (simp_all add: s2_def s1_def)
  have room2: "stack_room L s2 c" and cur2: "current L s2 = Some c"
    using room cur by (simp_all add: sel stack_room_def current_def)
  show ?thesis
  proof (cases "needs_sched P (update_sched_data P s) = 1")
    case True
    from clock_switch [OF L k2 room2] obtain s3 r s' where s':
      "(if PID (task_of s2 c) \<noteq> 0 then update_current_state P (Ptr READYQUEUE) s2 else act_stats_surt_idle s2) = Some s3"
      "sched_next P s3 = Some (r, s')" "kinv L s' (fst (after_tick c i R)) i F (snd (after_tick c i R)) B"
      "suspended L s' c (cpu s2)" "zeos_ticks s' = zeos_ticks s2" "PID_MAX s' = PID_MAX s2"
      "\<forall>t. PID (task_of s' t) = PID (task_of s2 t)" "mem s' = mem s2" "pagusr_table s' = pagusr_table s2"
      "hands_over L s2 c (fst (after_tick c i R)) s'" using pid sel by auto
    have "hands_over L s c (fst (after_tick c i R)) s'" using s'(10) by (subst hands_over_cong [of s s2]) (simp_all add: sel sel2)
    moreover
    have "clock_routine L P emul show_clock s = Some (Switched r, s')"
      using True n by (simp add: clock_routine_def a d u cur2 s')
    ultimately show ?thesis using True s' sel sel2 by auto
  next
    case False
    obtain d' where d': "show_clock s2 = Some (s2\<lparr>scr := d'\<rparr>)" using lib(2) by (auto simp: screen_only_def)
    let ?s = "s2\<lparr>scr := d'\<rparr>"
    have "current L ?s = Some c" using cur2 by (simp add: current_def)
    note act_ticks_kernel2user_eq [OF this]
    then have "clock_routine L P emul show_clock s
        = Some (Return 0, upd_stats c (charge system_ticks_update ?s) (tick2 ?s))"
      using False n by (simp add: clock_routine_def clock_routine_end_def a d u d')
    moreover have "kinv L ?s c i F R B" using k2 by (simp add: kinv_scr)
    from kinv_stats [OF this] have "kinv L (upd_stats c (charge system_ticks_update ?s) (tick2 ?s)) c i F R B" .
    ultimately show ?thesis using False sel sel2 by auto
  qed
qed

end

end
