(* ===== verification/Kernel_Boot.thy ===== *)
theory Kernel_Boot
  imports Kernel_Interrupt
begin

text \<open>
  \<^verbatim>\<open>system.c\<close>: the boot sequence \<^verbatim>\<open>main\<close>, from the first instruction of the kernel to the
  jump to user mode, and that it establishes the invariant: the idle task is \<^verbatim>\<open>task[9]\<close>, the
  first process \<^verbatim>\<open>task[8]\<close>, everything else is free, and the user image lies in the frames
  of the first process.
\<close>

section \<open>main\<close>

definition cstring :: "string \<Rightarrow> byte list" where
  "cstring cs = map (\<lambda>c. of_nat (of_char c)) cs @ [0]"

definition set_seg_regs :: "dword \<Rightarrow> kernel \<Rightarrow> kernel" where
  "set_seg_regs sp s = s\<lparr>cpu := (cpu s)\<lparr>esp := sp - 5 * 4\<rparr>\<rparr>"

definition printk_kernel :: "string \<Rightarrow> kernel \<Rightarrow> kernel option" where
  "printk_kernel m s = map_option (\<lambda>d. s\<lparr>scr := d\<rparr>) (printk (cstring m) (scr s))"

text \<open>A \<^verbatim>\<open>unsigned int\<close> read through a pointer: four bytes, the least significant first.\<close>

definition vread_dword :: "layout \<Rightarrow> dword \<Rightarrow> kernel \<Rightarrow> dword option" where
  "vread_dword L a s =
     do { b0 \<leftarrow> vread L a s; b1 \<leftarrow> vread L (a + 1) s; b2 \<leftarrow> vread L (a + 2) s; b3 \<leftarrow> vread L (a + 3) s;
          Some (ucast b0 OR push_bit 8 (ucast b1) OR push_bit 16 (ucast b2) OR push_bit 24 (ucast b3)) }"

definition p_sys_size :: dword where [simp]: "p_sys_size = KERNEL_START"
definition p_usr_size :: dword where [simp]: "p_usr_size = KERNEL_START + 4"
definition usr_main :: dword where [simp]: "usr_main = PH_USER_START"

text \<open>
  \<open>set_handlers\<close>, \<open>init_policy\<close> and \<open>console_init\<close> are \<^verbatim>\<open>set_handlers\<close>,
  \<^verbatim>\<open>init_sched_policy\<close> and \<^verbatim>\<open>zeos_console_init\<close> of the libraries.  This is the
  part of \<^verbatim>\<open>main\<close> that acts on the kernel's state; the flags, the segment registers, the
  interrupt mask and the return to user mode are in \<^verbatim>\<open>Kernel_Hardware\<close>, where \<open>kernel_main\<close>
  is the whole function.
\<close>

definition main_boot :: "layout \<Rightarrow> (kernel \<Rightarrow> kernel) \<Rightarrow> (kernel \<Rightarrow> kernel) \<Rightarrow> (kernel \<Rightarrow> kernel option)
    \<Rightarrow> kernel \<Rightarrow> kernel option" where
  "main_boot L set_handlers init_policy console_init s =
     do { let s = set_seg_regs (INITIAL_ESP L) s;
          s \<leftarrow> printk_kernel ''Kernel Loaded!    '' s;
          let s = setGdt L s;
          s \<leftarrow> setIdt L set_handlers s;
          let s = setTSS L s;
          let s = init_mm L s;
          s \<leftarrow> init_sched init_policy s;
          s \<leftarrow> init_idle L s;
          s \<leftarrow> init_task1 L s;
          s \<leftarrow> console_init s;
          sys_size \<leftarrow> vread_dword L p_sys_size s;
          usr_size \<leftarrow> vread_dword L p_usr_size s;
          s \<leftarrow> copy_data (vread L) (vwrite L) (KERNEL_START + sys_size) usr_main usr_size s;
          let s = s\<lparr>zeos_ticks := 0\<rparr>;
          printk_kernel ''Entering user mode...'' s }"

section \<open>Memory at boot\<close>

definition kernel_pte :: "nat \<Rightarrow> dword" where
  "kernel_pte p = set_present (set_rw (set_pbase_addr (of_nat p) 0))"

lemma fold_upd_pt:
  "distinct ps \<Longrightarrow> fold (\<lambda>p. upd_pt t p (f p)) ps s = s\<lparr>pagusr_table :=
     (pagusr_table s)(t := (\<lambda>p. if p \<in> set ps then f p (pagusr_table s t p) else pagusr_table s t p))\<rparr>"
proof (induction ps arbitrary: s)
  case (Cons a ps)
  then show ?case by (auto simp: upd_pt_def fun_eq_iff intro!: kernel.equality)
qed simp

definition boot_row :: "(nat \<Rightarrow> dword) \<Rightarrow> nat \<Rightarrow> dword" where
  "boot_row r p = (if p < 1024 then if 1 \<le> p \<and> p < 256 then kernel_pte p else 0 else r p)"

lemma boot_row_step:
  "fold (\<lambda>i. upd_pt j i (\<lambda>e. set_present (set_rw (set_pbase_addr (of_nat i) e)))) [1..<NUM_PAG_KERNEL]
     (fold (\<lambda>i. upd_pt j i (\<lambda>_. 0)) [0..<TOTAL_PAGES] s)
   = s\<lparr>pagusr_table := (pagusr_table s)(j := boot_row (pagusr_table s j))\<rparr>"
  unfolding fold_upd_pt [OF distinct_upt] set_upt
  by (rule kernel.equality) (auto simp: fun_eq_iff boot_row_def kernel_pte_def simp del: upt_Suc)

lemma fold_rows:
  "distinct js \<Longrightarrow> fold (\<lambda>j s. s\<lparr>pagusr_table := (pagusr_table s)(j := g (pagusr_table s j))\<rparr>) js s
     = s\<lparr>pagusr_table := (\<lambda>j. if j \<in> set js then g (pagusr_table s j) else pagusr_table s j)\<rparr>"
proof (induction js arbitrary: s)
  case (Cons a js)
  then show ?case by (auto simp: fun_eq_iff intro!: kernel.equality)
qed simp

lemma init_table_pages_eq:
  "init_table_pages s = s\<lparr>pagusr_table := (\<lambda>t. if t < 10 then boot_row (pagusr_table s t) else pagusr_table s t)\<rparr>"
  unfolding init_table_pages_def Let_def boot_row_step fold_rows [OF distinct_upt] set_upt by simp

lemma fold_frames:
  "fold (\<lambda>i s. s\<lparr>phys_mem := (phys_mem s)(i := v)\<rparr>) is s = mark v (set is) s"
  by (induction "is" arbitrary: s) (simp_all add: phys_mem_mark insert_commute Un_commute)

definition boot_frames :: "(nat \<Rightarrow> byte) \<Rightarrow> nat \<Rightarrow> byte" where
  "boot_frames ph f = (if f < 256 then USED_FRAME else if f < 1024 then FREE_FRAME else ph f)"

lemma init_frames_eq: "init_frames s = (0, s\<lparr>phys_mem := boot_frames (phys_mem s)\<rparr>)"
  unfolding init_frames_def fold_frames Let_def set_upt
  by (auto simp: mark_def boot_frames_def fun_eq_iff intro!: kernel.equality)

lemma init_dir_pages_eq: "\<exists>d. init_dir_pages L s = s\<lparr>dir_pages := d\<rparr>"
proof -
  have "\<exists>d. fold (\<lambda>i s. s\<lparr>dir_pages := (dir_pages s)(i := (dir_pages s i)(0 := v i))\<rparr>) xs s = s\<lparr>dir_pages := d\<rparr>"
    for xs :: "nat list" and v and s :: kernel
  proof (induction xs arbitrary: s)
    case Nil
    then show ?case by (auto intro: exI [of _ "dir_pages s"])
  next
    case (Cons x xs)
    from Cons.IH [of "s\<lparr>dir_pages := (dir_pages s)(x := (dir_pages s x)(0 := v x))\<rparr>"] show ?case by (simp add: fun_upd_def)
  qed
  then show ?thesis unfolding init_dir_pages_def ENTRY_DIR_PAGES_def .
qed

lemma init_mm_ok:
  "\<exists>d w. init_mm L s = s\<lparr>pagusr_table := (\<lambda>t. if t < 10 then boot_row (pagusr_table s t) else pagusr_table s t),
       phys_mem := boot_frames (phys_mem s), dir_pages := d,
       task := (task s)(0 := (task s 0)\<lparr>pcb := (task_of s 0)\<lparr>dir_pages_baseAddr := dir_addr L 0\<rparr>\<rparr>),
       cr3 := dir_addr L 0, cr0 := w\<rparr>
     \<and> dirs_ok L (init_mm L s)"
proof -
  let ?s1 = "(init_table_pages s)\<lparr>phys_mem := boot_frames (phys_mem s)\<rparr>"
  obtain d where d: "init_dir_pages L ?s1 = ?s1\<lparr>dir_pages := d\<rparr>" using init_dir_pages_eq by blast
  have "init_mm L s = set_pe_flag (set_cr3 (dir_addr L 0)
      (upd_pcb 0 (\<lambda>p. p\<lparr>dir_pages_baseAddr := dir_addr L 0\<rparr>) (?s1\<lparr>dir_pages := d\<rparr>)))"
    by (simp add: init_mm_def init_frames_eq init_table_pages_eq d [unfolded init_table_pages_eq] allocate_DIR_at get_DIR_def)
  moreover have "dirs_ok L (?s1\<lparr>dir_pages := d\<rparr>)" using init_dir_pages_ok [of L ?s1] d by simp
  ultimately show ?thesis
    by (intro exI [of _ d] exI [of _ "cr0 s OR 0x80000000"])
      (simp add: set_pe_flag_def set_cr3_def init_table_pages_eq dirs_ok_def)
qed

section \<open>Queues at boot\<close>

lemma queues_new_head:
  assumes Q: "lq.queues h H Q" and q: "q \<notin> H" "q \<notin> lq.members H Q"
  shows "\<exists>h'. INIT_LIST_HEAD (Ptr q) h = Some h' \<and> lq.queues h' (insert q H) (Q(q := []))"
proof -
  obtain h' where h': "INIT_LIST_HEAD (Ptr q) h = Some h'" "dlist h' q []" "\<And>z. z \<noteq> q \<Longrightarrow> h' z = h z"
    using INIT_LIST_HEAD_dlist [of q h] by auto
  have "dlist h' q' (Q q')" if "q' \<in> H" for q'
    using lq.queues_rep [OF Q that] by (rule dlist_frame) (rule h'(3), use q that in \<open>auto simp: lq.members_def\<close>)
  then have "lq.queues h' (insert q H) (Q(q := []))"
    using Q q h'(2) by (auto simp: lq.queues_def lq.members_def)
  then show ?thesis using h'(1) by blast
qed

abbreviation H2 :: "node set" where "H2 \<equiv> {FREEQUEUE, READYQUEUE}"

text \<open>The two queues the kernel initialises itself: free tasks \<open>F\<close>, none ready.\<close>

definition boot_queues :: "nat list \<Rightarrow> node \<Rightarrow> node list" where
  "boot_queues F q = (if q = FREEQUEUE then map TASK_LIST F else [])"

lemma boot_queues_upd: "(boot_queues F)(FREEQUEUE := map TASK_LIST F') = boot_queues F'"
  by (auto simp: boot_queues_def fun_eq_iff)

lemma boot_members: "TASK_LIST t \<in> lq.members H2 (boot_queues F) \<longleftrightarrow> t \<in> set F"
  by (auto simp: lq.members_def boot_queues_def)

lemma init_sched_ok:
  "\<exists>h. init_sched (\<lambda>s. s) s = Some (s\<lparr>act_t := 0, links := h,
      task := (\<lambda>t. if t < 10 then (task s t)\<lparr>pcb := (task_of s t)\<lparr>PID := - 1\<rparr>\<rparr> else task s t)\<rparr>)
    \<and> lq.queues h H2 (boot_queues [9, 8, 7, 6, 5, 4, 3, 2, 1, 0])"
proof -
  have "lq.queues (links s) {} (\<lambda>_. [])" by (simp add: lq.queues_def)
  from queues_new_head [OF this, of FREEQUEUE] obtain h1
    where h1: "INIT_LIST_HEAD (Ptr FREEQUEUE) (links s) = Some h1" "lq.queues h1 {FREEQUEUE} (\<lambda>_. [])"
    by (auto simp: lq.members_def fun_upd_def)
  from queues_new_head [OF this(2), of READYQUEUE] obtain h2
    where h2: "INIT_LIST_HEAD (Ptr READYQUEUE) h1 = Some h2" "lq.queues h2 {READYQUEUE, FREEQUEUE} (\<lambda>_. [])"
    by (auto simp: lq.members_def fun_upd_def)
  let ?tasks = "\<lambda>k t. if t < k then (task s t)\<lparr>pcb := (task_of s t)\<lparr>PID := - 1\<rparr>\<rparr> else task s t"
  let ?body = "\<lambda>i s. do { let s = upd_pcb i (\<lambda>p. p\<lparr>PID := - 1\<rparr>) s;
                          on_links (list_add (Ptr (TASK_LIST i)) (Ptr FREEQUEUE)) s }"
  let ?s2 = "s\<lparr>act_t := 0, links := h2\<rparr>"
  have e: "boot_queues [] = (\<lambda>_. [])" by (simp add: boot_queues_def fun_eq_iff)
  have "\<exists>s'. mfold ?body [0..<10] ?s2 = Some s' \<and> (\<exists>h. s' = s\<lparr>act_t := 0, links := h, task := ?tasks 10\<rparr>
      \<and> lq.queues h H2 (boot_queues (rev [0..<10])))"
  proof (rule mfold_upt_rule [where I = "\<lambda>k s'. \<exists>h. s' = s\<lparr>act_t := 0, links := h, task := ?tasks k\<rparr>
      \<and> lq.queues h H2 (boot_queues (rev [0..<k]))"])
    show "\<exists>h. ?s2 = s\<lparr>act_t := 0, links := h, task := ?tasks 0\<rparr> \<and> lq.queues h H2 (boot_queues (rev [0..<0]))"
      using h2(2) e by (intro exI [of _ h2]) (simp add: insert_commute)
    fix k s' assume k: "k < (10 :: nat)" and I: "\<exists>h. s' = s\<lparr>act_t := 0, links := h, task := ?tasks k\<rparr>
      \<and> lq.queues h H2 (boot_queues (rev [0..<k]))"
    then obtain h where h: "s' = s\<lparr>act_t := 0, links := h, task := ?tasks k\<rparr>" "lq.queues h H2 (boot_queues (rev [0..<k]))"
      by blast
    have "TASK_LIST k \<notin> lq.members H2 (boot_queues (rev [0..<k]))" by (simp add: boot_members)
    then obtain h' where h': "list_add (Ptr (TASK_LIST k)) (Ptr FREEQUEUE) h = Some h'"
      "lq.queues h' H2 (boot_queues (rev [0..<Suc k]))"
      using lq.queues_add [OF h(2), of FREEQUEUE "TASK_LIST k"] boot_queues_upd [of "rev [0..<k]" "k # rev [0..<k]"]
      by (auto simp: boot_queues_def)
    have "(?tasks k)(k := (task s k)\<lparr>pcb := (task_of s k)\<lparr>PID := - 1\<rparr>\<rparr>) = ?tasks (Suc k)"
      by (auto simp: fun_eq_iff)
    then have "?body k s' = Some (s\<lparr>act_t := 0, links := h', task := ?tasks (Suc k)\<rparr>)"
      using h'(1) by (simp add: h(1))
    then show "\<exists>s''. ?body k s' = Some s'' \<and> (\<exists>h. s'' = s\<lparr>act_t := 0, links := h, task := ?tasks (Suc k)\<rparr>
      \<and> lq.queues h H2 (boot_queues (rev [0..<Suc k])))" using h'(2) by blast
  qed simp
  then obtain h where h: "mfold ?body [0..<10] ?s2 = Some (s\<lparr>act_t := 0, links := h, task := ?tasks 10\<rparr>)"
    "lq.queues h H2 (boot_queues (rev [0..<10]))" by blast
  moreover have "rev [0..<10] = [9, 8, 7, 6, 5, 4, 3, 2, 1, 0 :: nat]" by (simp add: upt_rec)
  moreover have "init_sched (\<lambda>s. s) s = mfold ?body [0..<10] ?s2"
    using h1(1) h2(1) unfolding init_sched_def by (simp del: mfold.simps upt_rec_numeral)
  ultimately show ?thesis by auto
qed

section \<open>The first address space\<close>

definition code_pte :: "dword \<Rightarrow> dword" where
  "code_pte f = set_present (set_user (set_pbase_addr f 0))"

lemma bit_code_pte [simp]: "bit (code_pte f) 0" "bit (code_pte f) 2"
  by (simp_all add: code_pte_def pte_defs bit_simps)

lemma pbase_code_pte [simp]: "f < 0x100000 \<Longrightarrow> pbase_addr (code_pte f) = f"
  by (auto simp: code_pte_def pte_defs or.assoc small_low_bits drop_push_12)

lemma alloc_frame_next:
  assumes f: "free_frames s = set user_frames" and k: "k < 384"
  shows "alloc_frame (mark USED_FRAME (code_frame ` {..<k}) s) = (of_nat (code_frame k), mark USED_FRAME (code_frame ` {..<Suc k}) s)"
proof -
  let ?s = "mark USED_FRAME (code_frame ` {..<k}) s"
  have ff: "free_frames ?s = code_frame ` {k..<384}"
  proof -
    have "set user_frames = code_frame ` {..<384}" by (auto simp: user_frames_def code_frame_def)
    moreover have "inj code_frame" by (simp add: inj_def code_frame_def)
    ultimately show ?thesis using f k
      by (simp add: free_frames_mark_used image_set_diff [symmetric] lessThan_minus_lessThan)
  qed
  then have "free_frames ?s \<noteq> {}" using k by simp
  then obtain g where g: "g \<in> free_frames ?s" "\<forall>x\<in>free_frames ?s. g \<le> x"
    "alloc_frame ?s = (of_nat g, ?s\<lparr>phys_mem := (phys_mem ?s)(g := USED_FRAME)\<rparr>)" by (rule alloc_frame_ok)
  obtain m where "g = code_frame m" "k \<le> m" using g(1) unfolding ff by auto
  moreover have "g \<le> code_frame k" using g(2) k unfolding ff by auto
  ultimately have "g = code_frame k" by (simp add: code_frame_def)
  then show ?thesis using g(3) by (simp only: phys_mem_mark mark_mark) (simp add: lessThan_Suc)
qed

lemma code_frame_lt: "k < 28 \<Longrightarrow> (of_nat (code_frame k) :: dword) < 0x100000"
  by (simp add: code_frame_def del: of_nat_add of_nat_mult)

lemma mark_pt: "mark v F (s\<lparr>pagusr_table := p\<rparr>) = (mark v F s)\<lparr>pagusr_table := p\<rparr>"
  by (simp add: mark_def cong: if_cong)

lemma code_pages_at_boot:
  assumes f: "free_frames s = set user_frames" and t: "t < 10"
  shows "mfold (set_user_code_page L (pt_addr L t)) [0..<8] s = Some ((mark USED_FRAME (code_frame ` {..<8}) s)
    \<lparr>pagusr_table := set_row t 256 264 (\<lambda>p. code_pte (of_nat (code_frame (p - 256)))) (pagusr_table s)\<rparr>)"
proof -
  let ?g = "\<lambda>p. code_pte (of_nat (code_frame (p - 256)))"
  let ?st = "\<lambda>k. (mark USED_FRAME (code_frame ` {..<k}) s)\<lparr>pagusr_table := set_row t 256 (256 + k) ?g (pagusr_table s)\<rparr>"
  have "\<exists>s'. mfold (set_user_code_page L (pt_addr L t)) [0..<8] s = Some s' \<and> s' = ?st 8"
  proof (rule mfold_upt_rule [where I = "\<lambda>k s'. s' = ?st k"])
    fix k s' assume k: "k < (8 :: nat)" and s': "s' = ?st k"
    let ?s2 = "(mark USED_FRAME (code_frame ` {..<Suc k}) s)\<lparr>pagusr_table := set_row t 256 (256 + k) ?g (pagusr_table s)\<rparr>"
    have "alloc_frame s' = (of_nat (code_frame k), ?s2)"
      using alloc_frame_next [of "s\<lparr>pagusr_table := set_row t 256 (256 + k) ?g (pagusr_table s)\<rparr>" k] f k
      by (simp add: s' mark_pt free_frames_def)
    moreover have "write_pte L (pt_addr L t) (of_nat (256 + k)) g x = Some (upd_pt t (256 + k) g x)" for g x
      using t k by (intro write_pte_at) auto
    moreover have "upd_pt t (256 + k) (\<lambda>_. ?g (256 + k)) ?s2 = ?st (Suc k)"
      using set_row_Suc [of 256 "256 + k" t ?g "pagusr_table s"] by (simp add: upd_pt_const)
    ultimately show "\<exists>s''. set_user_code_page L (pt_addr L t) k s' = Some s'' \<and> s'' = ?st (Suc k)"
      by (simp add: set_user_code_page_def comp_def code_pte_def)
  qed simp_all
  then show ?thesis by simp
qed

lemma data_pages_at_boot:
  assumes f: "free_frames s = set user_frames" and t: "t < 10"
  shows "mfold (set_user_data_page L (pt_addr L t)) [0..<20] (mark USED_FRAME (code_frame ` {..<8}) s)
    = Some ((mark USED_FRAME (code_frame ` {..<28}) s)
    \<lparr>pagusr_table := set_row t 264 284 (\<lambda>p. user_pte (of_nat (code_frame (p - 256)))) (pagusr_table s)\<rparr>)"
proof -
  let ?g = "\<lambda>p. user_pte (of_nat (code_frame (p - 256)))"
  let ?st = "\<lambda>k. (mark USED_FRAME (code_frame ` {..<8 + k}) s)\<lparr>pagusr_table := set_row t 264 (264 + k) ?g (pagusr_table s)\<rparr>"
  have "\<exists>s'. mfold (set_user_data_page L (pt_addr L t)) [0..<20] (mark USED_FRAME (code_frame ` {..<8}) s) = Some s' \<and> s' = ?st 20"
  proof (rule mfold_upt_rule [where I = "\<lambda>k s'. s' = ?st k"])
    fix k s' assume k: "k < (20 :: nat)" and s': "s' = ?st k"
    let ?s2 = "(mark USED_FRAME (code_frame ` {..<Suc (8 + k)}) s)\<lparr>pagusr_table := set_row t 264 (264 + k) ?g (pagusr_table s)\<rparr>"
    have "alloc_frame s' = (of_nat (code_frame (8 + k)), ?s2)"
      using alloc_frame_next [of "s\<lparr>pagusr_table := set_row t 264 (264 + k) ?g (pagusr_table s)\<rparr>" "8 + k"] f k
      by (simp add: s' mark_pt free_frames_def)
    moreover have "write_pte L (pt_addr L t) (of_nat (264 + k)) g x = Some (upd_pt t (264 + k) g x)" for g x
      using t k by (intro write_pte_at) auto
    moreover have "upd_pt t (264 + k) (\<lambda>_. ?g (264 + k)) ?s2 = ?st (Suc k)"
      using set_row_Suc [of 264 "264 + k" t ?g "pagusr_table s"] by (simp add: upd_pt_const)
    ultimately show "\<exists>s''. set_user_data_page L (pt_addr L t) k s' = Some s'' \<and> s'' = ?st (Suc k)"
      by (simp add: set_user_data_page_def comp_def user_pte_def)
  qed (simp_all add: mark_def)
  then show ?thesis by simp
qed

lemma set_user_pages_at_boot:
  assumes f: "free_frames s = set user_frames" and t: "t < 10" and pt: "get_PT L t s = Some (pt_addr L t)"
  shows "set_user_pages L t s = Some ((mark USED_FRAME (code_frame ` {..<28}) s)\<lparr>pagusr_table :=
     set_row t 264 284 (\<lambda>p. user_pte (of_nat (code_frame (p - 256))))
      (set_row t 256 264 (\<lambda>p. code_pte (of_nat (code_frame (p - 256)))) (pagusr_table s))\<rparr>)"
proof -
  let ?s = "s\<lparr>pagusr_table := set_row t 256 264 (\<lambda>p. code_pte (of_nat (code_frame (p - 256)))) (pagusr_table s)\<rparr>"
  have "free_frames ?s = set user_frames" using f by (simp add: free_frames_def)
  from data_pages_at_boot [OF this t, of L]
  show ?thesis
    unfolding set_user_pages_def pt using code_pages_at_boot [OF f t, of L] by (simp add: mark_pt)
qed

section \<open>The first two tasks\<close>

lemma boot_pop:
  assumes "lq.queues h H2 (boot_queues (t # F))"
  shows "list_first (Ptr FREEQUEUE) h = Some (Ptr (TASK_LIST t))"
    and "\<exists>h'. list_del (Ptr (TASK_LIST t)) h = Some h' \<and> lq.queues h' H2 (boot_queues F)"
proof -
  have "boot_queues (t # F) FREEQUEUE = TASK_LIST t # map TASK_LIST F" by (simp add: boot_queues_def)
  note * = lq.queues_pop [OF assms _ this, simplified boot_queues_upd]
  show "list_first (Ptr FREEQUEUE) h = Some (Ptr (TASK_LIST t))" using * by (simp add: list_first_of_entry)
  show "\<exists>h'. list_del (Ptr (TASK_LIST t)) h = Some h' \<and> lq.queues h' H2 (boot_queues F)" using * by simp
qed

lemma init_idle_ok:
  assumes q: "lq.queues (links s) H2 (boot_queues (i # F))" and i: "i < 10"
  shows "\<exists>h u. init_idle L s = Some (s\<lparr>links := h, idle_task := Some i, tsc_pos := Suc (tsc_pos s), task := (task s)(i := u)\<rparr>)
    \<and> lq.queues h H2 (boot_queues F) \<and> PID (pcb u) = 0 \<and> dir_pages_baseAddr (pcb u) = dir_addr L i
    \<and> kernel_esp (pcb u) = elem_addr (task_base L) i 1022 \<and> stack u 1022 = 0 \<and> stack u 1023 = cpu_idle_addr L"
proof -
  obtain h where h: "list_del (Ptr (TASK_LIST i)) (links s) = Some h" "lq.queues h H2 (boot_queues F)"
    using boot_pop(2) [OF q] by blast
  have ke: "KERNEL_ESP L i - 8 = elem_addr (task_base L) i 1022"
    by (simp add: KERNEL_ESP_def task_addr_def elem_addr_def)
  define u where "u = (task s i)\<lparr>stack := (stack (task s i))(1023 := cpu_idle_addr L, 1022 := 0),
     pcb := (task_of s i)\<lparr>PID := 0, kernel_esp := KERNEL_ESP L i - 8, dir_pages_baseAddr := dir_addr L i,
       t_state := ST_READY, statics := (statics (task_of s i))\<lparr>user_ticks := 0,
      system_ticks := 0, blocked_ticks := 0, elapsed_total_ticks := ticks_at s (tsc_pos s), total_trans := 0,
      remaining_ticks := 18\<rparr>\<rparr>\<rparr>"
  have ord: "s\<lparr>links := h, idle_task := Some i, task := ta, tsc_pos := n\<rparr>
      = s\<lparr>links := h, idle_task := Some i, tsc_pos := n, task := ta\<rparr>" for ta n by simp
  have "init_idle L s = Some (s\<lparr>links := h, idle_task := Some i, tsc_pos := Suc (tsc_pos s), task := (task s)(i := u)\<rparr>)"
    using i by (simp add: init_idle_def boot_pop(1) [OF q] h allocate_DIR_at set_stack_word_def set_ini_stats_eq ord u_def ticks_at_def)
  then show ?thesis using h(2) ke
    by (intro exI [of _ h] exI [of _ u]) (simp add: u_def)
qed

lemma init_task1_ok:
  assumes L: "layout_ok L" and q: "lq.queues (links s) H2 (boot_queues (t # F))" and t: "t < 10"
    and f: "free_frames s = set user_frames" and d: "dirs_ok L s"
  shows "\<exists>h u. init_task1 L s = Some ((mark USED_FRAME (code_frame ` {..<28}) s)\<lparr>links := h, init_task := Some t,
      pagusr_table := set_row t 264 284 (\<lambda>p. user_pte (of_nat (code_frame (p - 256))))
        (set_row t 256 264 (\<lambda>p. code_pte (of_nat (code_frame (p - 256)))) (pagusr_table s)),
      tss := (tss s)\<lparr>tss_esp0 := KERNEL_ESP L t\<rparr>, cr3 := dir_addr L t,
      tsc_pos := Suc (tsc_pos s), task := (task s)(t := u)\<rparr>)
    \<and> lq.queues h H2 (boot_queues F) \<and> PID (pcb u) = 1 \<and> dir_pages_baseAddr (pcb u) = dir_addr L t
    \<and> quantum (pcb u) = INITIAL_QUANTUM \<and> t_state (pcb u) = ST_RUN"
proof -
  obtain h where h: "list_del (Ptr (TASK_LIST t)) (links s) = Some h" "lq.queues h H2 (boot_queues F)"
    using boot_pop(2) [OF q] by blast
  define s1 where "s1 = s\<lparr>links := h, init_task := Some t, task := (task s)(t := (task s t)\<lparr>pcb := (task_of s t)
     \<lparr>PID := 1, kernel_esp := KERNEL_ESP L t, dir_pages_baseAddr := dir_addr L t\<rparr>\<rparr>)\<rparr>"
  have "free_frames s1 = set user_frames" using f by (simp add: s1_def free_frames_def)
  moreover have "get_PT L t s1 = Some (pt_addr L t)"
    using d by (intro get_PT_at [OF L _ t]) (simp_all add: s1_def dirs_ok_def)
  ultimately have up: "set_user_pages L t s1 = Some ((mark USED_FRAME (code_frame ` {..<28}) s1)\<lparr>pagusr_table :=
     set_row t 264 284 (\<lambda>p. user_pte (of_nat (code_frame (p - 256))))
      (set_row t 256 264 (\<lambda>p. code_pte (of_nat (code_frame (p - 256)))) (pagusr_table s1))\<rparr>)"
    by (intro set_user_pages_at_boot [OF _ t])
  define s2 where "s2 = (mark USED_FRAME (code_frame ` {..<28}) s1)\<lparr>pagusr_table :=
     set_row t 264 284 (\<lambda>p. user_pte (of_nat (code_frame (p - 256))))
      (set_row t 256 264 (\<lambda>p. code_pte (of_nat (code_frame (p - 256)))) (pagusr_table s1))\<rparr>"
  have sel: "task s2 = task s1" "tsc_pos s2 = tsc_pos s" "tsc s2 = tsc s" "tss s2 = tss s" by (simp_all add: s2_def s1_def mark_def)
  define u where "u = (task s1 t)\<lparr>pcb := (task_of s1 t)\<lparr>quantum := 18,
    statics := (statics (task_of s1 t))\<lparr>user_ticks := 0, system_ticks := 0, blocked_ticks := 0,
      elapsed_total_ticks := ticks_at s (tsc_pos s), total_trans := 0\<rparr>, t_state := ST_RUN\<rparr>\<rparr>"
  have "init_task1 L s = Some (s2\<lparr>tss := (tss s)\<lparr>tss_esp0 := KERNEL_ESP L t\<rparr>, cr3 := dir_addr L t,
      tsc_pos := Suc (tsc_pos s), task := (task s1)(t := u)\<rparr>)"
    using t
    by (simp add: init_task1_def boot_pop(1) [OF q] h allocate_DIR_at s1_def [symmetric] up [folded s2_def]
      setTSS_tswitch_def set_cr3_def get_DIR_def sel)
      (rule kernel.equality, simp_all add: u_def sel ticks_at_def, simp_all add: s1_def)
  moreover have "s2\<lparr>tss := x, cr3 := y, tsc_pos := n, task := (task s1)(t := u)\<rparr>
     = (mark USED_FRAME (code_frame ` {..<28}) s)\<lparr>links := h, init_task := Some t,
      pagusr_table := set_row t 264 284 (\<lambda>p. user_pte (of_nat (code_frame (p - 256))))
        (set_row t 256 264 (\<lambda>p. code_pte (of_nat (code_frame (p - 256)))) (pagusr_table s)),
      tss := x, cr3 := y, tsc_pos := n, task := (task s)(t := u)\<rparr>" for x y n
    by (rule kernel.equality) (simp_all add: s2_def s1_def mark_def cong: if_cong)
  ultimately show ?thesis using h(2) by (intro exI [of _ h] exI [of _ u]) (simp add: u_def s1_def)
qed

section \<open>The user image\<close>

text \<open>What the boot loader leaves: the two sizes, and the user image behind the kernel.\<close>

definition mem_dword :: "(dword \<Rightarrow> byte) \<Rightarrow> dword \<Rightarrow> dword" where
  "mem_dword m a = ucast (m a) OR push_bit 8 (ucast (m (a + 1))) OR push_bit 16 (ucast (m (a + 2)))
     OR push_bit 24 (ucast (m (a + 3)))"

definition image_ok :: "(dword \<Rightarrow> byte) \<Rightarrow> bool" where
  "image_ok m \<longleftrightarrow> unat (mem_dword m 0x10004) \<le> 28 * 4096
     \<and> 0x10000 + unat (mem_dword m 0x10000) + unat (mem_dword m 0x10004) \<le> 0x100000"

lemma pbase_kernel_pte [simp]: "p < 1024 \<Longrightarrow> pbase_addr (kernel_pte p) = of_nat p"
  by (auto simp: kernel_pte_def pte_defs or.assoc small_low_bits drop_push_12)

lemma bit_kernel_pte [simp]: "bit (kernel_pte p) 0"
  by (simp add: kernel_pte_def pte_defs bit_simps)

lemma not_user_kernel_pte: "\<not> pte_user (kernel_pte p)"
  by (simp add: kernel_pte_def pte_defs bit_simps)

text \<open>The address space of the first process at boot.\<close>

definition boot_space :: "layout \<Rightarrow> kernel \<Rightarrow> bool" where
  "boot_space L s \<longleftrightarrow> dirs_ok L s \<and> cr3 s = dir_addr L 8
     \<and> (\<forall>p. 1 \<le> p \<longrightarrow> p < 256 \<longrightarrow> pagusr_table s 8 p = kernel_pte p)
     \<and> (\<forall>k<8. pagusr_table s 8 (256 + k) = code_pte (of_nat (code_frame k)))
     \<and> (\<forall>k<20. pagusr_table s 8 (264 + k) = user_pte (of_nat (code_frame (8 + k))))"

lemma boot_translate_kernel:
  assumes "layout_ok L" "boot_space L s" "4096 \<le> a" "a < 0x100000"
  shows "translate L (of_nat a) s = Some (of_nat a)"
proof -
  let ?p = "a div 4096" and ?k = "a mod 4096"
  have p: "1 \<le> ?p" "?p < 256" using assms(3,4) by (auto simp: Suc_le_eq div_greater_zero_iff div_less_iff_less_mult)
  have "translate L (of_nat (4096 * ?p + ?k)) s = Some (push_bit 12 (of_nat ?p) OR of_nat ?k)"
    using assms p by (subst translate_at [where t = 8]) (auto simp: boot_space_def)
  also have "push_bit 12 (of_nat ?p) OR of_nat ?k = (of_nat (4096 * ?p + ?k) :: dword)"
    using p by (intro frame_addr) simp_all
  finally show ?thesis by simp
qed

lemma boot_translate_user:
  assumes "layout_ok L" "boot_space L s" "n < 28 * 4096"
  shows "translate L (of_nat (0x100000 + n)) s = Some (data_loc code_frame n)"
proof -
  let ?p = "n div 4096" and ?k = "n mod 4096"
  have p: "?p < 28" using assms(3) by (simp add: div_less_iff_less_mult)
  have "pte_present (pagusr_table s 8 (256 + ?p)) \<and> pbase_addr (pagusr_table s 8 (256 + ?p)) = of_nat (code_frame ?p)"
  proof (cases "?p < 8")
    case True
    then show ?thesis using assms(2) p code_frame_lt [of ?p] by (simp add: boot_space_def)
  next
    case False
    then have "256 + ?p = 264 + (?p - 8)" "?p - 8 < 20" "8 + (?p - 8) = ?p" using p by auto
    then show ?thesis using assms(2) p code_frame_lt [of ?p] unfolding boot_space_def by (metis bit_user_pte(1) pbase_user_pte)
  qed
  then have "translate L (of_nat (4096 * (256 + ?p) + ?k)) s = Some (push_bit 12 (of_nat (code_frame ?p)) OR of_nat ?k)"
    using assms p by (subst translate_at [where t = 8]) (auto simp: boot_space_def)
  also have "push_bit 12 (of_nat (code_frame ?p)) OR of_nat ?k = data_loc code_frame n"
    unfolding data_loc_def using p by (intro frame_addr) (simp_all add: code_frame_def)
  finally show ?thesis by (simp add: algebra_simps)
qed

lemma boot_copy:
  assumes L: "layout_ok L" and b: "boot_space L s" and im: "image_ok (mem s)"
  defines "S \<equiv> mem_dword (mem s) 0x10000" and "U \<equiv> mem_dword (mem s) 0x10004"
  shows "\<exists>m. copy_data (vread L) (vwrite L) (0x10000 + S) 0x100000 U s = Some (s\<lparr>mem := m\<rparr>)
    \<and> (\<forall>n<unat U. m (data_loc code_frame n) = mem s (0x10000 + S + of_nat n))"
proof -
  let ?rs = "map (\<lambda>n. 0x10000 + S + of_nat n) [0..<unat U]" and ?ws = "map (data_loc code_frame) [0..<unat U]"
  let ?put = "\<lambda>pa v s. s\<lparr>mem := (mem s)(pa := v)\<rparr>"
  have sz: "unat U \<le> 28 * 4096" "0x10000 + unat S + unat U \<le> 0x100000" using im by (simp_all add: image_ok_def S_def U_def)
  have src: "0x10000 + S + of_nat n = (of_nat (0x10000 + unat S + n) :: dword)" for n by simp
  have ul: "unat (0x10000 + S + of_nat n) = 0x10000 + unat S + n" if "n < unat U" for n
    unfolding src using that sz by (intro unat_of_nat32) simp
  have pl: "n div 4096 < 28" if "n < unat U" for n using that sz by (simp add: div_less_iff_less_mult)
  have wl: "0x100000 \<le> unat (data_loc code_frame n)" if "n < unat U" for n
    using pl [OF that] by (subst unat_data_loc) (simp_all add: code_frame_def)
  have "translate L (0x10000 + S + of_nat n) s = Some (0x10000 + S + of_nat n)" if "n < unat U" for n
    unfolding src using that sz by (intro boot_translate_kernel [OF L b]) simp_all
  then have "run_at (translate L) (0x10000 + S) s ?rs" unfolding run_at_iff by simp
  moreover have "translate L (0x100000 + of_nat n) s = Some (data_loc code_frame n)" if "n < unat U" for n
    using boot_translate_user [OF L b, of n] that sz by simp
  then have "run_at (translate L) 0x100000 s ?ws" unfolding run_at_iff by simp
  moreover have "unat (0x10000 + S + of_nat n) \<noteq> unat (data_loc code_frame n')" if "n < unat U" "n' < unat U" for n n'
    using ul [OF that(1)] wl [OF that(2)] that sz by linarith
  then have disj: "set ?rs \<inter> set ?ws = {}"
    unfolding set_map set_upt disjoint_iff by (metis (no_types, lifting) atLeastLessThan_iff imageE)
  moreover have "nat (sint U) = unat U" using sz by (intro nat_sint_small) simp
  ultimately have c: "copy_data (vread L) (vwrite L) (0x10000 + S) 0x100000 U s = Some (put_all ?put ?ws (map (\<lambda>r. mem s r) ?rs) s)"
    by (intro vm.copy_data_spec) auto
  define m where "m = mem (put_all ?put ?ws (map (\<lambda>r. mem s r) ?rs) s)"
  have m: "put_all ?put ?ws (map (\<lambda>r. mem s r) ?rs) s = s\<lparr>mem := m\<rparr>" by (simp add: m_def put_all_mem)
  have "n = n'" if "n < unat U" "n' < unat U" "data_loc code_frame n = data_loc code_frame n'" for n n'
  proof -
    have "code_frame (n div 4096) = code_frame (n' div 4096) \<and> n mod 4096 = n' mod 4096"
      using pl [OF that(1)] pl [OF that(2)] that(3)
      by (intro data_loc_eqD) (simp_all add: code_frame_def [of "_ div _"])
    then have "n div 4096 = n' div 4096" "n mod 4096 = n' mod 4096" by (simp_all add: code_frame_def)
    then show ?thesis by (metis mult_div_mod_eq)
  qed
  then have dist: "distinct ?ws" by (auto simp: distinct_map inj_on_def)
  have "m (data_loc code_frame n) = mem s (0x10000 + S + of_nat n)" if "n < unat U" for n
    using vm.get_put_all [OF dist, of "map (\<lambda>r. mem s r) ?rs" n s] that by (simp add: m_def)
  then show ?thesis using c m by (intro exI [of _ m]) simp
qed

section \<open>The invariant after boot\<close>

definition boot_tables :: "(nat \<Rightarrow> nat \<Rightarrow> dword) \<Rightarrow> nat \<Rightarrow> nat \<Rightarrow> dword" where
  "boot_tables pt = set_row 8 264 284 (\<lambda>p. user_pte (of_nat (code_frame (p - 256))))
     (set_row 8 256 264 (\<lambda>p. code_pte (of_nat (code_frame (p - 256))))
       (\<lambda>t. if t < 10 then boot_row (pt t) else pt t))"

lemma boot_tables_space:
  assumes "pagusr_table s = boot_tables pt" "dirs_ok L s" "cr3 s = dir_addr L 8"
  shows "boot_space L s"
  using assms by (simp add: boot_space_def boot_tables_def set_row_apply boot_row_def)

lemma boot_user_frames: "set user_frames = code_frame ` {..<384}"
  by (auto simp: user_frames_def code_frame_def)

lemma boot_mm_inv:
  assumes pt: "pagusr_table s = boot_tables pt" and d: "dirs_ok L s"
    and ph: "phys_mem s = phys_mem (mark USED_FRAME (code_frame ` {..<28}) s0)" "phys_mem s0 = boot_frames ph0"
    and dir: "dir_pages_baseAddr (task_of s 8) = dir_addr L 8"
  shows "mm_inv L s {8}"
proof -
  have inj: "inj code_frame" by (simp add: inj_def code_frame_def)
  have df: "data_frame s 8 k = code_frame (8 + k)" if "k < 20" for k
  proof -
    have "code_frame (8 + k) < 1024" using that by (simp add: code_frame_def)
    then show ?thesis using that by (simp add: data_frame_def pt boot_tables_def set_row_apply unat_of_nat32)
  qed
  have page: "pagusr_table s 8 (256 + k) = code_pte (of_nat (code_frame k))" if "k < 8" for k
    using that by (simp add: pt boot_tables_def set_row_apply)
  have "data_frame s 8 k \<in> set user_frames - code_frames" if "k < 20" for k
    using that df [OF that] inj by (auto simp: boot_user_frames code_frames_def inj_image_mem_iff)
  moreover have "pagusr_table s 8 (264 + k) = user_pte (of_nat (data_frame s 8 k))" if "k < 20" for k
    using that df [OF that] by (simp add: pt boot_tables_def set_row_apply)
  ultimately have "aspace L s 8"
    using dir page code_frame_lt unfolding aspace_def by auto
  moreover have fo: "frames_of s 8 = code_frame ` {8..<28}"
  proof -
    have "frames_of s 8 = (\<lambda>k. code_frame (8 + k)) ` {..<20}" using df by (auto simp: frames_of_def)
    also have "\<dots> = code_frame ` (\<lambda>k. 8 + k) ` {..<20}" by (simp add: image_image)
    finally show ?thesis by (simp add: lessThan_atLeast0 image_add_atLeastLessThan)
  qed
  moreover have "free_frames s = set user_frames - code_frames - frames_of s 8"
  proof -
    have "free_frames s0 = set user_frames"
      using ph(2) user_frames_bounds by (fastforce simp: free_frames_def boot_frames_def)
    moreover have "free_frames s = free_frames (mark 1 (code_frame ` {..<28}) s0)"
      using ph(1) unfolding free_frames_def by simp
    ultimately have "free_frames s = set user_frames - code_frame ` {..<28}" by (simp add: free_frames_mark_used)
    moreover have "code_frame ` {..<28} = code_frames \<union> code_frame ` {8..<28}"
      unfolding code_frames_def image_Un [symmetric] by (simp add: ivl_disj_un)
    ultimately show ?thesis using fo by auto
  qed
  moreover have "inj_on (\<lambda>(t, k). data_frame s t k) ({8} \<times> {..<20})"
    using df by (auto simp: inj_on_def code_frame_def)
  moreover have "pagusr_table s t p = 0" if "t < 10" "284 \<le> p" "p < 1024" for t p
    using that by (auto simp: pt boot_tables_def set_row_apply boot_row_def)
  moreover have "\<not> pte_user (pagusr_table s t p)" if "t < 10" "p < 256" for t p
    using that not_user_kernel_pte by (auto simp: pt boot_tables_def set_row_apply boot_row_def)
  ultimately show ?thesis using d by (simp add: mm_inv_def)
qed

lemma printk_total: "0 \<in> set bs \<Longrightarrow> \<exists>d'. printk bs d = Some d'"
  by (induction bs arbitrary: d) auto

lemma printk_kernel_ok: "\<exists>d. printk_kernel m s = Some (s\<lparr>scr := d\<rparr>)"
  using printk_total [of "cstring m" "scr s"] by (auto simp: printk_kernel_def cstring_def)

text \<open>The gates of the kernel: where they lead, and from which level they may be used.\<close>

definition gates_set :: "layout \<Rightarrow> kernel \<Rightarrow> bool" where
  "gates_set L s \<longleftrightarrow> gate_offset (idt s 33) = keyboard_handler_addr L \<and> gate_dpl (idt s 33) = 0
    \<and> gate_offset (idt s 32) = clock_handler_addr L \<and> gate_dpl (idt s 32) = 0
    \<and> gate_offset (idt s 0x80) = system_call_handler_addr L \<and> gate_dpl (idt s 0x80) = 3
    \<and> (\<forall>v\<in>{32, 33, 0x80}. g_segmentSelector (idt s v) = KERNEL_CS)
    \<and> idt_reg s = \<lparr>r_limit = 2047, r_base = idt_addr L\<rparr>"

lemma setIdt_ok:
  assumes "\<And>s. \<exists>g. set_handlers s = s\<lparr>idt := g\<rparr>"
  shows "\<exists>s'. setIdt L set_handlers s = Some s' \<and> (\<exists>g w x. s' = s\<lparr>idtR := w, idt_reg := x, idt := g\<rparr>) \<and> gates_set L s'"
proof -
  obtain g where g: "set_handlers (s\<lparr>idtR := \<lparr>r_limit = 2047, r_base = idt_addr L\<rparr>\<rparr>)
      = s\<lparr>idtR := \<lparr>r_limit = 2047, r_base = idt_addr L\<rparr>, idt := g\<rparr>" using assms by fastforce
  show ?thesis
    by (simp add: setIdt_def setInterruptHandler_def setTrapHandler_def set_gate_def set_idt_reg_def g
      gate_offset_def gate_halves gate_dpl_def gates_set_def)
      (rule exI, rule exI, rule exI, rule refl)
qed

text \<open>The boot sequence up to the copy of the user image.\<close>

lemma boot_tasks:
  assumes L: "layout_ok L" and con: "\<And>s. console_init s = on_links (INIT_LIST_HEAD (Ptr CONSOLE_BLOCKED)) s"
  shows "\<exists>s' h u8 u9 d w. do { s \<leftarrow> init_sched (\<lambda>s. s) (init_mm L s); s \<leftarrow> init_idle L s; s \<leftarrow> init_task1 L s; console_init s } = Some s'
    \<and> s' = s\<lparr>links := h, task := (\<lambda>t. if t = 9 then u9 else if t = 8 then u8 else if t < 10
           then (task (init_mm L s) t)\<lparr>pcb := (task_of (init_mm L s) t)\<lparr>PID := - 1\<rparr>\<rparr> else task s t),
         idle_task := Some 9, init_task := Some 8, act_t := 0,
         phys_mem := phys_mem (mark USED_FRAME (code_frame ` {..<28}) (s\<lparr>phys_mem := boot_frames (phys_mem s)\<rparr>)),
         dir_pages := d, pagusr_table := boot_tables (pagusr_table s),
         tss := (tss s)\<lparr>tss_esp0 := KERNEL_ESP L 8\<rparr>, cr0 := w, cr3 := dir_addr L 8,
         tsc_pos := Suc (Suc (tsc_pos s))\<rparr>
    \<and> lq.queues h QHEADS (queue_of [7, 6, 5, 4, 3, 2, 1, 0] [] []) \<and> dirs_ok L s'
    \<and> PID (pcb u8) = 1 \<and> dir_pages_baseAddr (pcb u8) = dir_addr L 8
    \<and> PID (pcb u9) = 0 \<and> dir_pages_baseAddr (pcb u9) = dir_addr L 9
    \<and> kernel_esp (pcb u9) = elem_addr (task_base L) 9 1022 \<and> stack u9 1022 = 0 \<and> stack u9 1023 = cpu_idle_addr L"
proof -
  obtain d w where m: "init_mm L s = s\<lparr>pagusr_table := (\<lambda>t. if t < 10 then boot_row (pagusr_table s t) else pagusr_table s t),
       phys_mem := boot_frames (phys_mem s), dir_pages := d,
       task := (task s)(0 := (task s 0)\<lparr>pcb := (task_of s 0)\<lparr>dir_pages_baseAddr := dir_addr L 0\<rparr>\<rparr>),
       cr3 := dir_addr L 0, cr0 := w\<rparr>" and dirs: "dirs_ok L (init_mm L s)" using init_mm_ok by blast
  obtain h6 where s6: "init_sched (\<lambda>s. s) (init_mm L s) = Some ((init_mm L s)\<lparr>act_t := 0, links := h6,
      task := (\<lambda>t. if t < 10 then (task (init_mm L s) t)\<lparr>pcb := (task_of (init_mm L s) t)\<lparr>PID := - 1\<rparr>\<rparr> else task (init_mm L s) t)\<rparr>)"
    and q6: "lq.queues h6 H2 (boot_queues [9, 8, 7, 6, 5, 4, 3, 2, 1, 0])" using init_sched_ok by blast
  define s6' where "s6' = (init_mm L s)\<lparr>act_t := 0, links := h6,
      task := (\<lambda>t. if t < 10 then (task (init_mm L s) t)\<lparr>pcb := (task_of (init_mm L s) t)\<lparr>PID := - 1\<rparr>\<rparr> else task (init_mm L s) t)\<rparr>"
  have "lq.queues (links s6') H2 (boot_queues (9 # [8, 7, 6, 5, 4, 3, 2, 1, 0]))" using q6 by (simp add: s6'_def)
  from init_idle_ok [OF this, of L] obtain h7 u9
    where s7: "init_idle L s6' = Some (s6'\<lparr>links := h7, idle_task := Some 9, tsc_pos := Suc (tsc_pos s6'), task := (task s6')(9 := u9)\<rparr>)"
    and q7: "lq.queues h7 H2 (boot_queues [8, 7, 6, 5, 4, 3, 2, 1, 0])"
    and u9: "PID (pcb u9) = 0" "dir_pages_baseAddr (pcb u9) = dir_addr L 9"
      "kernel_esp (pcb u9) = elem_addr (task_base L) 9 1022" "stack u9 1022 = 0" "stack u9 1023 = cpu_idle_addr L" by auto
  define s7' where "s7' = s6'\<lparr>links := h7, idle_task := Some 9, tsc_pos := Suc (tsc_pos s6'), task := (task s6')(9 := u9)\<rparr>"
  have f7: "free_frames s7' = set user_frames"
    using user_frames_bounds by (fastforce simp: s7'_def s6'_def m free_frames_def boot_frames_def)
  have d7: "dirs_ok L s7'" using dirs by (simp add: s7'_def s6'_def dirs_ok_def)
  have "lq.queues (links s7') H2 (boot_queues (8 # [7, 6, 5, 4, 3, 2, 1, 0]))" using q7 by (simp add: s7'_def)
  from init_task1_ok [OF L this _ f7 d7] obtain h8 u8 where
    s8: "init_task1 L s7' = Some ((mark USED_FRAME (code_frame ` {..<28}) s7')\<lparr>links := h8, init_task := Some 8,
      pagusr_table := set_row 8 264 284 (\<lambda>p. user_pte (of_nat (code_frame (p - 256))))
        (set_row 8 256 264 (\<lambda>p. code_pte (of_nat (code_frame (p - 256)))) (pagusr_table s7')),
      tss := (tss s7')\<lparr>tss_esp0 := KERNEL_ESP L 8\<rparr>, cr3 := dir_addr L 8,
      tsc_pos := Suc (tsc_pos s7'), task := (task s7')(8 := u8)\<rparr>)" (is "_ = Some ?s8")
    and q8: "lq.queues h8 H2 (boot_queues [7, 6, 5, 4, 3, 2, 1, 0])"
    and u8: "PID (pcb u8) = 1" "dir_pages_baseAddr (pcb u8) = dir_addr L 8" by auto
  obtain h where h: "INIT_LIST_HEAD (Ptr CONSOLE_BLOCKED) h8 = Some h"
    "lq.queues h (insert CONSOLE_BLOCKED H2) ((boot_queues [7, 6, 5, 4, 3, 2, 1, 0])(CONSOLE_BLOCKED := []))"
    using queues_new_head [OF q8, of CONSOLE_BLOCKED] by (auto simp: lq.members_def boot_queues_def)
  have "insert CONSOLE_BLOCKED H2 = QHEADS"
    "(boot_queues [7, 6, 5, 4, 3, 2, 1, 0])(CONSOLE_BLOCKED := []) = queue_of [7, 6, 5, 4, 3, 2, 1, 0] [] []"
    by (auto simp: QHEADS_def boot_queues_def queue_of_def fun_eq_iff split: node.splits)
  then have q: "lq.queues h QHEADS (queue_of [7, 6, 5, 4, 3, 2, 1, 0] [] [])" using h(2) by simp
  have run: "do { s \<leftarrow> init_sched (\<lambda>s. s) (init_mm L s); s \<leftarrow> init_idle L s; s \<leftarrow> init_task1 L s; console_init s } = Some (?s8\<lparr>links := h\<rparr>)"
    using h(1) by (simp add: s6 s6'_def [symmetric] s7 s7'_def [symmetric] s8 con)
  have d8: "dirs_ok L (?s8\<lparr>links := h\<rparr>)" using d7 by (simp add: dirs_ok_def)
  have "task (init_mm L s) t = task s t" if "\<not> t < 10" for t using that by (simp add: m)
  then have "?s8\<lparr>links := h\<rparr> = s\<lparr>links := h, task := (\<lambda>t. if t = 9 then u9 else if t = 8 then u8 else if t < 10
           then (task (init_mm L s) t)\<lparr>pcb := (task_of (init_mm L s) t)\<lparr>PID := - 1\<rparr>\<rparr> else task s t),
         idle_task := Some 9, init_task := Some 8, act_t := 0,
         phys_mem := phys_mem (mark USED_FRAME (code_frame ` {..<28}) (s\<lparr>phys_mem := boot_frames (phys_mem s)\<rparr>)),
         dir_pages := d, pagusr_table := boot_tables (pagusr_table s),
         tss := (tss s)\<lparr>tss_esp0 := KERNEL_ESP L 8\<rparr>, cr0 := w, cr3 := dir_addr L 8,
         tsc_pos := Suc (Suc (tsc_pos s))\<rparr>"
    unfolding s7'_def s6'_def
    by (intro kernel.equality) (simp_all add: fun_eq_iff, simp_all add: m boot_tables_def)
  then show ?thesis using run q d8 u8 u9 by (intro exI conjI) assumption+
qed

lemma vread_dword_boot:
  assumes L: "layout_ok L" and b: "boot_space L s" and a: "4096 \<le> a" "a + 3 < 0x100000"
  shows "vread_dword L (of_nat a) s = Some (mem_dword (mem s) (of_nat a))"
proof -
  have "vread L (of_nat (a + k)) s = Some (mem s (of_nat (a + k)))" if "k < 4" for k
    using that a by (simp add: vread_def boot_translate_kernel [OF L b] del: of_nat_add)
  from this [of 0] this [of 1] this [of 2] this [of 3] show ?thesis
    by (simp add: vread_dword_def mem_dword_def add.commute)
qed

lemma main_boot_ok:
  assumes L: "layout_ok L" and im: "image_ok (mem s)" and pid: "PID_MAX s = 1"
    and hnd: "\<And>s. \<exists>g. set_handlers s = s\<lparr>idt := g\<rparr>" and pol: "\<And>s. init_policy s = s"
    and con: "\<And>s. console_init s = on_links (INIT_LIST_HEAD (Ptr CONSOLE_BLOCKED)) s"
  shows "\<exists>s'. main_boot L set_handlers init_policy console_init s = Some s'
    \<and> kinv L s' 8 9 [7, 6, 5, 4, 3, 2, 1, 0] [] [] \<and> pids_ok s' 9 [7, 6, 5, 4, 3, 2, 1, 0]
    \<and> init_task s' = Some 8 \<and> PID_MAX s' = 1 \<and> zeos_ticks s' = 0
    \<and> (\<forall>n<unat (mem_dword (mem s) 0x10004). mem s' (data_loc code_frame n)
         = mem s (0x10000 + mem_dword (mem s) 0x10000 + of_nat n))
    \<and> gates_set L s' \<and> boot_space L s' \<and> cpu s' = (cpu s)\<lparr>esp := INITIAL_ESP L - 20\<rparr>"
proof -
  let ?F = "[7, 6, 5, 4, 3, 2, 1, 0] :: nat list"
  define s1 where "s1 = set_seg_regs (INITIAL_ESP L) s"
  obtain d2 where s2: "printk_kernel ''Kernel Loaded!    '' s1 = Some (s1\<lparr>scr := d2\<rparr>)" using printk_kernel_ok by blast
  obtain s3 g w x where s3: "setIdt L set_handlers (setGdt L (s1\<lparr>scr := d2\<rparr>)) = Some s3"
    "s3 = (setGdt L (s1\<lparr>scr := d2\<rparr>))\<lparr>idtR := w, idt_reg := x, idt := g\<rparr>" "gates_set L s3" using setIdt_ok [OF hnd] by blast
  define s4 where "s4 = setTSS L s3"
  have sel4: "mem s4 = mem s" "PID_MAX s4 = 1"
    using pid by (simp_all add: s4_def setTSS_def set_task_reg_def s3(2) setGdt_def set_gdt_reg_def s1_def set_seg_regs_def)
  obtain s9 h u8 u9 d w' where run: "do { s \<leftarrow> init_sched (\<lambda>s. s) (init_mm L s4); s \<leftarrow> init_idle L s; s \<leftarrow> init_task1 L s; console_init s } = Some s9"
    and s9: "s9 = s4\<lparr>links := h, task := (\<lambda>t. if t = 9 then u9 else if t = 8 then u8 else if t < 10
           then (task (init_mm L s4) t)\<lparr>pcb := (task_of (init_mm L s4) t)\<lparr>PID := - 1\<rparr>\<rparr> else task s4 t),
         idle_task := Some 9, init_task := Some 8, act_t := 0,
         phys_mem := phys_mem (mark USED_FRAME (code_frame ` {..<28}) (s4\<lparr>phys_mem := boot_frames (phys_mem s4)\<rparr>)),
         dir_pages := d, pagusr_table := boot_tables (pagusr_table s4),
         tss := (tss s4)\<lparr>tss_esp0 := KERNEL_ESP L 8\<rparr>, cr0 := w', cr3 := dir_addr L 8,
         tsc_pos := Suc (Suc (tsc_pos s4))\<rparr>"
    and q: "lq.queues h QHEADS (queue_of ?F [] [])" and dirs: "dirs_ok L s9"
    and u8: "PID (pcb u8) = 1" "dir_pages_baseAddr (pcb u8) = dir_addr L 8"
    and u9: "PID (pcb u9) = 0" "dir_pages_baseAddr (pcb u9) = dir_addr L 9"
      "kernel_esp (pcb u9) = elem_addr (task_base L) 9 1022" "stack u9 1022 = 0" "stack u9 1023 = cpu_idle_addr L"
    using boot_tasks [OF L con, of s4] by blast
  have pt9: "pagusr_table s9 = boot_tables (pagusr_table s4)" and mem9: "mem s9 = mem s" by (simp_all add: s9 sel4)
  have bs: "boot_space L s9" by (rule boot_tables_space [OF pt9 dirs]) (simp add: s9)
  let ?S = "mem_dword (mem s) 0x10000" and ?U = "mem_dword (mem s) 0x10004"
  have sizes: "vread_dword L p_sys_size s9 = Some ?S" "vread_dword L p_usr_size s9 = Some ?U"
    using vread_dword_boot [OF L bs, of "0x10000"] vread_dword_boot [OF L bs, of "0x10004"] by (simp_all add: mem9)
  obtain m where cp: "copy_data (vread L) (vwrite L) (0x10000 + ?S) 0x100000 ?U s9 = Some (s9\<lparr>mem := m\<rparr>)"
    and img: "\<forall>n<unat ?U. m (data_loc code_frame n) = mem s (0x10000 + ?S + of_nat n)"
    using boot_copy [OF L bs] im by (auto simp: mem9)
  obtain dx where last: "printk_kernel ''Entering user mode...'' (s9\<lparr>mem := m, zeos_ticks := 0\<rparr>)
      = Some (s9\<lparr>mem := m, zeos_ticks := 0, scr := dx\<rparr>)" using printk_kernel_ok by force
  define s' where "s' = s9\<lparr>mem := m, zeos_ticks := 0, scr := dx\<rparr>"
  have "init_policy = (\<lambda>s. s)" using pol by auto
  then have main: "main_boot L set_handlers init_policy console_init s = Some s'"
    using s2 s3(1) run sizes cp last
    by (simp add: main_boot_def s1_def [symmetric] s4_def [symmetric] s'_def bind_eq_Some_conv) blast
  have mm: "mm_inv L s' {8}"
  proof (rule boot_mm_inv)
    show "pagusr_table s' = boot_tables (pagusr_table s4)" using pt9 by (simp add: s'_def)
    show "dirs_ok L s'" using dirs by (simp add: s'_def dirs_ok_def)
    show "phys_mem s' = phys_mem (mark USED_FRAME (code_frame ` {..<28}) (s4\<lparr>phys_mem := boot_frames (phys_mem s4)\<rparr>))"
      by (simp add: s'_def s9)
    show "phys_mem (s4\<lparr>phys_mem := boot_frames (phys_mem s4)\<rparr>) = boot_frames (phys_mem s4)" by simp
    show "dir_pages_baseAddr (task_of s' 8) = dir_addr L 8" using u8 by (simp add: s'_def s9)
  qed
  have lv: "live 9 ?F = {8}" by (auto simp: live_def)
  have "fresh L s' 9 (cpu_idle_addr L) 1022" using u9 by (simp add: fresh_def s'_def s9)
  then have "resumable L s' 9" by (auto simp: resumable_def)
  moreover have "insert 9 (insert 8 (set ?F)) = {..<10}" by (simp add: lessThan_nat_numeral lessThan_Suc insert_commute)
  ultimately have "kinv L s' 8 9 ?F [] []"
    using mm q u9 unfolding kinv_def lv by (simp add: s'_def s9 queues_are_def)
  moreover have "pids_ok s' 9 ?F"
    using u8 u9 sel4 unfolding pids_ok_def lv by (simp add: s'_def s9)
  moreover have "gates_set L s'"
    using s3(3) by (simp add: gates_set_def s'_def s9 s4_def setTSS_def set_task_reg_def)
  moreover have "boot_space L s'" by (rule boot_tables_space [of _ "pagusr_table s4"]) (use dirs in \<open>simp_all add: s'_def s9 dirs_ok_def\<close>)
  moreover have "cpu s' = (cpu s)\<lparr>esp := INITIAL_ESP L - 20\<rparr>"
    by (simp add: s'_def s9 s4_def setTSS_def set_task_reg_def s3(2) setGdt_def set_gdt_reg_def s1_def set_seg_regs_def)
  ultimately show ?thesis using main img sel4 by (simp add: s'_def s9)
qed

end
