(* ===== verification/Kernel_Calls.thy ===== *)
theory Kernel_Calls
  imports Kernel_Sys
begin

text \<open>
  The calls that keep the running task: what \<^verbatim>\<open>sys_write\<close> prints and returns, the error
  codes, and the accounting of \<^verbatim>\<open>sys_getpid\<close>, \<^verbatim>\<open>sys_gettime\<close> and \<^verbatim>\<open>sys_get_stats\<close>.
\<close>

section \<open>sys\_write\<close>

lemma translate_scr [simp]: "translate L a (s\<lparr>scr := d\<rparr>) = translate L a s"
  by (simp add: translate_def Let_def cong: if_cong)

lemma put_all_uput:
  "put_all uput (map Inl is) vs (s, b) = (s, fold (\<lambda>(i, v) b. b(i := v)) (zip is vs) b)"
proof (induction "is" arbitrary: vs b)
  case (Cons i "is")
  then show ?case by (cases vs) simp_all
qed simp

text \<open>The bytes of the user buffer: \<open>loc n\<close> is the physical address of byte \<open>n\<close>.\<close>

definition user_buffer :: "layout \<Rightarrow> kernel \<Rightarrow> dword \<Rightarrow> nat \<Rightarrow> (nat \<Rightarrow> dword) \<Rightarrow> bool" where
  "user_buffer L s buffer N loc \<longleftrightarrow> N < 2147483648
     \<and> (\<forall>n<N. translate L (buffer + of_nat n) s = Some (loc n))"

lemma write_chunk_ok:
  assumes b: "user_buffer L s buffer N loc" and w: "w + k \<le> N"
  shows "write_chunk L buffer (of_nat k) (of_nat w, sz, s)
    = Some (of_nat (w + k), sz - of_nat k, s\<lparr>scr := fold (\<lambda>n. printc (mem s (loc n))) [w..<w + k] (scr s)\<rparr>)"
proof -
  let ?m = "(s, \<lambda>_. 0) :: ucopy"
  let ?rs = "map (\<lambda>i. Inr (loc (w + i))) [0..<k] :: (nat + dword) list" and ?ws = "map Inl [0..<k] :: (nat + dword) list"
  have kb: "k < 2147483648" using b w by (simp add: user_buffer_def)
  have uk: "unat (of_nat k :: cint) = k" using kb by (intro unat_of_nat32) simp
  have sk: "sint (of_nat k :: cint) = int k" using kb by (simp add: sint_of_nat_small)
  let ?out = "put_all uput ?ws (map (\<lambda>r. uget r ?m) ?rs) ?m"
  have "run_at (user_loc L) (buffer + of_nat w) ?m ?rs"
    unfolding run_at_iff using b w by (auto simp: user_loc_def user_buffer_def add.assoc simp flip: of_nat_add)
  moreover have "run_at (kbuf_loc k) 0 ?m ?ws" using run_at_kbuf [of 0 k k ?m] kb by simp
  ultimately have "copy_data (uread L) (kwrite k) (buffer + of_nat w) 0 (of_nat k) ?m = Some ?out"
    by (rule from_user.copy_data_spec) (auto simp: sk)
  moreover obtain buf where ob: "?out = (s, buf)" by (simp add: put_all_uput)
  have bi: "buf i = mem s (loc (w + i))" if "i < k" for i
    using from_user.get_put_all [of ?ws "map (\<lambda>r. uget r ?m) ?rs" i ?m] that ob by (simp add: distinct_map)
  have "fold (\<lambda>i. printc (buf i)) [0..<k] d = fold (\<lambda>n. printc (mem s (loc n))) [w..<w + k] d" for d
  proof -
    have "fold (\<lambda>i. printc (buf i)) [0..<k] d = fold (\<lambda>i. printc (mem s (loc (w + i)))) [0..<k] d"
      using bi by (intro fold_cong) auto
    also have "\<dots> = fold (\<lambda>n. printc (mem s (loc n))) (map (\<lambda>i. w + i) [0..<k]) d" by (simp add: fold_map comp_def)
    finally show ?thesis by (simp add: map_add_upt add.commute [of w])
  qed
  ultimately show ?thesis
    unfolding ob by (simp add: write_chunk_def copy_from_user_eq uk sk sys_write_console_def)
qed

lemma user_buffer_scr [simp]: "user_buffer L (s\<lparr>scr := d\<rparr>) buffer N loc = user_buffer L s buffer N loc"
  by (simp add: user_buffer_def)

text \<open>The loop prints all full chunks and leaves less than one.\<close>

lemma write_loop_ok:
  assumes "user_buffer L s buffer N loc" "w + r = N"
  shows "write_loop L buffer (of_nat w, of_nat r, s) = Some (of_nat (N - r mod 128), of_nat (r mod 128),
     s\<lparr>scr := fold (\<lambda>n. printc (mem s (loc n))) [w..<N - r mod 128] (scr s)\<rparr>)"
  using assms
proof (induction r arbitrary: w s rule: less_induct)
  case (less r)
  have rb: "r < 2147483648" using less.prems by (simp add: user_buffer_def)
  have sr: "sint (of_nat r :: cint) = int r" by (rule sint_of_nat_small [OF rb])
  show ?case
  proof (cases "128 \<le> r")
    case False
    then have "N - r mod 128 = w" using less.prems by simp
    then show ?thesis using False sr by (subst write_loop.simps) simp
  next
    case True
    let ?s = "s\<lparr>scr := fold (\<lambda>n. printc (mem s (loc n))) [w..<w + 128] (scr s)\<rparr>"
    have c: "write_chunk L buffer 128 (of_nat w, of_nat r, s) = Some (of_nat (w + 128), of_nat (r - 128), ?s)"
      using write_chunk_ok [OF less.prems(1), of w 128 "of_nat r"] less.prems(2) True by (simp add: of_nat_diff)
    have m: "(r - 128) mod 128 = r mod 128" using True by (simp add: le_mod_geq [symmetric])
    have le: "w + 128 \<le> N - r mod 128"
    proof -
      have "r mod 128 \<le> r - 128" unfolding m [symmetric] by simp
      then show ?thesis using less.prems(2) True by simp
    qed
    have "write_loop L buffer (of_nat (w + 128), of_nat (r - 128), ?s) = Some (of_nat (N - r mod 128), of_nat (r mod 128),
       ?s\<lparr>scr := fold (\<lambda>n. printc (mem ?s (loc n))) [w + 128..<N - r mod 128] (scr ?s)\<rparr>)"
      unfolding m [symmetric] using less.prems True by (intro less.IH) simp_all
    moreover have "[w..<N - r mod 128] = [w..<w + 128] @ [w + 128..<N - r mod 128]"
      using le upt_add_eq_append [of w "w + 128" "N - r mod 128 - (w + 128)"] by simp
    ultimately show ?thesis using True sr c by (subst write_loop.simps) simp
  qed
qed

lemma sys_write_ok:
  assumes cur: "current L s = Some c" and buf: "user_buffer L s buffer N loc" "buffer \<noteq> 0"
  shows "\<exists>s'. sys_write L 1 buffer (of_nat N) s = Some (of_nat N, s')
    \<and> scr s' = fold (\<lambda>n. printc (mem s (loc n))) [0..<N] (scr s)
    \<and> s' = s\<lparr>scr := scr s', tsc_pos := tsc_pos s', task := (task s)(c := (task s c)\<lparr>pcb := (task_of s c)\<lparr>statics := statics (task_of s' c)\<rparr>\<rparr>)\<rparr>"
proof -
  define s1 where "s1 = upd_stats c (charge user_ticks_update s) (tick2 s)"
  have a: "act_ticks_user2kernel L s = Some s1" by (simp add: act_ticks_user2kernel_eq [OF cur] s1_def)
  have tr: "translate L x s1 = translate L x s" for x
    by (simp add: s1_def translate_def Let_def cong: if_cong)
  have b1: "user_buffer L s1 buffer N loc" using buf(1) by (simp add: user_buffer_def tr)
  have Nb: "N < 2147483648" using buf(1) by (simp add: user_buffer_def)
  let ?p = "\<lambda>n. printc (mem s (loc n))"
  define k where "k = N - N mod 128"
  have k: "k + N mod 128 = N" by (simp add: k_def)
  have m1: "mem s1 = mem s" "scr s1 = scr s" by (simp_all add: s1_def)
  define s2 where "s2 = s1\<lparr>scr := fold ?p [0..<N] (scr s)\<rparr>"
  have lp: "write_loop L buffer (0, of_nat N, s1) = Some (of_nat k, of_nat (N mod 128), s1\<lparr>scr := fold ?p [0..<k] (scr s)\<rparr>)"
    using write_loop_ok [OF b1, of 0 N] unfolding k_def [symmetric] by (simp add: m1)
  have "[0..<N] = [0..<k] @ [k..<N]" using upt_add_eq_append [of 0 k "N mod 128"] k by simp
  then have ch: "write_chunk L buffer (of_nat (N mod 128)) (of_nat k, of_nat (N mod 128), s1\<lparr>scr := fold ?p [0..<k] (scr s)\<rparr>)
      = Some (of_nat N, 0, s2)"
    using write_chunk_ok [of L "s1\<lparr>scr := fold ?p [0..<k] (scr s)\<rparr>" buffer N loc k "N mod 128" "of_nat (N mod 128)"] b1 k
    by (simp add: m1 s2_def)
  have cur2: "current L s2 = Some c" using cur by (simp add: current_def s2_def s1_def)
  have "sys_write L 1 buffer (of_nat N) s = Some (of_nat N, upd_stats c (charge system_ticks_update s2) (tick2 s2))"
    using buf(2) sint_of_nat_small [OF Nb]
    by (simp add: sys_write_def a check_fd_def lp ch act_ticks_kernel2user_eq [OF cur2])
  moreover have "upd_stats c (charge system_ticks_update s2) (tick2 s2) = s\<lparr>scr := fold ?p [0..<N] (scr s),
      tsc_pos := tsc_pos s + 4, task := (task s)(c := (task s c)\<lparr>pcb := (task_of s c)
        \<lparr>statics := charge system_ticks_update s2 (charge user_ticks_update s (statics (task_of s c)))\<rparr>\<rparr>)\<rparr>"
    by (rule kernel.equality) (simp_all add: s2_def s1_def)
  ultimately show ?thesis by simp
qed

text \<open>The three refusals, in the order of the checks.\<close>

lemma sys_write_error:
  assumes cur: "current L s = Some c"
  shows "fd \<noteq> 1 \<Longrightarrow> \<exists>s'. sys_write L fd buffer sz s = Some (- EBADF, s') \<and> scr s' = scr s"
    and "buffer = 0 \<Longrightarrow> \<exists>s'. sys_write L 1 buffer sz s = Some (- EFAULT, s') \<and> scr s' = scr s"
    and "buffer \<noteq> 0 \<Longrightarrow> sint sz < 0 \<Longrightarrow> \<exists>s'. sys_write L 1 buffer sz s = Some (- EINVAL, s') \<and> scr s' = scr s"
proof -
  define s1 where "s1 = upd_stats c (charge user_ticks_update s) (tick2 s)"
  have a: "act_ticks_user2kernel L s = Some s1" by (simp add: act_ticks_user2kernel_eq [OF cur] s1_def)
  have "current L s1 = Some c" using cur by (simp add: current_def s1_def)
  then have e: "\<exists>s'. act_ticks_kernel2user L s1 = Some s' \<and> scr s' = scr s"
    by (simp add: act_ticks_kernel2user_eq s1_def)
  show "fd \<noteq> 1 \<Longrightarrow> \<exists>s'. sys_write L fd buffer sz s = Some (- EBADF, s') \<and> scr s' = scr s"
    "buffer = 0 \<Longrightarrow> \<exists>s'. sys_write L 1 buffer sz s = Some (- EFAULT, s') \<and> scr s' = scr s"
    "buffer \<noteq> 0 \<Longrightarrow> sint sz < 0 \<Longrightarrow> \<exists>s'. sys_write L 1 buffer sz s = Some (- EINVAL, s') \<and> scr s' = scr s"
    using e by (auto simp: sys_write_def a check_fd_def)
qed

section \<open>sys\_get\_stats\<close>

text \<open>Reading the structure back from its memory image.\<close>

definition bytes_dword :: "byte list \<Rightarrow> dword" where
  "bytes_dword bs = ucast (bs ! 0) OR push_bit 8 (ucast (bs ! 1)) OR push_bit 16 (ucast (bs ! 2))
     OR push_bit 24 (ucast (bs ! 3))"

definition bytes_stats :: "byte list \<Rightarrow> stats" where
  "bytes_stats bs = (let w = (\<lambda>i. bytes_dword (take 4 (drop (4 * i) bs)))
     in \<lparr>user_ticks = w 0, system_ticks = w 1, blocked_ticks = w 2, ready_ticks = w 3,
         elapsed_total_ticks = w 4, total_trans = w 5, remaining_ticks = w 6\<rparr>)"

lemma bytes_dword_bytes: "bytes_dword (dword_bytes w) = w"
proof (rule bit_eqI)
  fix n assume n: "possible_bit TYPE(dword) n"
  then consider "n < 8" | "8 \<le> n" "n < 16" | "16 \<le> n" "n < 24" | "24 \<le> n" "n < 32" by fastforce
  then show "bit (bytes_dword (dword_bytes w)) n = bit w n"
    by cases (auto simp: bytes_dword_def dword_bytes_def bit_simps)
qed

lemma length_stats_bytes [simp]: "length (stats_bytes st) = 28"
  by (simp add: stats_bytes_def dword_bytes_def)

lemma bytes_stats_bytes: "bytes_stats (stats_bytes st) = st"
proof -
  have d: "bytes_dword [ucast w, ucast (drop_bit 8 w), ucast (drop_bit 16 w), ucast (drop_bit 24 w)] = w" for w
    using bytes_dword_bytes [of w] by (simp add: dword_bytes_def)
  show ?thesis by (cases st) (simp add: bytes_stats_def stats_bytes_def dword_bytes_def d)
qed

definition user_struct :: "layout \<Rightarrow> kernel \<Rightarrow> dword \<Rightarrow> (nat \<Rightarrow> dword) \<Rightarrow> bool" where
  "user_struct L s st loc \<longleftrightarrow> inj_on loc {..<28} \<and> (\<forall>n<28. translate L (st + of_nat n) s = Some (loc n))"

lemma put_all_uput_mem:
  "put_all uput (map Inr as) vs (s, b) = (s\<lparr>mem := fold (\<lambda>(l, v) m. m(l := v)) (zip as vs) (mem s)\<rparr>, b)"
proof (induction as arbitrary: vs s)
  case (Cons i as)
  then show ?case by (cases vs) simp_all
qed simp

lemma copy_stats_ok:
  assumes u: "user_struct L s st loc"
  shows "\<exists>m. copy_stats_to_user L t st s = Some (0, s\<lparr>mem := m\<rparr>)
    \<and> map (\<lambda>n. m (loc n)) [0..<28] = stats_bytes (statics (task_of s t))
    \<and> (\<forall>a. a \<notin> loc ` {..<28} \<longrightarrow> m a = mem s a)"
proof -
  let ?b = "stats_bytes (statics (task_of s t))"
  let ?m = "(s, \<lambda>k. ?b ! k) :: ucopy"
  let ?rs = "map Inl [0..<28] :: (nat + dword) list" and ?ws = "map Inr (map loc [0..<28]) :: (nat + dword) list"
  let ?out = "put_all uput ?ws (map (\<lambda>r. uget r ?m) ?rs) ?m"
  have "run_at (kbuf_loc 28) 0 ?m ?rs" using run_at_kbuf [of 0 28 28 ?m] by simp
  moreover have "run_at (user_loc L) st ?m ?ws"
    unfolding run_at_iff using u by (auto simp: user_loc_def user_struct_def simp del: upt_Suc upt_rec_numeral)
  ultimately have c: "copy_data (kread 28) (uwrite L) 0 st 28 ?m = Some ?out"
    by (rule to_user.copy_data_spec) auto
  have d: "distinct ?ws" using u
    by (simp add: user_struct_def distinct_map inj_on_def atLeast0LessThan del: upt_rec_numeral)
  obtain m where ob: "?out = (s\<lparr>mem := m\<rparr>, \<lambda>k. ?b ! k)" by (simp only: put_all_uput_mem)
  have len: "length (map (\<lambda>r. uget r ?m) ?rs) = length ?ws" by (simp del: upt_rec_numeral)
  have "m (loc n) = ?b ! n" if "n < 28" for n
  proof -
    have "uget (?ws ! n) ?out = map (\<lambda>r. uget r ?m) ?rs ! n"
      by (rule to_user.get_put_all [OF d len]) (use that in \<open>simp del: upt_rec_numeral\<close>)
    then show ?thesis using that unfolding ob by (simp del: upt_rec_numeral)
  qed
  then have "map (\<lambda>n. m (loc n)) [0..<28] = ?b"
    by (intro nth_equalityI) (simp_all del: upt_rec_numeral)
  moreover have "m a = mem s a" if "a \<notin> loc ` {..<28}" for a
  proof -
    have "uget (Inr a) ?out = uget (Inr a) ?m"
      by (rule to_user.get_put_all_other) (use that in \<open>auto simp: atLeast0LessThan simp del: upt_rec_numeral\<close>)
    then show ?thesis unfolding ob by simp
  qed
  moreover have "copy_stats_to_user L t st s = Some (0, s\<lparr>mem := m\<rparr>)"
    using c unfolding ob by (simp add: copy_stats_to_user_def copy_to_user_eq)
  ultimately show ?thesis by blast
qed

lemma getStatPID_loop_found:
  assumes "t \<in> set is" "PID (task_of s t) = pid" "\<And>t'. t' \<in> set is \<Longrightarrow> PID (task_of s t') = pid \<Longrightarrow> t' = t"
  shows "getStatPID_loop L is pid st s = do { (_, s) \<leftarrow> copy_stats_to_user L t st s; Some (0, s) }"
  using assms
proof (induction "is")
  case (Cons a "is")
  show ?case
  proof (cases "PID (task_of s a) = pid")
    case True
    then have "a = t" using Cons.prems(3) [of a] by simp
    then show ?thesis using True by simp
  next
    case False
    then have "t \<in> set is" using Cons.prems(1,2) by auto
    then have "getStatPID_loop L is pid st s = do { (_, s) \<leftarrow> copy_stats_to_user L t st s; Some (0, s) }"
      using Cons.prems(2,3) by (intro Cons.IH) simp_all
    then show ?thesis using False by simp
  qed
qed simp

lemma getStatPID_loop_none:
  "(\<And>t. t \<in> set is \<Longrightarrow> PID (task_of s t) \<noteq> pid) \<Longrightarrow> getStatPID_loop L is pid st s = Some (- 1, s)"
  by (induction "is") auto

definition stats_ptr_ok :: "dword \<Rightarrow> bool" where
  "stats_ptr_ok st \<longleftrightarrow> 0x100000 \<le> st \<and> st \<le> 0x11C000"

lemma user_struct_cong:
  "cr3 s' = cr3 s \<Longrightarrow> dir_pages s' = dir_pages s \<Longrightarrow> pagusr_table s' = pagusr_table s \<Longrightarrow>
     user_struct L s' st loc = user_struct L s st loc"
  by (simp add: user_struct_def translate_def Let_def cong: if_cong)

lemma sys_get_stats_ok:
  assumes cur: "current L s = Some c" and pid: "0 \<le> sint pid" and st: "stats_ptr_ok st" "user_struct L s st loc"
    and t: "t < 10" "PID (task_of s t) = pid" "\<And>t'. t' < 10 \<Longrightarrow> PID (task_of s t') = pid \<Longrightarrow> t' = t"
  shows "\<exists>s'. sys_get_stats L pid st s = Some (0, s')
    \<and> bytes_stats (map (\<lambda>n. mem s' (loc n)) [0..<28]) = statics (task_of s' t)
    \<and> (t \<noteq> c \<longrightarrow> statics (task_of s' t) = statics (task_of s t))
    \<and> (\<forall>a. a \<notin> loc ` {..<28} \<longrightarrow> mem s' a = mem s a)"
proof -
  define s1 where "s1 = upd_stats c (charge user_ticks_update s) (tick2 s)"
  have a: "act_ticks_user2kernel L s = Some s1" by (simp add: act_ticks_user2kernel_eq [OF cur] s1_def)
  have cur1: "current L s1 = Some c" using cur by (simp add: current_def s1_def)
  have u1: "user_struct L s1 st loc" using st(2) by (subst user_struct_cong [of _ s]) (simp_all add: s1_def)
  have range: "st \<noteq> 0" "\<not> st < L_USER_START" "\<not> L_USER_START + of_nat ((NUM_PAG_DATA + NUM_PAG_CODE) * PAGE_SIZE) < st"
    using st(1) by (auto simp: stats_ptr_ok_def)
  have pid1: "PID (task_of s1 t') = PID (task_of s t')" for t' by (simp add: s1_def)
  show ?thesis
  proof (cases "t = c")
    case True
    define s2 where "s2 = upd_stats c (charge system_ticks_update s1) (tick2 s1)"
    have b: "act_ticks_kernel2user L s1 = Some s2" by (simp add: act_ticks_kernel2user_eq [OF cur1] s2_def)
    have "user_struct L s2 st loc" using u1 by (subst user_struct_cong [of _ s1]) (simp_all add: s2_def)
    from copy_stats_ok [OF this, of c] obtain m where m: "copy_stats_to_user L c st s2 = Some (0, s2\<lparr>mem := m\<rparr>)"
      "map (\<lambda>n. m (loc n)) [0..<28] = stats_bytes (statics (task_of s2 c))"
      "\<forall>a. a \<notin> loc ` {..<28} \<longrightarrow> m a = mem s2 a" by blast
    define s3 where "s3 = s2\<lparr>mem := m\<rparr>"
    have "sys_get_stats L pid st s = Some (0, s3)"
      unfolding sys_get_stats_def a using pid range cur1 t(2) True by (simp add: pid1 b m(1) s3_def)
    moreover have "bytes_stats (map (\<lambda>n. m (loc n)) [0..<28]) = statics (task_of s2 c)" by (simp only: m(2) bytes_stats_bytes)
    moreover have "mem s3 = m" "task_of s3 c = task_of s2 c" "mem s2 = mem s" by (simp_all add: s3_def s2_def s1_def)
    ultimately show ?thesis using m(3) unfolding True by (intro exI [of _ s3]) (simp only: simp_thms)
  next
    case False
    from copy_stats_ok [OF u1, of t] obtain m where m: "copy_stats_to_user L t st s1 = Some (0, s1\<lparr>mem := m\<rparr>)"
      "map (\<lambda>n. m (loc n)) [0..<28] = stats_bytes (statics (task_of s1 t))"
      "\<forall>a. a \<notin> loc ` {..<28} \<longrightarrow> m a = mem s1 a" by blast
    have "getStatPID L pid st s1 = do { (_, s) \<leftarrow> copy_stats_to_user L t st s1; Some (0, s) }"
      unfolding getStatPID_def by (rule getStatPID_loop_found) (use t(1,2) in \<open>auto simp: pid1 intro: t(3)\<close>)
    then have g: "getStatPID L pid st s1 = Some (0, s1\<lparr>mem := m\<rparr>)" by (simp add: m(1))
    have "current L (s1\<lparr>mem := m\<rparr>) = Some c" using cur1 by (simp add: current_def)
    note b = act_ticks_kernel2user_eq [OF this]
    have "PID (task_of s1 c) \<noteq> pid" using t(3) [of c] current_bounds [OF cur] False by (auto simp: pid1)
    moreover define s3 where "s3 = upd_stats c (charge system_ticks_update (s1\<lparr>mem := m\<rparr>)) (tick2 (s1\<lparr>mem := m\<rparr>))"
    ultimately have "sys_get_stats L pid st s = Some (0, s3)"
      unfolding sys_get_stats_def a using pid range cur1 by (simp add: g b)
    moreover have "bytes_stats (map (\<lambda>n. m (loc n)) [0..<28]) = statics (task_of s1 t)" by (simp only: m(2) bytes_stats_bytes)
    moreover have "mem s3 = m" "task_of s3 t = task_of s1 t" "statics (task_of s1 t) = statics (task_of s t)" "mem s1 = mem s"
      using False by (simp_all add: s3_def s1_def)
    ultimately show ?thesis using m(3) by (intro exI [of _ s3]) (simp only: simp_thms)
  qed
qed

lemma sys_get_stats_error:
  assumes cur: "current L s = Some c"
  shows "sint pid < 0 \<Longrightarrow> \<exists>s'. sys_get_stats L pid st s = Some (- EINVAL, s') \<and> mem s' = mem s"
    and "0 \<le> sint pid \<Longrightarrow> \<not> stats_ptr_ok st \<Longrightarrow> \<exists>s'. sys_get_stats L pid st s = Some (- EFAULT, s') \<and> mem s' = mem s"
    and "0 \<le> sint pid \<Longrightarrow> stats_ptr_ok st \<Longrightarrow> (\<And>t. t < 10 \<Longrightarrow> PID (task_of s t) \<noteq> pid) \<Longrightarrow>
      \<exists>s'. sys_get_stats L pid st s = Some (- ESRCH, s') \<and> mem s' = mem s"
proof -
  define s1 where "s1 = upd_stats c (charge user_ticks_update s) (tick2 s)"
  have a: "act_ticks_user2kernel L s = Some s1" by (simp add: act_ticks_user2kernel_eq [OF cur] s1_def)
  have cur1: "current L s1 = Some c" using cur by (simp add: current_def s1_def)
  then have e: "\<exists>s'. act_ticks_kernel2user L s1 = Some s' \<and> mem s' = mem s"
    by (simp add: act_ticks_kernel2user_eq s1_def)
  have pid1: "PID (task_of s1 t') = PID (task_of s t')" for t' by (simp add: s1_def)
  show "\<exists>s'. sys_get_stats L pid st s = Some (- EINVAL, s') \<and> mem s' = mem s" if "sint pid < 0"
    using e that by (auto simp: sys_get_stats_def a)
  show "\<exists>s'. sys_get_stats L pid st s = Some (- EFAULT, s') \<and> mem s' = mem s" if "0 \<le> sint pid" "\<not> stats_ptr_ok st"
    using e that by (auto simp: sys_get_stats_def a stats_ptr_ok_def)
  assume p: "0 \<le> sint pid" "stats_ptr_ok st" "\<And>t. t < 10 \<Longrightarrow> PID (task_of s t) \<noteq> pid"
  have "getStatPID L pid st s1 = Some (- 1, s1)"
    unfolding getStatPID_def using p(3) by (intro getStatPID_loop_none) (simp add: pid1)
  moreover have "PID (task_of s1 c) \<noteq> pid" using p(3) [OF current_bounds [OF cur]] by (simp add: pid1)
  moreover have "st \<noteq> 0" "\<not> st < 0x100000" "\<not> 0x11C000 < st" using p(2) by (auto simp: stats_ptr_ok_def)
  ultimately show "\<exists>s'. sys_get_stats L pid st s = Some (- ESRCH, s') \<and> mem s' = mem s"
    using e p(1) cur1 by (auto simp: sys_get_stats_def a)
qed

section \<open>sys\_getpid and sys\_gettime\<close>

text \<open>Both only account: the time since the last transition is charged to the user, the rest to the system.\<close>

lemma brief_call:
  assumes cur: "current L s = Some c"
  shows "\<exists>s'. sys_getpid L s = Some (PID (task_of s c), s') \<and> sys_gettime L s = Some (zeos_ticks s, s')
    \<and> s' = s\<lparr>tsc_pos := tsc_pos s + 4, task := (task s)(c := (task s c)\<lparr>pcb := (task_of s c)\<lparr>statics := statics (task_of s' c)\<rparr>\<rparr>)\<rparr>
    \<and> user_ticks (statics (task_of s' c)) = user_ticks (statics (task_of s c))
         + (ticks_at s (tsc_pos s) - elapsed_total_ticks (statics (task_of s c)))
    \<and> system_ticks (statics (task_of s' c)) = system_ticks (statics (task_of s c))
         + (ticks_at s (tsc_pos s + 2) - ticks_at s (tsc_pos s + 1))"
proof -
  define s1 where "s1 = upd_stats c (charge user_ticks_update s) (tick2 s)"
  have a: "act_ticks_user2kernel L s = Some s1" by (simp add: act_ticks_user2kernel_eq [OF cur] s1_def)
  have cur1: "current L s1 = Some c" using cur by (simp add: current_def s1_def)
  define s2 where "s2 = upd_stats c (charge system_ticks_update s1) (tick2 s1)"
  have b: "act_ticks_kernel2user L s1 = Some s2" by (simp add: act_ticks_kernel2user_eq [OF cur1] s2_def)
  have cur2: "current L s2 = Some c" using cur1 by (simp add: current_def s2_def)
  have "s2 = s\<lparr>tsc_pos := tsc_pos s + 4, task := (task s)(c := (task s c)\<lparr>pcb := (task_of s c)\<lparr>statics := statics (task_of s2 c)\<rparr>\<rparr>)\<rparr>"
    by (rule kernel.equality) (simp_all add: s2_def s1_def)
  moreover have "sys_getpid L s = Some (PID (task_of s c), s2)" "sys_gettime L s = Some (zeos_ticks s, s2)"
    by (simp_all add: sys_getpid_def sys_gettime_def a b cur2) (simp_all add: s2_def s1_def)
  ultimately show ?thesis
    by (intro exI [of _ s2]) (simp add: s2_def s1_def charge_eqs)
qed

end
