(* ===== verification/Kernel_Run.thy ===== *)
theory Kernel_Run
  imports Kernel_Boot Kernel_Calls
begin

text \<open>
  The kernel as a transition system: user-mode execution up to the next entry, and the
  handlers of the calls and interrupts, under the round-robin policy.  Every state that a
  run reaches from the end of the boot sequence satisfies the global invariant.
\<close>

section \<open>Steps\<close>

definition runs :: "layout \<Rightarrow> kernel \<Rightarrow> nat \<Rightarrow> bool" where
  "runs L s c \<longleftrightarrow> c < 10 \<and> tss_esp0 (tss s) = KERNEL_ESP L c"

text \<open>
  Execution until an entry: a process in user mode may write what its page table lets it
  write (the idle task only loops); the entry leaves registers and words of its own kernel
  stack, with room for a context switch.
\<close>

definition user_phase :: "layout \<Rightarrow> nat \<Rightarrow> kernel \<Rightarrow> kernel \<Rightarrow> bool" where
  "user_phase L c s s' \<longleftrightarrow> (\<exists>r st m. s' = s\<lparr>cpu := r, task := (task s)(c := (task s c)\<lparr>stack := st\<rparr>), mem := m\<rparr>
     \<and> (\<forall>a. m a \<noteq> mem s a \<longrightarrow> idle_task s \<noteq> Some c \<and> user_writable s c a)) \<and> stack_room L s' c"

text \<open>The anchors a traversal of the console queue visits.\<close>

definition console_queue :: "kernel \<Rightarrow> node ptr list option" where
  "console_queue s = do { p \<leftarrow> list_first (Ptr CONSOLE_BLOCKED) (links s);
                          list_for_each p (Ptr CONSOLE_BLOCKED) (links s) }"

text \<open>
  The rules for calls apply to processes, not to the idle task.  A fork needs the frame
  pointer of \<^verbatim>\<open>sys_fork\<close> inside the kernel stack, and a run stays below the largest process
  identifier.  \<open>emul\<close> and \<open>show_clock\<close> are the library routines of the clock interrupt.
\<close>

inductive kstep :: "layout \<Rightarrow> (kernel \<Rightarrow> kernel option) \<Rightarrow> (kernel \<Rightarrow> kernel option) \<Rightarrow> kernel \<Rightarrow> kernel \<Rightarrow> bool"
  for L emul show_clock where
  k_user: "runs L s c \<Longrightarrow> user_phase L c s s' \<Longrightarrow> kstep L emul show_clock s s'"
| k_fork: "runs L s c \<Longrightarrow> idle_task s \<noteq> Some c \<Longrightarrow> stack_room L s c \<Longrightarrow>
    ebp (cpu s) = elem_addr (task_base L) c (Suc j) \<Longrightarrow> 14 \<le> j \<Longrightarrow> Suc j < 1024 \<Longrightarrow> sint (PID_MAX s) < 2147483647 \<Longrightarrow>
    sys_fork L s = Some (v, s') \<Longrightarrow> kstep L emul show_clock s s'"
| k_exit: "runs L s c \<Longrightarrow> idle_task s \<noteq> Some c \<Longrightarrow> stack_room L s c \<Longrightarrow>
    sys_exit L (rr_policy L) s = Some (r, s') \<Longrightarrow> kstep L emul show_clock s s'"
| k_block: "runs L s c \<Longrightarrow> idle_task s \<noteq> Some c \<Longrightarrow> stack_room L s c \<Longrightarrow>
    block_process L (rr_policy L) (Ptr CONSOLE_BLOCKED) s = Some (r, s') \<Longrightarrow> kstep L emul show_clock s s'"
| k_unblock: "runs L s c \<Longrightarrow> stack_room L s c \<Longrightarrow> console_queue s = Some ps \<Longrightarrow> Ptr (TASK_LIST t) \<in> set ps \<Longrightarrow>
    idle_task s \<noteq> Some c \<or> needs_sched_rr s = 0 \<Longrightarrow>
    unblock_process L (rr_policy L) t s = Some (u, s') \<Longrightarrow> kstep L emul show_clock s s'"
| k_tick: "runs L s c \<Longrightarrow> stack_room L s c \<Longrightarrow> clock_routine L (rr_policy L) emul show_clock s = Some (out, s') \<Longrightarrow>
    kstep L emul show_clock s s'"
| k_key: "keyboard_routine k s = Some (v, s') \<Longrightarrow> kstep L emul show_clock s s'"
| k_getpid: "current L s = Some c \<Longrightarrow> idle_task s \<noteq> Some c \<Longrightarrow> sys_getpid L s = Some (v, s') \<Longrightarrow> runs L s c \<Longrightarrow> kstep L emul show_clock s s'"
| k_gettime: "current L s = Some c \<Longrightarrow> idle_task s \<noteq> Some c \<Longrightarrow> sys_gettime L s = Some (v, s') \<Longrightarrow> runs L s c \<Longrightarrow> kstep L emul show_clock s s'"
| k_write: "current L s = Some c \<Longrightarrow> idle_task s \<noteq> Some c \<Longrightarrow> runs L s c \<Longrightarrow>
    sys_write L fd buffer sz s = Some (v, s') \<Longrightarrow> kstep L emul show_clock s s'"
| k_stats: "current L s = Some c \<Longrightarrow> idle_task s \<noteq> Some c \<Longrightarrow> runs L s c \<Longrightarrow>
    sys_get_stats L pid st s = Some (v, s') \<Longrightarrow> kstep L emul show_clock s s'"

inductive_cases kstepE: "kstep L emul show_clock s s'"

definition good :: "layout \<Rightarrow> kernel \<Rightarrow> bool" where
  "good L s \<longleftrightarrow> (\<exists>c i F R B. kinv L s c i F R B \<and> pids_ok s i F)"

text \<open>
  One turn of the running task: it executes in user mode until a clock interrupt takes the
  processor from it.
\<close>

definition turn :: "layout \<Rightarrow> (kernel \<Rightarrow> kernel option) \<Rightarrow> (kernel \<Rightarrow> kernel option) \<Rightarrow> kernel \<Rightarrow> kernel \<Rightarrow> bool" where
  "turn L emul show_clock s s'' \<longleftrightarrow> (\<exists>c s' r. runs L s c \<and> user_phase L c s s'
     \<and> clock_routine L (rr_policy L) emul show_clock s' = Some (Switched r, s''))"

section \<open>Preservation\<close>

lemma KERNEL_ESP_inj: "i < 10 \<Longrightarrow> j < 10 \<Longrightarrow> KERNEL_ESP L i = KERNEL_ESP L j \<Longrightarrow> i = j"
proof -
  assume a: "i < 10" "j < 10" "KERNEL_ESP L i = KERNEL_ESP L j"
  then have "(of_nat (4096 * i) :: dword) = of_nat (4096 * j)" by (simp add: KERNEL_ESP_def task_addr_def elem_addr_def)
  moreover have "unat (of_nat (4096 * i) :: dword) = 4096 * i" "unat (of_nat (4096 * j) :: dword) = 4096 * j"
    using a by - (rule unat_of_nat32, simp)+
  ultimately show "i = j" by simp
qed

lemma runs_kinv: "kinv L s c i F R B \<Longrightarrow> runs L s c' \<Longrightarrow> c' = c"
  using kinvD(10) kinv_bounds(1) KERNEL_ESP_inj by (metis runs_def)

lemma pids_ok_same:
  "(\<And>t. PID (task_of s' t) = PID (task_of s t)) \<Longrightarrow> PID_MAX s' = PID_MAX s \<Longrightarrow> pids_ok s' i F = pids_ok s i F"
  by (simp add: pids_ok_def)

lemma pids_ok_idle: "pids_ok s i F \<Longrightarrow> kinv L s c i F R B \<Longrightarrow> PID (task_of s c) = 0 \<longleftrightarrow> c = i"
proof -
  assume p: "pids_ok s i F" and k: "kinv L s c i F R B"
  show ?thesis
  proof (cases "c = i")
    case False
    then have "c \<in> live i F" using live_tasks [OF k] by auto
    then show ?thesis using p False by (auto simp: pids_ok_def)
  qed (use p in \<open>simp add: pids_ok_def\<close>)
qed

lemma pids_ok_fork:
  assumes k: "kinv L s c i (ch # F) R B" and p: "pids_ok s i (ch # F)" and b: "sint (PID_MAX s) < 2147483647"
    and f: "forked L s c ch j A s'" and ci: "c \<noteq> i"
  shows "pids_ok s' i F"
proof -
  have d: "i \<noteq> ch" "ch < 10" "c \<noteq> ch" "ch \<notin> set F"
    using kinvD(4,5) [OF k] kinv_bounds [OF k] queues_are_distinct(1) [OF kinvD(1) [OF k]] by auto
  have lv: "live i F = insert ch (live i (ch # F))" using d by (auto simp: live_def)
  have pid: "PID (task_of s' t) = PID (task_of s t)" if "t \<noteq> ch" for t
    using f that by (cases "t = c") (auto simp: forked_def)
  have new: "PID (task_of s' ch) = PID_MAX s + 1" "PID_MAX s' = PID_MAX s + 1" using f by (auto simp: forked_def)
  have inc: "sint (PID_MAX s + 1) = sint (PID_MAX s) + 1"
    using b sint32_range(1) [of "PID_MAX s"] by (simp add: sint_word_ariths signed_take_bit_int_eq_self)
  have "0 < sint (PID (task_of s c))" "sint (PID (task_of s c)) \<le> sint (PID_MAX s)"
    using p live_tasks [OF k] ci by (auto simp: pids_ok_def)
  then have pos: "0 < sint (PID_MAX s)" by linarith
  have nch: "t \<noteq> ch" if "t \<in> live i (ch # F)" for t using that by (auto simp: live_def)
  have "inj_on (\<lambda>t. PID (task_of s' t)) (live i F)"
    unfolding lv
  proof (rule inj_onI)
    fix x y assume xy: "x \<in> insert ch (live i (ch # F))" "y \<in> insert ch (live i (ch # F))" "PID (task_of s' x) = PID (task_of s' y)"
    have "PID (task_of s t) \<noteq> PID_MAX s + 1" if "t \<in> live i (ch # F)" for t
      using p that inc by (fastforce simp: pids_ok_def)
    then show "x = y" using xy p pid new nch unfolding pids_ok_def inj_on_def by (metis insertE)
  qed
  moreover have "0 < sint (PID (task_of s' t)) \<and> sint (PID (task_of s' t)) \<le> sint (PID_MAX s')" if "t \<in> live i F" for t
    using that p pid [of t] new inc pos nch unfolding lv pids_ok_def by fastforce
  moreover have "PID (task_of s' t) = - 1" if "t \<in> set F" for t
    using that p pid [of t] d by (auto simp: pids_ok_def)
  ultimately show ?thesis using p pid [of i] d unfolding pids_ok_def by auto
qed

lemma pids_ok_exit:
  assumes k: "kinv L s c i F R B" and p: "pids_ok s i F" and ci: "c \<noteq> i"
    and e: "PID (task_of s' c) = - 1" "\<And>t. t \<noteq> c \<Longrightarrow> PID (task_of s' t) = PID (task_of s t)" "PID_MAX s' = PID_MAX s"
  shows "pids_ok s' i (F @ [c])"
proof -
  have lv: "live i (F @ [c]) = live i F - {c}" by (auto simp: live_def)
  have "inj_on (\<lambda>t. PID (task_of s' t)) (live i F - {c})"
    using p e(2) unfolding pids_ok_def inj_on_def by auto
  moreover have "c \<notin> set F" using kinvD(5) [OF k] by simp
  then have "PID (task_of s' t) = - 1" if "t \<in> set (F @ [c])" for t
    using that p e(1) e(2) [of t] by (cases "t = c") (auto simp: pids_ok_def)
  ultimately show ?thesis using p e(2,3) e(2) [of i] ci unfolding pids_ok_def lv by auto
qed

lemma goodI: "kinv L s c i F R B \<Longrightarrow> pids_ok s i F \<Longrightarrow> good L s"
  unfolding good_def by blast

lemma kinv_user_phase:
  assumes k: "kinv L s c i F R B" and u: "user_phase L c s s'"
  shows "kinv L s' c i F R B"
proof -
  obtain r st m where s': "s' = s\<lparr>cpu := r, task := (task s)(c := (task s c)\<lparr>stack := st\<rparr>), mem := m\<rparr>"
    using u by (auto simp: user_phase_def)
  show ?thesis using kinvD(1) [OF k] by (intro kinv_transfer [OF k]) (auto simp: s' queues_are_def)
qed

lemma kinv_brief:
  assumes k: "kinv L s c i F R B" and p: "pids_ok s i F"
    and s': "s' = s\<lparr>scr := d, tsc_pos := n, task := (task s)(c := (task s c)\<lparr>pcb := (task_of s c)\<lparr>statics := x\<rparr>\<rparr>)\<rparr>"
  shows "good L s'"
proof (rule goodI)
  show "kinv L s' c i F R B" using kinvD(1) [OF k] by (intro kinv_transfer [OF k]) (auto simp: s' queues_are_def)
  show "pids_ok s' i F" using p by (subst pids_ok_same [of s' s]) (auto simp: s')
qed

lemma good_same:
  assumes "kinv L s' c i F R B" "pids_ok s i F" "\<forall>t. PID (task_of s' t) = PID (task_of s t)" "PID_MAX s' = PID_MAX s"
  shows "good L s'"
  using assms goodI pids_ok_same [of s' s i F] by auto

lemma good_fork:
  assumes L: "layout_ok L" and k: "kinv L s c i F R B" and p: "pids_ok s i F" and ci: "c \<noteq> i"
    and cur: "current L s = Some c" and b: "sint (PID_MAX s) < 2147483647"
    and bp: "ebp (cpu s) = elem_addr (task_base L) c (Suc j)" "14 \<le> j" "Suc j < 1024"
    and f: "sys_fork L s = Some (v, s')"
  shows "good L s'"
proof (cases F)
  case Nil
  with k have "kinv L s c i [] R B" by simp
  from sys_fork_full [OF this cur] f have "kinv L s' c i F R B" "PID_MAX s' = PID_MAX s"
    "\<forall>t. PID (task_of s' t) = PID (task_of s t)" using Nil by auto
  then show ?thesis using good_same p by blast
next
  case (Cons ch F')
  with k have k': "kinv L s c i (ch # F') R B" by simp
  from sys_fork_ok [OF L k' ci cur bp] f have "kinv L s' c i F' (R @ [ch]) B" "forked L s c ch j (live i (ch # F')) s'" by auto
  then show ?thesis using goodI pids_ok_fork [OF k' _ b _ ci] p Cons by blast
qed

lemma good_exit:
  assumes "layout_ok L" "kinv L s c i F R B" "pids_ok s i F" "c \<noteq> i" "stack_room L s c"
    and f: "sys_exit L (rr_policy L) s = Some (r, s')"
  shows "good L s'"
  using rr.exit_ok [OF assms(1,2,4,5)] f pids_ok_exit [OF assms(2,3,4), of s'] goodI by auto

lemma good_block:
  assumes "layout_ok L" "kinv L s c i F R B" "pids_ok s i F" "c \<noteq> i" "stack_room L s c"
    and f: "block_process L (rr_policy L) (Ptr CONSOLE_BLOCKED) s = Some (r, s')"
  shows "good L s'"
  using rr.block_ok [OF assms(1,2,4,5)] f good_same [OF _ assms(3)] by auto

lemma console_queue_eq:
  assumes "queues_are s F R B"
  shows "console_queue s = Some (map (\<lambda>t. Ptr (TASK_LIST t)) B)"
proof -
  have d: "dlist (links s) CONSOLE_BLOCKED (map TASK_LIST B)"
    using lq.queues_rep [OF assms [unfolded queues_are_def] heads_in(3)] by simp
  then have "list_for_each (nxt (links s CONSOLE_BLOCKED)) (Ptr CONSOLE_BLOCKED) (links s) = Some (map Ptr (map TASK_LIST B))"
    by (intro list_for_each_chain) (auto simp: dlist_def)
  then show ?thesis by (simp add: console_queue_def list_first_def)
qed

lemma good_unblock:
  assumes L: "layout_ok L" and k: "kinv L s c i F R B" and p: "pids_ok s i F" and room: "stack_room L s c"
    and t: "console_queue s = Some ps" "Ptr (TASK_LIST t) \<in> set ps"
    and idle: "idle_task s \<noteq> Some c \<or> needs_sched_rr s = 0"
    and f: "unblock_process L (rr_policy L) t s = Some (u, s')"
  shows "good L s'"
proof -
  have "t \<in> set B" using t console_queue_eq [OF kinvD(1) [OF k]] by auto
  then obtain B1 B2 where B: "B = B1 @ t # B2" by (meson split_list)
  have "c = i \<Longrightarrow> needs_sched (rr_policy L) s = 0" using idle kinvD(2) [OF k] by (auto simp: rr_policy_def)
  from rr.unblock_ok [OF L k [unfolded B] room this] f
  show ?thesis using good_same [OF _ p] by (cases u) fastforce+
qed

lemma good_tick:
  assumes L: "layout_ok L" and k: "kinv L s c i F R B" and p: "pids_ok s i F" and room: "stack_room L s c"
    and lib: "screen_only emul" "screen_only show_clock"
    and f: "clock_routine L (rr_policy L) emul show_clock s = Some (out, s')"
  shows "good L s'"
  using rr.clock_ok [OF L k room pids_ok_idle [OF p k] lib] f good_same [OF _ p]
  by (auto split: if_splits)

lemma good_key:
  assumes k: "kinv L s c i F R B" and p: "pids_ok s i F" and f: "keyboard_routine key s = Some (v, s')"
  shows "good L s'"
proof -
  have "s' = s\<lparr>scr := scr s'\<rparr>"
    using f by (auto simp: keyboard_routine_def Let_def split: if_splits)
  then obtain d where "s' = s\<lparr>scr := d\<rparr>" by blast
  then show ?thesis using good_same [OF _ p, of L s'] k by (auto simp: kinv_scr)
qed

text \<open>What the invariant depends on is left alone.\<close>

definition same_control :: "kernel \<Rightarrow> kernel \<Rightarrow> bool" where
  "same_control s s' \<longleftrightarrow> links s' = links s \<and> idle_task s' = idle_task s \<and> cr3 s' = cr3 s \<and> tss s' = tss s
     \<and> pagusr_table s' = pagusr_table s \<and> dir_pages s' = dir_pages s \<and> phys_mem s' = phys_mem s \<and> cpu s' = cpu s
     \<and> PID_MAX s' = PID_MAX s \<and> (\<forall>t. stack (task s' t) = stack (task s t) \<and> PID (task_of s' t) = PID (task_of s t)
         \<and> dir_pages_baseAddr (task_of s' t) = dir_pages_baseAddr (task_of s t) \<and> kernel_esp (task_of s' t) = kernel_esp (task_of s t))"

lemma same_control_refl [simp]: "same_control s s" by (simp add: same_control_def)

lemma same_control_trans [trans]: "same_control s s' \<Longrightarrow> same_control s' t \<Longrightarrow> same_control s t"
  by (simp add: same_control_def)

lemma same_control_current: "same_control s s' \<Longrightarrow> current L s' = current L s"
  by (simp add: same_control_def current_def)

lemma same_control_account:
  assumes "current L s = Some c"
  shows "\<exists>s'. act_ticks_user2kernel L s = Some s' \<and> same_control s s'"
    "\<exists>s'. act_ticks_kernel2user L s = Some s' \<and> same_control s s'"
  by (simp_all add: act_ticks_user2kernel_eq [OF assms] act_ticks_kernel2user_eq [OF assms] same_control_def)

text \<open>
  And of the memory at most bytes of the user part of the running process, the addresses
  from \<^verbatim>\<open>L_USER_START\<close> to the end of the page after its data.
\<close>

definition user_part :: "dword set" where
  "user_part = {a. 0x100000 \<le> unat a \<and> unat a < 0x11D000}"

definition user_store :: "layout \<Rightarrow> kernel \<Rightarrow> kernel \<Rightarrow> bool" where
  "user_store L s s' \<longleftrightarrow> same_control s s' \<and> (\<forall>pa. mem s' pa \<noteq> mem s pa \<longrightarrow> (\<exists>a\<in>user_part. translate L a s = Some pa))"

lemma translate_same_control: "same_control s s' \<Longrightarrow> translate L a s' = translate L a s"
  by (simp add: same_control_def translate_def Let_def cong: if_cong)

lemma user_store_trans [trans]: "user_store L s s' \<Longrightarrow> user_store L s' t \<Longrightarrow> user_store L s t"
  unfolding user_store_def by (metis same_control_trans translate_same_control)

lemma user_store_mem: "same_control s s' \<Longrightarrow> mem s' = mem s \<Longrightarrow> user_store L s s'"
  by (simp add: user_store_def)

lemma user_store_account:
  assumes "current L s = Some c"
  shows "\<exists>s'. act_ticks_user2kernel L s = Some s' \<and> user_store L s s'"
    "\<exists>s'. act_ticks_kernel2user L s = Some s' \<and> user_store L s s'"
  by (simp_all add: act_ticks_user2kernel_eq [OF assms] act_ticks_kernel2user_eq [OF assms] user_store_def same_control_def)

lemma user_store_uwrite:
  assumes "uwrite L a v m = Some m'" "a \<in> user_part"
  shows "user_store L (fst m) (fst m')"
  using assms by (auto simp: uwrite_def vwrite_def user_store_def same_control_def split: if_splits)

lemma user_store_stats:
  assumes f: "copy_stats_to_user L t st s = Some (r, s')" and st: "within st SIZEOF_STATS user_part"
  shows "user_store L s s'"
proof -
  let ?P = "\<lambda>m. user_store L s (fst m)"
  have w: "keeps user_part (uwrite L) ?P" unfolding keeps_def using user_store_uwrite user_store_trans by blast
  obtain m where m: "copy_to_user (kread 28) (uwrite L) 0 st SIZEOF_STATS (s, \<lambda>k. stats_bytes (statics (task_of s t)) ! k) = Some (r, m)"
    "s' = fst m" using f by (auto simp: copy_stats_to_user_def split: bind_splits)
  obtain p q sz m1 where m1: "copy_dwords (kread 28) (uwrite L) 0 st SIZEOF_STATS (s, \<lambda>k. stats_bytes (statics (task_of s t)) ! k) = Some (p, q, sz, m1)"
    "copy_bytes (kread 28) (uwrite L) p q sz m1 = Some m"
    using m(1) by (auto simp: copy_to_user_def split: bind_splits)
  have "?P m1" "within q sz user_part" using copy_dwords_pred [OF m1(1) w st] by (simp_all add: user_store_mem)
  then show ?thesis using copy_bytes_pred [OF m1(2) w] m(2) by simp
qed

lemma user_store_getStatPID:
  assumes "getStatPID_loop L is pid st s = Some (r, s')" "within st SIZEOF_STATS user_part"
  shows "user_store L s s'"
  using assms by (induction "is") (auto split: if_splits bind_splits dest: user_store_stats simp: user_store_mem)

lemma stats_within:
  assumes "\<not> st < L_USER_START" "\<not> st > L_USER_START + of_nat ((NUM_PAG_DATA + NUM_PAG_CODE) * PAGE_SIZE)"
  shows "within st SIZEOF_STATS user_part"
proof -
  have st: "0x100000 \<le> unat st" "unat st \<le> 0x11C000" using assms by (simp_all add: word_less_nat_alt not_less)
  show ?thesis unfolding within_def user_part_def
  proof (intro allI impI CollectI)
    fix k assume "int k < sint SIZEOF_STATS"
    then have k: "k < 28" by simp
    then have "unat (st + of_nat k) = unat st + k"
      using st by (subst unat_plus_simple [THEN iffD1]) (simp_all add: word_le_nat_alt unat_word_ariths unat_of_nat32)
    then show "0x100000 \<le> unat (st + of_nat k) \<and> unat (st + of_nat k) < 0x11D000" using st k by simp
  qed
qed

lemma user_store_get_stats:
  assumes f: "sys_get_stats L pid st s = Some (v, s')" and cur: "current L s = Some c"
  shows "user_store L s s'"
proof -
  note current = same_control_current [OF conjunct1 [OF user_store_def [THEN iffD1]]]
  obtain s1 where s1: "act_ticks_user2kernel L s = Some s1" "user_store L s s1" using user_store_account(1) [OF cur] by blast
  have cur1: "current L s1 = Some c" using current [OF s1(2)] cur by simp
  obtain s2 where s2: "act_ticks_kernel2user L s1 = Some s2" "user_store L s1 s2" using user_store_account(2) [OF cur1] by blast
  let ?w = "within st SIZEOF_STATS user_part"
  have ret: "user_store L s1 s4" if "getStatPID L pid st s1 = Some (e, s3)" "act_ticks_kernel2user L s3 = Some s4" ?w for e s3 s4
  proof -
    have g: "user_store L s1 s3" using that(1,3) user_store_getStatPID by (simp add: getStatPID_def)
    then have "current L s3 = Some c" using current cur1 by simp
    then show ?thesis using user_store_account(2) that(2) g user_store_trans by fastforce
  qed
  have own: "user_store L s1 s4" if "copy_stats_to_user L c st s2 = Some (e, s4)" ?w for e s4
    using user_store_stats [OF that] s2(2) user_store_trans by blast
  consider "s' = s2" | e where "copy_stats_to_user L c st s2 = Some (e, s')" ?w
    | e s3 where "getStatPID L pid st s1 = Some (e, s3)" "act_ticks_kernel2user L s3 = Some s'" ?w
  proof (cases "sint pid < 0 \<or> st < L_USER_START \<or> st > L_USER_START + of_nat ((NUM_PAG_DATA + NUM_PAG_CODE) * PAGE_SIZE)")
    case True
    then have "s' = s2"
      using f unfolding sys_get_stats_def s1(1) bind.bind_lunit cur1 s2(1) by (auto split: if_splits)
    then show thesis by (rule that(1))
  next
    case False
    then have w: ?w using stats_within by blast
    show thesis
      using f False that(1) that(2) [OF _ w] that(3) [OF _ _ w] unfolding sys_get_stats_def s1(1) bind.bind_lunit cur1 s2(1)
      by (simp split: if_splits) (blast | (force split: bind_splits if_splits))+
  qed
  then have "user_store L s1 s'" using s2(2) ret own by cases blast+
  then show ?thesis using s1(2) user_store_trans by blast
qed

lemma same_control_get_stats:
  assumes "sys_get_stats L pid st s = Some (v, s')" "current L s = Some c"
  shows "same_control s s'"
  using user_store_get_stats [OF assms] by (simp add: user_store_def)

text \<open>Whatever its arguments, a call of \<^verbatim>\<open>sys_write\<close> that returns changes the screen and the accounting only.\<close>

lemma write_chunk_scr:
  assumes "write_chunk L buffer n (w, sz, s) = Some (w', sz', s')"
  shows "\<exists>d. s' = s\<lparr>scr := d\<rparr>"
proof -
  have k: "keeps UNIV (kwrite (unat n)) (\<lambda>m :: ucopy. fst m = s)" by (auto simp: keeps_def kwrite_def split: if_splits)
  obtain p q z m r buf where m: "copy_dwords (uread L) (kwrite (unat n)) (buffer + w) 0 n (s, \<lambda>_. 0) = Some (p, q, z, m)"
    "copy_bytes (uread L) (kwrite (unat n)) p q z m = Some (r, buf)"
    using assms by (auto simp: write_chunk_def copy_from_user_def split: bind_splits)
  moreover have "fst m = s" using copy_dwords_pred [OF m(1) k] by simp
  then have "r = s" using copy_bytes_pred [OF m(2) k] by simp
  ultimately show ?thesis
    using assms by (auto simp: write_chunk_def copy_from_user_def split: prod.splits)
qed

lemma write_loop_scr:
  assumes "write_loop L buffer (w, sz, s) = Some (w', sz', s')"
  shows "\<exists>d. s' = s\<lparr>scr := d\<rparr>"
proof -
  let ?P = "\<lambda>(L :: layout) (b :: dword) (x :: cint \<times> cint \<times> kernel) y :: cint \<times> cint \<times> kernel. \<exists>d. snd (snd y) = (snd (snd x))\<lparr>scr := d\<rparr>"
  have step: "?P L b x y" if ih: "\<And>L b x y. wl L b x = Some y \<Longrightarrow> ?P L b x y"
      and y: "(if sint MAX_WRITE \<le> sint (fst (snd x)) then Option.bind (write_chunk L b MAX_WRITE x) (wl L b) else Some x) = Some y"
    for wl L b x y
  proof (cases "sint MAX_WRITE \<le> sint (fst (snd x))")
    case True
    then obtain z where z: "write_chunk L b MAX_WRITE x = Some z" "wl L b z = Some y"
      using y by (auto split: bind_splits)
    obtain d where "snd (snd z) = (snd (snd x))\<lparr>scr := d\<rparr>" using write_chunk_scr z(1) by (metis prod.collapse)
    then show ?thesis using ih [OF z(2)] by auto
  next
    case False
    then have "y = x" using y by simp
    then show ?thesis by (intro exI [of _ "scr (snd (snd x))"]) simp
  qed
  have "?P L buffer (w, sz, s) (w', sz', s')"
    by (rule write_loop.raw_induct [of ?P "((L, buffer), (w, sz, s))" "(w', sz', s')", unfolded prod.case])
      (erule step, assumption, rule assms)
  then show ?thesis by simp
qed

lemma same_control_scr: "same_control s (s\<lparr>scr := d\<rparr>)" by (simp add: same_control_def)

lemma act_ticks_mem:
  "current L s = Some c \<Longrightarrow> act_ticks_user2kernel L s = Some s' \<Longrightarrow> mem s' = mem s"
  "current L s = Some c \<Longrightarrow> act_ticks_kernel2user L s = Some s' \<Longrightarrow> mem s' = mem s"
  by (auto simp: act_ticks_user2kernel_eq act_ticks_kernel2user_eq)

lemma sys_write_control:
  assumes f: "sys_write L fd buffer sz s = Some (v, s')" and cur: "current L s = Some c"
  shows "same_control s s' \<and> mem s' = mem s"
proof -
  obtain s1 where s1: "act_ticks_user2kernel L s = Some s1" "same_control s s1" using same_control_account(1) [OF cur] by blast
  obtain d where d: "act_ticks_kernel2user L (s1\<lparr>scr := d\<rparr>) = Some s'"
  proof -
    consider "act_ticks_kernel2user L s1 = Some s'"
      | w z s2 w' s3 where "write_loop L buffer (0, sz, s1) = Some (w, z, s2)"
        "write_chunk L buffer z (w, z, s2) = Some (w', 0, s3)" "act_ticks_kernel2user L s3 = Some s'"
      using f s1(1) by (auto simp: sys_write_def split: bind_splits if_splits)
    then show thesis
    proof cases
      case 1
      then show ?thesis using that [of "scr s1"] by simp
    next
      case 2
      then show ?thesis using that write_loop_scr [OF 2(1)] write_chunk_scr [OF 2(2)] by auto
    qed
  qed
  let ?s = "s1\<lparr>scr := d\<rparr>"
  have c: "same_control s ?s" using s1(2) same_control_scr same_control_trans by blast
  then have "current L ?s = Some c" using same_control_current cur by simp
  from same_control_account(2) [OF this] act_ticks_mem(2) [OF this] d
  have "same_control ?s s'" "mem s' = mem s1" by auto
  then show ?thesis using c same_control_trans act_ticks_mem(1) [OF cur s1(1)] by auto
qed

lemma sys_fork_full_control:
  assumes k: "kinv L s c i [] R B" and cur: "current L s = Some c" and f: "sys_fork L s = Some (v, s')"
  shows "v = - EAGAIN \<and> same_control s s' \<and> mem s' = mem s"
proof -
  obtain s1 where s1: "act_ticks_user2kernel L s = Some s1" "same_control s s1" using same_control_account(1) [OF cur] by blast
  have cur1: "current L s1 = Some c" using same_control_current [OF s1(2)] cur by simp
  obtain s2 where s2: "act_ticks_kernel2user L s1 = Some s2" "same_control s1 s2" using same_control_account(2) [OF cur1] by blast
  have "list_empty (Ptr FREEQUEUE) (links s1) = Some True"
    using free_empty_iff [OF kinvD(1) [OF k]] s1(2) by (simp add: same_control_def)
  then have "v = - EAGAIN" "s' = s2" using f s1(1) s2(1) by (simp_all add: sys_fork_def)
  then show ?thesis using s1 s2 same_control_trans act_ticks_mem cur cur1 by metis
qed

lemma brief_control:
  assumes cur: "current L s = Some c" and f: "sys_getpid L s = Some (v, s') \<or> sys_gettime L s = Some (v, s')"
  shows "same_control s s' \<and> mem s' = mem s"
proof -
  from brief_call [OF cur] f have "s' = s\<lparr>tsc_pos := tsc_pos s + 4, task := (task s)(c := (task s c)\<lparr>pcb :=
      (task_of s c)\<lparr>statics := statics (task_of s' c)\<rparr>\<rparr>)\<rparr>" by auto
  then obtain st where "s' = s\<lparr>tsc_pos := tsc_pos s + 4, task := (task s)(c := (task s c)\<lparr>pcb := (task_of s c)\<lparr>statics := st\<rparr>\<rparr>)\<rparr>" by blast
  then show ?thesis by (simp add: same_control_def)
qed

lemma good_same_control:
  assumes k: "kinv L s c i F R B" and p: "pids_ok s i F" and f: "same_control s s'"
  shows "good L s'"
proof (rule goodI)
  show "kinv L s' c i F R B" using kinvD(1) [OF k] f by (intro kinv_transfer [OF k]) (auto simp: same_control_def queues_are_def)
  show "pids_ok s' i F" using p f by (subst pids_ok_same [of s' s]) (auto simp: same_control_def)
qed

lemma kstep_good:
  assumes "kstep L emul show_clock s s'" and L: "layout_ok L" and lib: "screen_only emul" "screen_only show_clock"
    and g: "good L s"
  shows "good L s'"
proof -
  obtain c i F R B where k: "kinv L s c i F R B" and p: "pids_ok s i F" using g by (auto simp: good_def)
  have idle: "idle_task s = Some i" by (rule kinvD(2) [OF k])
  note r = runs_kinv [OF k]
  note cur = stack_room_current [OF L kinv_bounds(1) [OF k]]
  from assms(1) show ?thesis
  proof cases
    case (k_user c')
    then have u: "user_phase L c s s'" using r by auto
    then have "\<forall>t. PID (task_of s' t) = PID (task_of s t)" "PID_MAX s' = PID_MAX s" by (auto simp: user_phase_def)
    then show ?thesis by (rule good_same [OF kinv_user_phase [OF k u] p])
  next
    case (k_fork c' j v)
    then show ?thesis using r idle cur by (intro good_fork [OF L k p]) auto
  next
    case (k_exit c' rr)
    then show ?thesis using r idle by (intro good_exit [OF L k p]) auto
  next
    case (k_block c' rr)
    then show ?thesis using r idle by (intro good_block [OF L k p]) auto
  next
    case (k_unblock c' ps t u)
    then show ?thesis using r by (intro good_unblock [OF L k p]) auto
  next
    case (k_tick c' out)
    then show ?thesis using r by (intro good_tick [OF L k p _ lib]) auto
  next
    case (k_key key v)
    then show ?thesis by (rule good_key [OF k p])
  next
    case (k_getpid c' v)
    then show ?thesis using brief_control good_same_control [OF k p] by blast
  next
    case (k_gettime c' v)
    then show ?thesis using brief_control good_same_control [OF k p] by blast
  next
    case (k_write c' fd buffer sz v)
    then show ?thesis using sys_write_control good_same_control [OF k p] by blast
  next
    case (k_stats c' pid st v)
    then show ?thesis using same_control_get_stats good_same_control [OF k p] by blast
  qed
qed

text \<open>Every run from a good state stays in good states.\<close>

lemma run_good:
  assumes "(kstep L emul show_clock)\<^sup>*\<^sup>* s s'" "layout_ok L" "screen_only emul" "screen_only show_clock" "good L s"
  shows "good L s'"
  using assms by (induction rule: rtranclp_induct) (auto intro: kstep_good)

text \<open>A process that runs in user mode cannot change the data of another one.\<close>

lemma good_isolated:
  assumes g: "good L s" and c: "runs L s c" "0 < sint (PID (task_of s c))" "user_phase L c s s'"
    and t: "t < 10" "t \<noteq> c" "0 < sint (PID (task_of s t))" "n < 81920"
  shows "user_data s' t n = user_data s t n"
proof -
  obtain c' i F R B where k: "kinv L s c' i F R B" and p: "pids_ok s i F" using g by (auto simp: good_def)
  have "x \<in> live i F" if "0 < sint (PID (task_of s x))" "x < 10" for x
    using p that by (auto simp: live_def pids_ok_def)
  moreover have "c < 10" using c(1) by (simp add: runs_def)
  ultimately have "\<not> user_writable s c (data_loc (data_frame s t) n)"
    using isolation [OF kinvD(7) [OF k], of t c n] c(2) t by blast
  moreover have "data_frame s' t = data_frame s t" using c(3) by (auto simp: user_phase_def data_frame_def)
  ultimately show ?thesis using c(3) by (auto simp: user_phase_def user_data_def)
qed

section \<open>Rotation\<close>

text \<open>A turn ends with the next task of the ready queue on the processor.\<close>

lemma turn_kinv:
  assumes t: "turn L emul show_clock s s'" and L: "layout_ok L" and lib: "screen_only emul" "screen_only show_clock"
    and k: "kinv L s c i F R B" and p: "pids_ok s i F"
  shows "kinv L s' (fst (after_tick c i R)) i F (snd (after_tick c i R)) B \<and> pids_ok s' i F"
proof -
  obtain c' s1 r where s1: "runs L s c'" "user_phase L c' s s1"
    "clock_routine L (rr_policy L) emul show_clock s1 = Some (Switched r, s')"
    using t by (auto simp: turn_def)
  have u: "user_phase L c s s1" using s1 runs_kinv [OF k] by auto
  have k1: "kinv L s1 c i F R B" by (rule kinv_user_phase [OF k u])
  have p1: "pids_ok s1 i F" using p u by (subst pids_ok_same [of s1 s]) (auto simp: user_phase_def)
  have room: "stack_room L s1 c" using u by (simp add: user_phase_def)
  from rr.clock_ok [OF L k1 room pids_ok_idle [OF p1 k1] lib] s1(3)
  have "kinv L s' (fst (after_tick c i R)) i F (snd (after_tick c i R)) B"
    "PID_MAX s' = PID_MAX s1" "\<forall>t. PID (task_of s' t) = PID (task_of s1 t)" by (auto split: if_splits)
  then show ?thesis using p1 pids_ok_same [of s' s1 i F] by simp
qed

lemma turns_run:
  assumes "(turn L emul show_clock ^^ Suc j) s s'" "kinv L s c i F R B" "pids_ok s i F" "j < length R"
    and L: "layout_ok L" and lib: "screen_only emul" "screen_only show_clock"
  shows "runs L s' (R ! j)"
  using assms(1-4)
proof (induction j arbitrary: s c R)
  case 0
  then have "kinv L s' (fst (after_tick c i R)) i F (snd (after_tick c i R)) B"
    using turn_kinv [OF _ L lib] by auto
  moreover have "fst (after_tick c i R) = R ! 0" using 0(4) by (cases R) (auto simp: after_tick_def next_task_def)
  ultimately show ?case using kinvD(10) kinv_bounds(1) by (fastforce simp: runs_def)
next
  case (Suc j)
  obtain s1 where s1: "turn L emul show_clock s s1" "(turn L emul show_clock ^^ Suc j) s1 s'"
    using Suc.prems(1) by (metis relpowp_Suc_D2)
  let ?R = "snd (after_tick c i R)"
  have "kinv L s1 (fst (after_tick c i R)) i F ?R B" "pids_ok s1 i F"
    using turn_kinv [OF s1(1) L lib Suc.prems(2,3)] by auto
  moreover have "j < length ?R" "?R ! j = R ! Suc j"
    using Suc.prems(4) by (cases R; auto simp: after_tick_def nth_append)+
  ultimately show ?case using Suc.IH [OF s1(2)] by metis
qed

end
