(* ===== verification/Kernel_Entry.thy ===== *)
theory Kernel_Entry
  imports Kernel_Run
begin

text \<open>
  The processor around the C handlers: the state of a process in user mode, how a gate of the
  interrupt table enters the kernel, the macros and handlers of \<^verbatim>\<open>entry.S\<close> instruction by
  instruction, and the way back.  A C function is entered by \<^verbatim>\<open>call\<close> and its frame set-up;
  inside it the definitions of the kernel theories run.  The frames of the functions it calls
  in turn are not represented, they lie below its own and are gone when it continues.
\<close>

section \<open>The processor\<close>

text \<open>
  The registers the kernel state does not have (it has the stack and frame pointers and the
  registers C functions preserve), the selectors, and the interrupt controller: its mask and
  the commands it was sent.
\<close>

record machine =
  kern :: kernel
  m_eax :: dword
  m_ecx :: dword
  m_edx :: dword
  m_eip :: dword
  m_eflags :: dword
  m_cs :: hword
  m_ss :: hword
  m_ds :: hword
  m_es :: hword
  m_fs :: hword
  m_gs :: hword
  m_ldt :: hword
  port_21 :: byte
  port_20 :: "byte list"

text \<open>What a process sees of the processor.\<close>

record ucontext =
  u_ebx :: dword
  u_ecx :: dword
  u_edx :: dword
  u_esi :: dword
  u_edi :: dword
  u_ebp :: dword
  u_eax :: dword
  u_ds :: hword
  u_es :: hword
  u_fs :: hword
  u_gs :: hword
  u_eip :: dword
  u_cs :: hword
  u_eflags :: dword
  u_esp :: dword
  u_ss :: hword

definition context_of :: "machine \<Rightarrow> ucontext" where
  "context_of m = \<lparr>u_ebx = ebx (cpu (kern m)), u_ecx = m_ecx m, u_edx = m_edx m, u_esi = esi (cpu (kern m)),
     u_edi = edi (cpu (kern m)), u_ebp = ebp (cpu (kern m)), u_eax = m_eax m, u_ds = m_ds m, u_es = m_es m,
     u_fs = m_fs m, u_gs = m_gs m, u_eip = m_eip m, u_cs = m_cs m, u_eflags = m_eflags m,
     u_esp = esp (cpu (kern m)), u_ss = m_ss m\<rparr>"

text \<open>The privilege level is in the two low bits of the code selector.\<close>

abbreviation from_user :: "hword \<Rightarrow> bool" where "from_user sel \<equiv> sel AND 3 = 3"

definition EFLAGS_IF :: dword where [simp]: "EFLAGS_IF = 0x200"

text \<open>
  Through gate \<open>vector\<close>: from user mode the stack of the task state segment is taken and the old
  one saved on it; then the flags and the return address are saved.  An interrupt gate
  (type 14) disables interrupts, a trap gate (type 15) does not.
\<close>

definition interrupt :: "layout \<Rightarrow> nat \<Rightarrow> machine \<Rightarrow> machine option" where
  "interrupt L vector m =
     do { let s = kern m;
          let g = idt s vector;
          let outer = from_user (m_cs m);
          let saved = (if outer then [ucast (m_ss m), esp (cpu s)] else []) @ [m_eflags m, ucast (m_cs m), m_eip m];
          s \<leftarrow> mfold (pushl L) saved (if outer then set_reg_esp (tss_esp0 (tss s)) s else s);
          Some (m\<lparr>kern := s, m_ss := (if outer then tss_ss0 (tss s) else m_ss m),
                  m_cs := g_segmentSelector g, m_eip := gate_offset g,
                  m_eflags := (if bit (g_flags g) 8 then m_eflags m else m_eflags m AND NOT EFLAGS_IF)\<rparr>) }"

text \<open>The instruction \<^verbatim>\<open>int\<close> also checks that the gate may be used from user mode.\<close>

definition int_n :: "layout \<Rightarrow> nat \<Rightarrow> machine \<Rightarrow> machine option" where
  "int_n L vector m =
     (if from_user (m_cs m) \<and> gate_dpl (idt (kern m) vector) < 3 then None else interrupt L vector m)"

primrec popn :: "layout \<Rightarrow> nat \<Rightarrow> kernel \<Rightarrow> (dword list \<times> kernel) option" where
  "popn L 0 s = Some ([], s)"
| "popn L (Suc n) s = do { (v, s) \<leftarrow> popl L s; (vs, s) \<leftarrow> popn L n s; Some (v # vs, s) }"

text \<open>On the way to user mode a data segment register with a kernel selector is cleared.\<close>

definition outer_seg :: "hword \<Rightarrow> hword" where
  "outer_seg sel = (if sel = KERNEL_CS \<or> sel = KERNEL_DS then 0 else sel)"

definition outer_return :: "layout \<Rightarrow> machine \<Rightarrow> machine option" where
  "outer_return L m =
     do { (vs, s) \<leftarrow> popn L 2 (kern m);
          Some (m\<lparr>kern := set_reg_esp (vs ! 0) s, m_ss := ucast (vs ! 1), m_ds := outer_seg (m_ds m),
             m_es := outer_seg (m_es m), m_fs := outer_seg (m_fs m), m_gs := outer_seg (m_gs m)\<rparr>) }"

definition iret :: "layout \<Rightarrow> machine \<Rightarrow> machine option" where
  "iret L m =
     do { (vs, s) \<leftarrow> popn L 3 (kern m);
          let m = m\<lparr>kern := s, m_eip := vs ! 0, m_cs := ucast (vs ! 1), m_eflags := vs ! 2\<rparr>;
          if from_user (m_cs m) then outer_return L m else Some m }"

definition lret :: "layout \<Rightarrow> machine \<Rightarrow> machine option" where
  "lret L m =
     do { (vs, s) \<leftarrow> popn L 2 (kern m);
          let m = m\<lparr>kern := s, m_eip := vs ! 0, m_cs := ucast (vs ! 1)\<rparr>;
          if from_user (m_cs m) then outer_return L m else Some m }"

section \<open>entry.S\<close>

definition SAVE_ALL :: "layout \<Rightarrow> machine \<Rightarrow> machine option" where
  "SAVE_ALL L m =
     do { let r = cpu (kern m);
          s \<leftarrow> mfold (pushl L) [ucast (m_gs m), ucast (m_fs m), ucast (m_es m), ucast (m_ds m), m_eax m,
                 ebp r, edi r, esi r, m_edx m, m_ecx m, ebx r] (kern m);
          Some (m\<lparr>kern := s, m_edx := ucast KERNEL_DS, m_ds := KERNEL_DS, m_es := KERNEL_DS\<rparr>) }"

definition RESTORE_ALL :: "layout \<Rightarrow> machine \<Rightarrow> machine option" where
  "RESTORE_ALL L m =
     do { (vs, s) \<leftarrow> popn L 11 (kern m);
          Some (m\<lparr>kern := s\<lparr>cpu := (cpu s)\<lparr>ebx := vs ! 0, esi := vs ! 3, edi := vs ! 4, ebp := vs ! 5\<rparr>\<rparr>,
            m_ecx := vs ! 1, m_edx := vs ! 2, m_eax := vs ! 6, m_ds := ucast (vs ! 7), m_es := ucast (vs ! 8),
            m_fs := ucast (vs ! 9), m_gs := ucast (vs ! 10)\<rparr>) }"

text \<open>\<^verbatim>\<open>movb $0x20,%al; outb %al,$0x20\<close>\<close>

definition EOI :: "machine \<Rightarrow> machine" where
  "EOI m = m\<lparr>m_eax := (m_eax m AND 0xffffff00) OR 0x20, port_20 := port_20 m @ [0x20]\<rparr>"

text \<open>
  The frame of a C function with \<open>frame\<close> bytes of local variables, and its end, which gives
  the address it returns to.
\<close>

definition c_frame :: "layout \<Rightarrow> dword \<Rightarrow> kernel \<Rightarrow> kernel option" where
  "c_frame L frame s =
     do { s \<leftarrow> pushl L (ebp (cpu s)) s;
          let s = set_reg_ebp (esp (cpu s)) s;
          Some (set_reg_esp (esp (cpu s) - frame) s) }"

definition c_call :: "layout \<Rightarrow> dword \<Rightarrow> dword \<Rightarrow> kernel \<Rightarrow> kernel option" where
  "c_call L ret frame s = do { s \<leftarrow> pushl L ret s; c_frame L frame s }"

definition c_return :: "layout \<Rightarrow> kernel \<Rightarrow> (dword \<times> kernel) option" where
  "c_return L s =
     do { (v, s) \<leftarrow> popl L (set_reg_esp (ebp (cpu s)) s);
          popl L (set_reg_ebp v s) }"

text \<open>
  After the call, at the address \<open>ret\<close>, with the result in \<^verbatim>\<open>eax\<close>.  \<^verbatim>\<open>ecx\<close> and \<^verbatim>\<open>edx\<close>, which
  the function may have used, are not read before \<^verbatim>\<open>RESTORE_ALL\<close> loads them.
\<close>

definition c_result :: "layout \<Rightarrow> dword \<Rightarrow> cint \<Rightarrow> kernel \<Rightarrow> machine \<Rightarrow> machine option" where
  "c_result L ret v s m =
     do { (a, s) \<leftarrow> c_return L s;
          if a = ret then Some (m\<lparr>kern := s, m_eax := v\<rparr>) else None }"

definition handler_exit :: "layout \<Rightarrow> machine \<Rightarrow> machine option" where
  "handler_exit L m = do { m \<leftarrow> RESTORE_ALL L m; iret L m }"

text \<open>The label \<^verbatim>\<open>fin\<close>: the result replaces the saved \<^verbatim>\<open>eax\<close>.\<close>

definition fin :: "layout \<Rightarrow> machine \<Rightarrow> machine option" where
  "fin L m =
     do { s \<leftarrow> stack_write L (esp (cpu (kern m)) + 0x18) (m_eax m) (kern m);
          handler_exit L (m\<lparr>kern := s\<rparr>) }"

text \<open>
  The handlers.  The result is \<open>None\<close> with the state of the interrupted code that continues, or
  the point where another task continues, with the state there.  \<open>ret\<close> is the address behind
  the call.
\<close>

definition keyboard_handler :: "layout \<Rightarrow> byte \<Rightarrow> dword \<Rightarrow> dword \<Rightarrow> machine \<Rightarrow> machine option" where
  "keyboard_handler L key ret frame m =
     do { m \<leftarrow> SAVE_ALL L m;
          let m = EOI m;
          s \<leftarrow> c_call L ret frame (kern m);
          (v, s) \<leftarrow> keyboard_routine key s;
          m \<leftarrow> c_result L ret v s m;
          handler_exit L m }"

definition clock_handler_end :: "layout \<Rightarrow> dword \<Rightarrow> outcome \<times> kernel \<Rightarrow> machine \<Rightarrow> (resumed option \<times> machine) option" where
  "clock_handler_end L ret = (\<lambda>(out, s) m.
     case out of
       Return v \<Rightarrow> do { m \<leftarrow> c_result L ret v s m; m \<leftarrow> handler_exit L m; Some (None, m) }
     | Switched r \<Rightarrow> Some (Some r, m\<lparr>kern := s\<rparr>))"

definition clock_handler :: "layout \<Rightarrow> policy \<Rightarrow> (kernel \<Rightarrow> kernel option) \<Rightarrow> (kernel \<Rightarrow> kernel option)
    \<Rightarrow> dword \<Rightarrow> dword \<Rightarrow> machine \<Rightarrow> (resumed option \<times> machine) option" where
  "clock_handler L P emul show_clock ret frame m =
     do { m \<leftarrow> SAVE_ALL L m;
          let m = EOI m;
          s \<leftarrow> c_call L ret frame (kern m);
          x \<leftarrow> clock_routine L P emul show_clock s;
          clock_handler_end L ret x m }"

text \<open>
  The arguments of the C function are the words above its return address, which \<^verbatim>\<open>SAVE_ALL\<close>
  pushed last.  They belong to the called function, which may assign to its parameters
  (\<^verbatim>\<open>sys_write\<close> counts \<^verbatim>\<open>size\<close> down): \<open>left\<close> are the values it leaves there.
\<close>

fun params :: "sys_call \<Rightarrow> nat" where
  "params SYS_WRITE = 3"
| "params SYS_GET_STATS = 2"
| "params _ = 0"

primrec store_words :: "layout \<Rightarrow> dword \<Rightarrow> dword list \<Rightarrow> kernel \<Rightarrow> kernel option" where
  "store_words L a [] s = Some s"
| "store_words L a (v # vs) s = do { s \<leftarrow> stack_write L a v s; store_words L (a + 4) vs s }"

definition system_call_entry :: "layout \<Rightarrow> policy
    \<Rightarrow> (dword \<Rightarrow> dword \<Rightarrow> dword \<Rightarrow> kernel \<Rightarrow> (outcome \<times> kernel) option)
    \<Rightarrow> (dword \<Rightarrow> dword \<Rightarrow> dword \<Rightarrow> kernel \<Rightarrow> (outcome \<times> kernel) option)
    \<Rightarrow> dword \<Rightarrow> dword \<Rightarrow> dword list \<Rightarrow> machine \<Rightarrow> (resumed option \<times> machine) option" where
  "system_call_entry L P lib_read lib_policy ret frame left m =
     do { m \<leftarrow> SAVE_ALL L m;
          let eax = m_eax m;
          if sint eax < 0 \<or> 40 < sint eax
          then do { m \<leftarrow> fin L (m\<lparr>m_eax := - 38\<rparr>); Some (None, m) }
          else do {
            let sp = esp (cpu (kern m));
            a1 \<leftarrow> stack_read L sp (kern m);
            a2 \<leftarrow> stack_read L (sp + 4) (kern m);
            a3 \<leftarrow> stack_read L (sp + 8) (kern m);
            s \<leftarrow> c_call L ret frame (kern m);
            (out, s) \<leftarrow> system_call_handler L P lib_read lib_policy eax a1 a2 a3 s;
            case out of
              Return v \<Rightarrow> do { m \<leftarrow> c_result L ret v s m;
                              s \<leftarrow> store_words L sp (take (params (sys_call_table ! unat eax)) left) (kern m);
                              m \<leftarrow> fin L (m\<lparr>kern := s\<rparr>);
                              Some (None, m) }
            | Switched r \<Rightarrow> Some (Some r, m\<lparr>kern := s\<rparr>) } }"

section \<open>Continuing a task\<close>

text \<open>
  A task that a clock interrupt switched out continues behind \<^verbatim>\<open>sched_next()\<close> in
  \<^verbatim>\<open>clock_routine\<close>; a new process is entered at \<^verbatim>\<open>ret_from_fork\<close>, by a \<^verbatim>\<open>ret\<close> instead of a
  \<^verbatim>\<open>call\<close>; the idle task starts in \<^verbatim>\<open>cpu_idle\<close>, which enables interrupts and loops.
\<close>

definition clock_continue :: "layout \<Rightarrow> (kernel \<Rightarrow> kernel option) \<Rightarrow> dword \<Rightarrow> machine \<Rightarrow> (resumed option \<times> machine) option" where
  "clock_continue L show_clock ret m =
     do { x \<leftarrow> clock_routine_end L show_clock (kern m); clock_handler_end L ret x m }"

definition fork_continue :: "layout \<Rightarrow> dword \<Rightarrow> dword \<Rightarrow> machine \<Rightarrow> machine option" where
  "fork_continue L ret frame m =
     do { s \<leftarrow> c_frame L frame (kern m);
          (v, s) \<leftarrow> ret_from_fork L s;
          m \<leftarrow> c_result L ret v s m;
          fin L m }"

definition cpu_idle :: "layout \<Rightarrow> dword \<Rightarrow> machine \<Rightarrow> machine option" where
  "cpu_idle L frame m =
     do { s \<leftarrow> c_frame L frame (kern m);
          Some (m\<lparr>kern := s, m_eflags := m_eflags m OR EFLAGS_IF\<rparr>) }"

section \<open>Sequences of pushes and pops\<close>

definition poke :: "nat \<Rightarrow> (nat \<Rightarrow> dword) \<Rightarrow> kernel \<Rightarrow> kernel" where
  "poke t f s = s\<lparr>task := (task s)(t := (task s t)\<lparr>stack := f\<rparr>)\<rparr>"

lemma poke_sels [simp]:
  "cpu (poke t f s) = cpu s" "stack (task (poke t f s) t) = f" "t' \<noteq> t \<Longrightarrow> task (poke t f s) t' = task s t'"
  "task_of (poke t f s) t' = task_of s t'" "tss (poke t f s) = tss s" "idt (poke t f s) = idt s"
  by (simp_all add: poke_def)

definition pushed :: "nat \<Rightarrow> dword list \<Rightarrow> (nat \<Rightarrow> dword) \<Rightarrow> nat \<Rightarrow> dword" where
  "pushed j vs f k = (if j \<le> k \<and> k < j + length vs then rev vs ! (k - j) else f k)"

lemma pushed_Nil [simp]: "pushed j [] f = f"
  by (auto simp: pushed_def fun_eq_iff)

lemma poke_same [simp]: "poke t (stack (task s t)) s = s"
  by (simp add: poke_def)

lemma pushes_at:
  assumes "esp (cpu s) = elem_addr (task_base L) t (j + length vs)" "t < 10" "14 \<le> j" "j + length vs \<le> 1024"
  shows "mfold (pushl L) vs s = Some (set_reg_esp (elem_addr (task_base L) t j) (poke t (pushed j vs (stack (task s t))) s))"
  using assms
proof (induction vs arbitrary: s)
  case Nil
  have "cpu s = (cpu s)\<lparr>esp := elem_addr (task_base L) t j\<rparr>" using Nil(1) by (intro cpu_eqI) simp_all
  then show ?case by (simp add: set_reg_esp_def)
next
  case (Cons v vs)
  let ?k = "j + length vs"
  let ?s = "s\<lparr>cpu := (cpu s)\<lparr>esp := elem_addr (task_base L) t ?k\<rparr>,
       task := (task s)(t := (task s t)\<lparr>stack := (stack (task s t))(?k := v)\<rparr>)\<rparr>"
  have p: "pushl L v s = Some ?s" using Cons.prems by (intro pushl_at) simp_all
  have "mfold (pushl L) vs ?s = Some (set_reg_esp (elem_addr (task_base L) t j) (poke t (pushed j vs (stack (task ?s t))) ?s))"
    using Cons.prems by (intro Cons.IH) simp_all
  moreover have "pushed j vs ((stack (task s t))(?k := v)) = pushed j (v # vs) (stack (task s t))"
    by (auto simp: pushed_def fun_eq_iff nth_append)
  ultimately show ?case using p by (simp add: set_reg_esp_def poke_def)
qed

lemma pops_at:
  assumes "esp (cpu s) = elem_addr (task_base L) t j" "t < 10" "14 \<le> j" "j + n \<le> 1024"
  shows "popn L n s = Some (map (stack (task s t)) [j..<j + n], set_reg_esp (elem_addr (task_base L) t (j + n)) s)"
  using assms
proof (induction n arbitrary: j s)
  case 0
  have "cpu s = (cpu s)\<lparr>esp := elem_addr (task_base L) t j\<rparr>" using 0(1) by (intro cpu_eqI) simp_all
  then show ?case by (simp add: set_reg_esp_def)
next
  case (Suc n)
  let ?s = "s\<lparr>cpu := (cpu s)\<lparr>esp := elem_addr (task_base L) t (Suc j)\<rparr>\<rparr>"
  have p: "popl L s = Some (stack (task s t) j, ?s)" using Suc.prems by (intro popl_at) simp_all
  have "popn L n ?s = Some (map (stack (task ?s t)) [Suc j..<Suc j + n], set_reg_esp (elem_addr (task_base L) t (Suc j + n)) ?s)"
    using Suc.prems by (intro Suc.IH) simp_all
  moreover have "[j..<j + Suc n] = j # [Suc j..<Suc j + n]" by (simp add: upt_rec)
  ultimately show ?case using p by (simp add: set_reg_esp_def del: upt_Suc)
qed

section \<open>The saved context\<close>

text \<open>
  The top sixteen words of a kernel stack after \<^verbatim>\<open>SAVE_ALL\<close> (the layout in the comment of
  \<^verbatim>\<open>entry.S\<close>), as the context that \<^verbatim>\<open>RESTORE_ALL\<close> and \<^verbatim>\<open>iret\<close> load.
\<close>

definition context_at :: "(nat \<Rightarrow> dword) \<Rightarrow> ucontext" where
  "context_at f = \<lparr>u_ebx = f 1008, u_ecx = f 1009, u_edx = f 1010, u_esi = f 1011, u_edi = f 1012,
     u_ebp = f 1013, u_eax = f 1014, u_ds = outer_seg (ucast (f 1015)), u_es = outer_seg (ucast (f 1016)),
     u_fs = outer_seg (ucast (f 1017)), u_gs = outer_seg (ucast (f 1018)), u_eip = f 1019, u_cs = ucast (f 1020),
     u_eflags = f 1021, u_esp = f 1022, u_ss = ucast (f 1023)\<rparr>"

text \<open>A context of user mode: a selector of level 3 and no kernel selectors.\<close>

definition user_context :: "ucontext \<Rightarrow> bool" where
  "user_context x \<longleftrightarrow> from_user (u_cs x) \<and> outer_seg (u_ds x) = u_ds x \<and> outer_seg (u_es x) = u_es x
     \<and> outer_seg (u_fs x) = u_fs x \<and> outer_seg (u_gs x) = u_gs x"

lemma ucast16 [simp]: "(ucast (ucast (w :: hword) :: dword) :: hword) = w"
  by (rule bit_word_eqI) (simp add: bit_simps)

lemma context_at_cong: "(\<And>k. 1008 \<le> k \<Longrightarrow> g k = f k) \<Longrightarrow> context_at g = context_at f"
  by (simp add: context_at_def)

text \<open>The words of a context, from the highest address.\<close>

definition saved_words :: "ucontext \<Rightarrow> dword list" where
  "saved_words x = [ucast (u_ss x), u_esp x, u_eflags x, ucast (u_cs x), u_eip x] @
     [ucast (u_gs x), ucast (u_fs x), ucast (u_es x), ucast (u_ds x), u_eax x, u_ebp x, u_edi x, u_esi x, u_edx x, u_ecx x, u_ebx x]"

lemma length_saved_words [simp]: "length (saved_words x) = 16" by (simp add: saved_words_def)

lemma context_at_pushed: "user_context x \<Longrightarrow> context_at (pushed 1008 (saved_words x) f) = x"
  by (rule ucontext.equality) (simp_all add: context_at_def pushed_def saved_words_def user_context_def)

text \<open>The state at the end of \<^verbatim>\<open>SAVE_ALL\<close>.\<close>

definition entered :: "layout \<Rightarrow> nat \<Rightarrow> nat \<Rightarrow> machine \<Rightarrow> machine" where
  "entered L c vector m = (let g = idt (kern m) vector in
     m\<lparr>kern := set_reg_esp (elem_addr (task_base L) c 1008)
           (poke c (pushed 1008 (saved_words (context_of m)) (stack (task (kern m) c))) (kern m)),
       m_ss := tss_ss0 (tss (kern m)), m_cs := g_segmentSelector g, m_eip := gate_offset g,
       m_eflags := (if bit (g_flags g) 8 then m_eflags m else m_eflags m AND NOT EFLAGS_IF),
       m_edx := ucast KERNEL_DS, m_ds := KERNEL_DS, m_es := KERNEL_DS\<rparr>)"

lemma pushed_pushed: "pushed j vs (pushed (j + length vs) ws f) = pushed j (ws @ vs) f"
  by (rule ext) (auto simp: pushed_def nth_append)

lemma KERNEL_ESP_slot: "KERNEL_ESP L c = elem_addr (task_base L) c 1024"
  by (simp add: KERNEL_ESP_def task_addr_def elem_addr_def)

lemma poke_poke [simp]: "poke t g (poke t f s) = poke t g s"
  by (simp add: poke_def)

lemma set_reg_esp_simps [simp]:
  "set_reg_esp a (set_reg_esp b s) = set_reg_esp a s" "poke t f (set_reg_esp a s) = set_reg_esp a (poke t f s)"
  "esp (cpu (set_reg_esp a s)) = a" "ebp (cpu (set_reg_esp a s)) = ebp (cpu s)" "ebx (cpu (set_reg_esp a s)) = ebx (cpu s)"
  "esi (cpu (set_reg_esp a s)) = esi (cpu s)" "edi (cpu (set_reg_esp a s)) = edi (cpu s)"
  "task (set_reg_esp a s) = task s" "tss (set_reg_esp a s) = tss s" "idt (set_reg_esp a s) = idt s"
  by (simp_all add: set_reg_esp_def poke_def)

lemma entry_saves:
  assumes u: "from_user (m_cs m)" and c: "c < 10" "tss_esp0 (tss (kern m)) = KERNEL_ESP L c"
  shows "Option.bind (interrupt L vector m) (SAVE_ALL L) = Some (entered L c vector m)"
proof -
  let ?x = "context_of m" and ?s = "kern m"
  define ws where "ws = [ucast (u_ss ?x), u_esp ?x, u_eflags ?x, ucast (u_cs ?x), u_eip ?x]"
  define vs where "vs = [ucast (u_gs ?x), ucast (u_fs ?x), ucast (u_es ?x), ucast (u_ds ?x), u_eax ?x, u_ebp ?x,
    u_edi ?x, u_esi ?x, u_edx ?x, u_ecx ?x, u_ebx ?x]"
  have w: "saved_words ?x = ws @ vs" "length ws = 5" "length vs = 11" by (simp_all add: saved_words_def ws_def vs_def)
  define s1 where "s1 = set_reg_esp (elem_addr (task_base L) c 1019) (poke c (pushed 1019 ws (stack (task ?s c))) ?s)"
  have p1: "mfold (pushl L) ws (set_reg_esp (tss_esp0 (tss ?s)) ?s) = Some s1"
    using c w by (subst pushes_at [of _ L c 1019]) (simp_all add: KERNEL_ESP_slot s1_def)
  have p2: "mfold (pushl L) vs s1 = Some (set_reg_esp (elem_addr (task_base L) c 1008)
      (poke c (pushed 1008 (saved_words ?x) (stack (task ?s c))) ?s))"
    using c w pushed_pushed [of 1008 vs ws] by (subst pushes_at [of _ L c 1008]) (simp_all add: s1_def)
  have r: "ebx (cpu s1) = u_ebx ?x" "esi (cpu s1) = u_esi ?x" "edi (cpu s1) = u_edi ?x" "ebp (cpu s1) = u_ebp ?x"
    by (simp_all add: s1_def context_of_def)
  have i: "interrupt L vector m = Some (m\<lparr>kern := s1, m_ss := tss_ss0 (tss ?s),
                  m_cs := g_segmentSelector (idt ?s vector), m_eip := gate_offset (idt ?s vector),
                  m_eflags := (if bit (g_flags (idt ?s vector)) 8 then m_eflags m else m_eflags m AND NOT EFLAGS_IF)\<rparr>)"
  proof -
    have "(if from_user (m_cs m) then [ucast (m_ss m), esp (cpu ?s)] else []) @ [m_eflags m, ucast (m_cs m), m_eip m] = ws"
      by (simp add: u ws_def context_of_def)
    then show ?thesis unfolding interrupt_def Let_def by (simp add: u p1) (simp add: s1_def)
  qed
  have "SAVE_ALL L (m\<lparr>kern := s1, m_ss := a, m_cs := b, m_eip := d, m_eflags := e\<rparr>)
    = map_option (\<lambda>s. m\<lparr>kern := s, m_ss := a, m_cs := b, m_eip := d, m_eflags := e, m_edx := ucast KERNEL_DS,
          m_ds := KERNEL_DS, m_es := KERNEL_DS\<rparr>) (mfold (pushl L) vs s1)" for a b d e
  proof -
    have "[ucast (m_gs m), ucast (m_fs m), ucast (m_es m), ucast (m_ds m), m_eax m, ebp (cpu s1), edi (cpu s1), esi (cpu s1),
        m_edx m, m_ecx m, ebx (cpu s1)] = vs" unfolding r by (simp add: vs_def context_of_def)
    then show ?thesis unfolding SAVE_ALL_def Let_def by (cases "mfold (pushl L) vs s1") simp_all
  qed
  then show ?thesis unfolding i by (simp add: p2 entered_def Let_def)
qed

text \<open>The way back: whatever lies in the sixteen words becomes the context.\<close>

lemma upt_frame: "[1008..<1008 + 11] = [1008, 1009, 1010, 1011, 1012, 1013, 1014, 1015, 1016, 1017, (1018 :: nat)]"
  "[1019..<1019 + 3] = [1019, 1020, (1021 :: nat)]" "[1022..<1022 + 2] = [1022, (1023 :: nat)]"
  by (simp_all add: upt_rec)

lemma exit_loads:
  assumes c: "c < 10" "esp (cpu (kern m)) = elem_addr (task_base L) c 1008"
    and u: "from_user (ucast (stack (task (kern m) c) 1020))"
  shows "\<exists>m' r. handler_exit L m = Some m' \<and> context_of m' = context_at (stack (task (kern m) c))
    \<and> kern m' = (kern m)\<lparr>cpu := r\<rparr> \<and> port_20 m' = port_20 m \<and> port_21 m' = port_21 m"
proof -
  let ?f = "stack (task (kern m) c)" and ?e = "elem_addr (task_base L) c"
  define s1 where "s1 = (set_reg_esp (?e 1019) (kern m))\<lparr>cpu := (cpu (set_reg_esp (?e 1019) (kern m)))
    \<lparr>ebx := ?f 1008, esi := ?f 1011, edi := ?f 1012, ebp := ?f 1013\<rparr>\<rparr>"
  define m1 where "m1 = m\<lparr>kern := s1, m_ecx := ?f 1009, m_edx := ?f 1010, m_eax := ?f 1014, m_ds := ucast (?f 1015),
    m_es := ucast (?f 1016), m_fs := ucast (?f 1017), m_gs := ucast (?f 1018)\<rparr>"
  have r: "RESTORE_ALL L m = Some m1"
    using pops_at [OF c(2,1), of 11] unfolding RESTORE_ALL_def upt_frame by (simp add: m1_def s1_def)
  have s1: "esp (cpu s1) = ?e 1019" "task s1 = task (kern m)" by (simp_all add: s1_def set_reg_esp_def)
  have p1: "popn L 3 s1 = Some ([?f 1019, ?f 1020, ?f 1021], set_reg_esp (?e 1022) s1)"
    using pops_at [OF s1(1) c(1), of 3] unfolding upt_frame by (simp add: s1)
  have "popn L 2 (set_reg_esp (?e 1022) s1) = Some ([?f 1022, ?f 1023], set_reg_esp (?e 1024) s1)"
    using pops_at [of "set_reg_esp (?e 1022) s1" L c 1022 2] c(1) unfolding upt_frame by (simp add: s1)
  then have i: "iret L m1 = Some (m1\<lparr>kern := set_reg_esp (?f 1022) s1, m_eip := ?f 1019, m_cs := ucast (?f 1020),
      m_eflags := ?f 1021, m_ss := ucast (?f 1023), m_ds := outer_seg (m_ds m1),
      m_es := outer_seg (m_es m1), m_fs := outer_seg (m_fs m1), m_gs := outer_seg (m_gs m1)\<rparr>)"
    using p1 u by (simp add: iret_def outer_return_def m1_def Let_def)
  show ?thesis unfolding handler_exit_def r bind.bind_lunit i
    by (simp add: context_of_def context_at_def m1_def) (simp add: s1_def set_reg_esp_def, rule exI, rule refl)
qed

text \<open>
  With the call frame of the handler still on the stack, its end gives back the stack
  pointer of the entry.
\<close>

lemma slot_offset: "elem_addr b t j + of_nat (4 * k) = elem_addr b t (j + k)"
  by (simp add: elem_addr_def)

lemma c_call_at:
  assumes "c < 10" "esp (cpu s) = elem_addr (task_base L) c 1008" "n \<le> 992"
  shows "c_call L ret (of_nat (4 * n)) s = Some (set_reg_esp (elem_addr (task_base L) c (1006 - n))
      (set_reg_ebp (elem_addr (task_base L) c 1006) (poke c ((stack (task s c))(1007 := ret, 1006 := ebp (cpu s))) s)))"
proof -
  let ?e = "elem_addr (task_base L) c"
  let ?s = "s\<lparr>cpu := (cpu s)\<lparr>esp := ?e 1007\<rparr>, task := (task s)(c := (task s c)\<lparr>stack := (stack (task s c))(1007 := ret)\<rparr>)\<rparr>"
  have "pushl L ret s = Some ?s" using assms by (intro pushl_at) simp_all
  moreover have "pushl L (ebp (cpu s)) ?s = Some (?s\<lparr>cpu := (cpu ?s)\<lparr>esp := ?e 1006\<rparr>,
      task := (task ?s)(c := (task ?s c)\<lparr>stack := (stack (task ?s c))(1006 := ebp (cpu s))\<rparr>)\<rparr>)"
    using assms(1) by (intro pushl_at) simp_all
  moreover have "?e 1006 - of_nat (4 * n) = ?e (1006 - n)" using slot_offset [of "task_base L" c "1006 - n" n] assms(3) by (simp add: diff_eq_eq)
  ultimately show ?thesis by (simp add: c_call_def c_frame_def set_reg_defs poke_def Let_def)
qed

lemma c_return_at:
  assumes "c < 10" "ebp (cpu s) = elem_addr (task_base L) c 1006"
  shows "c_return L s = Some (stack (task s c) 1007,
     set_reg_esp (elem_addr (task_base L) c 1008) (set_reg_ebp (stack (task s c) 1006) s))"
proof -
  let ?e = "elem_addr (task_base L) c" and ?s = "set_reg_esp (ebp (cpu s)) s"
  have "popl L ?s = Some (stack (task s c) 1006, ?s\<lparr>cpu := (cpu ?s)\<lparr>esp := ?e (Suc 1006)\<rparr>\<rparr>)"
    using assms by (subst popl_at [of ?s L c 1006]) simp_all
  moreover have "popl L (set_reg_ebp v (?s\<lparr>cpu := (cpu ?s)\<lparr>esp := ?e (Suc 1006)\<rparr>\<rparr>)) = Some (stack (task s c) 1007,
     set_reg_esp (?e 1008) (set_reg_ebp v s))" for v
    using assms(1) by (subst popl_at [of _ L c 1007]) (simp_all add: set_reg_defs)
  ultimately show ?thesis by (simp add: c_return_def)
qed

lemma c_result_at:
  assumes "c < 10" "ebp (cpu s) = elem_addr (task_base L) c 1006" "stack (task s c) 1007 = ret"
  shows "c_result L ret v s m = Some (m\<lparr>kern := set_reg_esp (elem_addr (task_base L) c 1008)
     (set_reg_ebp (stack (task s c) 1006) s), m_eax := v\<rparr>)"
  using assms by (simp add: c_result_def c_return_at)

lemma store_words_at:
  "t < 10 \<Longrightarrow> 14 \<le> j \<Longrightarrow> j + length vs \<le> 1024 \<Longrightarrow> store_words L (elem_addr (task_base L) t j) vs s
     = Some (poke t (pushed j (rev vs) (stack (task s t))) s)"
proof (induction vs arbitrary: j s)
  case (Cons v vs)
  let ?s = "poke t ((stack (task s t))(j := v)) s"
  have "stack_write L (elem_addr (task_base L) t j) v s = Some ?s"
    using Cons.prems by (simp add: stack_write_def poke_def)
  moreover have "elem_addr (task_base L) t j + 4 = elem_addr (task_base L) t (Suc j)" by (simp add: elem_addr_def)
  moreover have "pushed (Suc j) (rev vs) ((stack (task s t))(j := v)) = pushed j (rev (v # vs)) (stack (task s t))"
    by (auto simp: pushed_def fun_eq_iff nth_Cons')
  ultimately show ?case using Cons.prems by (simp add: Cons.IH del: rev.simps)
qed simp

lemma fin_loads:
  assumes c: "c < 10" "esp (cpu (kern m)) = elem_addr (task_base L) c 1008"
    and u: "from_user (ucast (stack (task (kern m) c) 1020))"
  shows "\<exists>m' f r. fin L m = Some m' \<and> context_of m' = (context_at (stack (task (kern m) c)))\<lparr>u_eax := m_eax m\<rparr>
    \<and> kern m' = (poke c f (kern m))\<lparr>cpu := r\<rparr> \<and> port_20 m' = port_20 m \<and> port_21 m' = port_21 m"
proof -
  let ?f = "(stack (task (kern m) c))(1014 := m_eax m)"
  let ?m = "m\<lparr>kern := poke c ?f (kern m)\<rparr>"
  have "elem_addr (task_base L) c 1008 + 0x18 = elem_addr (task_base L) c 1014" by (simp add: elem_addr_def)
  then have w: "stack_write L (esp (cpu (kern m)) + 0x18) (m_eax m) (kern m) = Some (poke c ?f (kern m))"
    using c by (simp add: stack_write_def poke_def)
  obtain m' r where m': "handler_exit L ?m = Some m'" "context_of m' = context_at ?f" "kern m' = (poke c ?f (kern m))\<lparr>cpu := r\<rparr>"
    "port_20 m' = port_20 m" "port_21 m' = port_21 m"
    using exit_loads [of c ?m L] c u by auto
  moreover have "context_at ?f = (context_at (stack (task (kern m) c)))\<lparr>u_eax := m_eax m\<rparr>" by (simp add: context_at_def)
  ultimately show ?thesis using w by (intro exI [of _ m'] exI [of _ ?f] exI [of _ r]) (simp add: fin_def)
qed

section \<open>A system call from user mode and back\<close>

text \<open>The kernel state in which a handler entered from \<open>m\<close> runs.\<close>

definition in_handler :: "layout \<Rightarrow> nat \<Rightarrow> dword \<Rightarrow> nat \<Rightarrow> machine \<Rightarrow> kernel" where
  "in_handler L c ret n m = set_reg_esp (elem_addr (task_base L) c (1006 - n)) (set_reg_ebp (elem_addr (task_base L) c 1006)
     (poke c ((pushed 1008 (saved_words (context_of m)) (stack (task (kern m) c)))(1007 := ret, 1006 := ebp (cpu (kern m)))) (kern m)))"

definition with_args :: "dword list \<Rightarrow> ucontext \<Rightarrow> ucontext" where
  "with_args ws x = x\<lparr>u_ebx := (if 0 < length ws then ws ! 0 else u_ebx x),
     u_ecx := (if 1 < length ws then ws ! 1 else u_ecx x), u_edx := (if 2 < length ws then ws ! 2 else u_edx x)\<rparr>"

lemma with_args_Nil [simp]: "with_args [] x = x" by (simp add: with_args_def)

lemma context_at_args: "length ws \<le> 3 \<Longrightarrow> context_at (pushed 1008 (rev ws) f) = with_args ws (context_at f)"
  by (rule ucontext.equality) (auto simp: context_at_def with_args_def pushed_def)

lemma in_handler_call:
  assumes "c < 10" "n \<le> 992"
  shows "c_call L ret (of_nat (4 * n)) (kern (entered L c v m)) = Some (in_handler L c ret n m)"
  using assms by (subst c_call_at [of c]) (simp_all add: entered_def in_handler_def Let_def set_reg_ebp_def set_reg_esp_def poke_def)

lemma in_handler_sels:
  "esp (cpu (in_handler L c ret n m)) = elem_addr (task_base L) c (1006 - n)"
  "ebp (cpu (in_handler L c ret n m)) = elem_addr (task_base L) c 1006"
  "stack (task (in_handler L c ret n m) c) 1007 = ret"
  "1008 \<le> k \<Longrightarrow> stack (task (in_handler L c ret n m) c) k = pushed 1008 (saved_words (context_of m)) (stack (task (kern m) c)) k"
  by (simp_all add: in_handler_def set_reg_ebp_def)

text \<open>
  A handler that keeps its frame pointer and the words above it returns to the process,
  with the value of the handler in \<^verbatim>\<open>eax\<close>.
\<close>

lemma handled:
  assumes x: "user_context (context_of m)" and c: "c < 10"
    and k: "ebp (cpu s) = ebp (cpu (in_handler L c ret n m))" "\<And>k. 1006 \<le> k \<Longrightarrow> stack (task s c) k = stack (task (in_handler L c ret n m) c) k"
  shows "\<exists>m1. c_result L ret v s m0 = Some m1 \<and> esp (cpu (kern m1)) = elem_addr (task_base L) c 1008 \<and> m_eax m1 = v
    \<and> task (kern m1) = task s \<and> port_20 m1 = port_20 m0 \<and> port_21 m1 = port_21 m0 \<and> (\<exists>r. kern m1 = s\<lparr>cpu := r\<rparr>)
    \<and> context_at (stack (task s c)) = context_of m \<and> from_user (ucast (stack (task s c) 1020))"
proof -
  have "context_at (stack (task s c)) = context_at (pushed 1008 (saved_words (context_of m)) (stack (task (kern m) c)))"
    using k(2) by (intro context_at_cong) (simp add: in_handler_sels)
  then have "context_at (stack (task s c)) = context_of m" using context_at_pushed [OF x] by simp
  moreover from this have "from_user (ucast (stack (task s c) 1020))"
    using x by (auto simp: user_context_def context_at_def dest: arg_cong [of _ _ u_cs])
  moreover have "c_result L ret v s m0 = Some (m0\<lparr>kern := set_reg_esp (elem_addr (task_base L) c 1008)
     (set_reg_ebp (stack (task s c) 1006) s), m_eax := v\<rparr>)"
    using c k by (intro c_result_at) (simp_all add: in_handler_sels)
  ultimately show ?thesis by (auto simp: set_reg_defs)
qed

lemma call_returns:
  assumes x: "user_context (context_of m)" and c: "c < 10" "tss_esp0 (tss (kern m)) = KERNEL_ESP L c"
    and n: "n \<le> 992" and g: "gate_dpl (idt (kern m) 0x80) = 3" and e: "0 \<le> sint (m_eax m)" "sint (m_eax m) \<le> 40"
    and h: "system_call_handler L P lr lp (m_eax m) (ebx (cpu (kern m))) (m_ecx m) (m_edx m) (in_handler L c ret n m) = Some (Return v, s')"
    and k: "ebp (cpu s') = ebp (cpu (in_handler L c ret n m))" "\<And>k. 1006 \<le> k \<Longrightarrow> stack (task s' c) k = stack (task (in_handler L c ret n m) c) k"
  shows "\<exists>m' f r. Option.bind (int_n L 0x80 m) (system_call_entry L P lr lp ret (of_nat (4 * n)) left) = Some (None, m')
    \<and> context_of m' = (with_args (take (params (sys_call_table ! unat (m_eax m))) left) (context_of m))\<lparr>u_eax := v\<rparr>
    \<and> kern m' = (poke c f s')\<lparr>cpu := r\<rparr>"
proof -
  let ?e = "entered L c 0x80 m" and ?ws = "take (params (sys_call_table ! unat (m_eax m))) left"
  have en: "Option.bind (interrupt L 0x80 m) (SAVE_ALL L) = Some ?e"
    using x by (intro entry_saves [OF _ c]) (simp add: user_context_def context_of_def)
  have ee: "m_eax ?e = m_eax m" "esp (cpu (kern ?e)) = elem_addr (task_base L) c 1008"
    "stack (task (kern ?e) c) = pushed 1008 (saved_words (context_of m)) (stack (task (kern m) c))"
    by (simp_all add: entered_def Let_def)
  have a: "elem_addr (task_base L) c 1008 + 4 = elem_addr (task_base L) c 1009"
    "elem_addr (task_base L) c 1008 + 8 = elem_addr (task_base L) c 1010" by (simp_all add: elem_addr_def)
  have args: "stack_read L (esp (cpu (kern ?e))) (kern ?e) = Some (ebx (cpu (kern m)))"
    "stack_read L (esp (cpu (kern ?e)) + 4) (kern ?e) = Some (m_ecx m)"
    "stack_read L (esp (cpu (kern ?e)) + 8) (kern ?e) = Some (m_edx m)"
    using c unfolding ee(2) a by (simp_all add: stack_read_def ee(3) pushed_def saved_words_def context_of_def)
  obtain m1 r where m1: "c_result L ret v s' ?e = Some m1" "esp (cpu (kern m1)) = elem_addr (task_base L) c 1008" "m_eax m1 = v"
    "task (kern m1) = task s'" "kern m1 = s'\<lparr>cpu := r\<rparr>"
    "context_at (stack (task s' c)) = context_of m" "from_user (ucast (stack (task s' c) 1020))"
    using handled [OF x c(1) k, where v = v and ?m0.0 = ?e] by blast
  define f1 where "f1 = pushed 1008 (rev ?ws) (stack (task s' c))"
  have len: "length ?ws \<le> 3" by (cases "sys_call_table ! unat (m_eax m)") auto
  then have st: "store_words L (esp (cpu (kern ?e))) ?ws (kern m1) = Some (poke c f1 (kern m1))"
    unfolding ee(2) using c(1) by (subst store_words_at) (simp_all add: m1(4) f1_def)
  have "f1 1020 = stack (task s' c) 1020" using len by (auto simp: f1_def pushed_def)
  then obtain m' f r' where m': "fin L (m1\<lparr>kern := poke c f1 (kern m1)\<rparr>) = Some m'"
    "context_of m' = (context_at f1)\<lparr>u_eax := v\<rparr>" "kern m' = (poke c f (poke c f1 (kern m1)))\<lparr>cpu := r'\<rparr>"
    using fin_loads [of c "m1\<lparr>kern := poke c f1 (kern m1)\<rparr>" L] c(1) m1(2,3,7) by auto
  have cx: "context_at f1 = with_args ?ws (context_of m)" using context_at_args [OF len] m1(6) by (simp only: f1_def)
  have "system_call_entry L P lr lp ret (of_nat (4 * n)) left m0 = Some (None, m')" if m0: "SAVE_ALL L m0 = Some ?e" for m0
    using e h st m1(1) m'(1) in_handler_call [OF c(1) n]
    by (simp add: system_call_entry_def m0 ee(1) args Let_def)
  then have "Option.bind (int_n L 0x80 m) (system_call_entry L P lr lp ret (of_nat (4 * n)) left) = Some (None, m')"
    using en g by (cases "interrupt L 0x80 m") (simp_all add: int_n_def)
  moreover have "kern m' = (poke c f s')\<lparr>cpu := r'\<rparr>" using m'(3) m1(5) by (simp add: poke_def)
  ultimately show ?thesis using m'(2) cx by auto
qed

end
