(* ===== verification/Kernel_Isolation.thy ===== *)
theory Kernel_Isolation
  imports Kernel_Run
begin

text \<open>
  Memory protection along runs: whatever other processes compute, call or are interrupted by,
  the data of a process that is not on the processor stays as it is, and user mode never
  writes to the memory of the kernel.
\<close>

section \<open>The data of the others\<close>

lemma user_data_cong: "mem s' = mem s \<Longrightarrow> pagusr_table s' = pagusr_table s \<Longrightarrow> user_data s' t = user_data s t"
  by (rule ext) (simp add: user_data_def data_loc_def data_frame_def)

lemma user_data_store:
  assumes L: "layout_ok L" and k: "kinv L s c i F R B" and ci: "c \<noteq> i" and f: "user_store L s s'"
    and t: "t \<in> live i F" "t \<noteq> c" "n < 81920"
  shows "user_data s' t n = user_data s t n"
proof -
  have cA: "c \<in> live i F" using live_tasks [OF k] ci by auto
  have "data_frame s' t = data_frame s t" using f by (auto simp: user_store_def same_control_def data_frame_def)
  moreover have "mem s' (data_loc (data_frame s t) n) = mem s (data_loc (data_frame s t) n)"
    using user_part_disjoint [OF L kinvD(7) [OF k] t(1) cA t(2,3) kinvD(9) [OF k]] f
    unfolding user_store_def user_part_def by blast
  ultimately show ?thesis by (simp add: user_data_def)
qed

lemma user_data_fork:
  assumes L: "layout_ok L" and k: "kinv L s c i F R B" and ci: "c \<noteq> i" and cur: "current L s = Some c"
    and bp: "ebp (cpu s) = elem_addr (task_base L) c (Suc j)" "14 \<le> j" "Suc j < 1024"
    and f: "sys_fork L s = Some (v, s')" and t: "t \<in> live i F" "t \<noteq> c" "n < 81920"
  shows "user_data s' t n = user_data s t n"
proof (cases F)
  case Nil
  with k have "kinv L s c i [] R B" by simp
  from sys_fork_full_control [OF this cur f] show ?thesis
    using user_data_cong [of s' s] by (simp add: same_control_def)
next
  case (Cons ch F')
  with k have k': "kinv L s c i (ch # F') R B" by simp
  from sys_fork_ok [OF L k' ci cur bp] f have "forked L s c ch j (live i (ch # F')) s'" by auto
  then show ?thesis using t Cons by (auto simp: forked_def)
qed

lemma kstep_data:
  assumes "kstep L emul show_clock s s'" and L: "layout_ok L" and lib: "screen_only emul" "screen_only show_clock"
    and g: "good L s" and t: "\<not> runs L s t" "t < 10" "0 < sint (PID (task_of s t))" "n < 81920"
  shows "user_data s' t n = user_data s t n"
proof -
  obtain c i F R B where k: "kinv L s c i F R B" and p: "pids_ok s i F" using g by (auto simp: good_def)
  have idle: "idle_task s = Some i" by (rule kinvD(2) [OF k])
  have run: "runs L s c" using kinvD(10) [OF k] kinv_bounds(1) [OF k] by (simp add: runs_def)
  have tc: "t \<noteq> c" using run t(1) by auto
  have tl: "t \<in> live i F" using p t(2,3) by (auto simp: live_def pids_ok_def)
  note r = runs_kinv [OF k]
  note cur = stack_room_current [OF L kinv_bounds(1) [OF k]]
  have store: "user_data s' t n = user_data s t n" if "user_store L s s'" "c \<noteq> i"
    using user_data_store [OF L k that(2,1) tl tc t(4)] .
  have unchanged: "user_data s' t n = user_data s t n" if "mem s' = mem s" "pagusr_table s' = pagusr_table s"
    using user_data_cong [OF that] by simp
  from assms(1) show ?thesis
  proof cases
    case (k_user c')
    then have u: "user_phase L c s s'" using r by auto
    show ?thesis
    proof (cases "c = i")
      case True
      then have "mem s' = mem s" "pagusr_table s' = pagusr_table s" using u idle by (auto simp: user_phase_def)
      then show ?thesis by (rule unchanged)
    next
      case False
      then have "0 < sint (PID (task_of s c))" using p live_tasks [OF k] by (auto simp: pids_ok_def)
      then show ?thesis using good_isolated [OF g run _ u t(2) tc t(3,4)] by blast
    qed
  next
    case (k_fork c' j v)
    then show ?thesis using r idle cur tl tc t(4) by (intro user_data_fork [OF L k]) auto
  next
    case (k_exit c' rr)
    then have "c \<noteq> i" "stack_room L s c" using r idle by auto
    from rr.exit_ok [OF L k this] k_exit(4) show ?thesis by (intro unchanged) auto
  next
    case (k_block c' rr)
    then have "c \<noteq> i" "stack_room L s c" using r idle by auto
    from rr.block_ok [OF L k this] k_block(4) show ?thesis by (intro unchanged) auto
  next
    case (k_unblock c' ps b u)
    then have c: "c' = c" using r by blast
    have "b \<in> set B" using k_unblock(3,4) console_queue_eq [OF kinvD(1) [OF k]] by auto
    then obtain B1 B2 where B: "B = B1 @ b # B2" by (meson split_list)
    have "c = i \<Longrightarrow> needs_sched (rr_policy L) s = 0" using k_unblock(5) idle c by (auto simp: rr_policy_def)
    from rr.unblock_ok [OF L k [unfolded B] k_unblock(2) [unfolded c] this] k_unblock(6) show ?thesis by (intro unchanged) auto
  next
    case (k_tick c' out)
    then have "stack_room L s c" using r by auto
    from rr.clock_ok [OF L k this pids_ok_idle [OF p k] lib] k_tick(3) show ?thesis by (intro unchanged) auto
  next
    case (k_key key v)
    then show ?thesis by (intro unchanged) (auto simp: keyboard_routine_def Let_def split: if_splits)
  next
    case (k_getpid c' v)
    then show ?thesis using brief_control [OF k_getpid(1) disjI1 [OF k_getpid(3)]] r idle by (intro store user_store_mem) auto
  next
    case (k_gettime c' v)
    then show ?thesis using brief_control [OF k_gettime(1) disjI2 [OF k_gettime(3)]] r idle by (intro store user_store_mem) auto
  next
    case (k_write c' fd buffer sz v)
    then show ?thesis using sys_write_control [OF k_write(4,1)] r idle by (intro store user_store_mem) auto
  next
    case (k_stats c' pid st v)
    then show ?thesis using user_store_get_stats [OF k_stats(4,1)] r idle by (intro store) auto
  qed
qed

section \<open>The data through the page table\<close>

lemma data_translate:
  assumes L: "layout_ok L" and k: "kinv L s c i F R B" and ci: "c \<noteq> i" and n: "n < 81920"
  shows "translate L (0x108000 + of_nat n) s = Some (data_loc (data_frame s c) n)"
proof -
  have "c \<in> live i F" using live_tasks [OF k] ci by auto
  then have asp: "aspace L s c" by (rule mm_invD(3) [OF kinvD(7) [OF k]])
  have "run_at (translate L) 0x108000 s (map (data_loc (data_frame s c)) [0..<81920])"
    by (rule data_run [OF L mm_invD(1) [OF kinvD(7) [OF k]] kinv_bounds(1) [OF k] kinvD(9) [OF k], of 264])
      (use asp data_frame_bounds [OF asp] in \<open>auto simp: aspace_def\<close>)
  then show ?thesis unfolding run_at_iff using n by (simp del: upt_rec_numeral)
qed

section \<open>The memory of the kernel\<close>

text \<open>
  The first 256 frames hold the kernel and its tables; the page table of a process gives it no
  access to them.
\<close>

lemma good_address_space:
  assumes g: "good L s" and t: "t < 10" "0 < sint (PID (task_of s t))"
  shows "dir_pages_baseAddr (task_of s t) = dir_addr L t \<and> dir_pages s t 0 = user_pte (drop_bit 12 (pt_addr L t))
    \<and> (\<forall>p<256. \<not> pte_user (pagusr_table s t p))
    \<and> (\<forall>p\<in>{256..<284}. pte_present (pagusr_table s t p) \<and> pte_user (pagusr_table s t p)
         \<and> unat (pbase_addr (pagusr_table s t p)) \<in> {256..<1024})
    \<and> (\<forall>p\<in>{284..<1024}. pagusr_table s t p = 0)
    \<and> (\<forall>a. user_writable s t a \<longrightarrow> 0x100000 \<le> unat a \<and> unat a < 0x400000)"
proof -
  obtain c i F R B where k: "kinv L s c i F R B" and p: "pids_ok s i F" using g by (auto simp: good_def)
  have tA: "t \<in> live i F" using p t by (auto simp: live_def pids_ok_def)
  note m = kinvD(7) [OF k]
  note asp = mm_invD(3) [OF m tA]
  have fr: "f \<in> {256..<1024}" if "f \<in> code_frames \<union> frames_of s t" for f
    using that frames_of_sub [OF m] tA user_frames_bounds by (fastforce simp: code_frames_def code_frame_def)
  have "pte_present (pagusr_table s t q) \<and> pte_user (pagusr_table s t q) \<and> unat (pbase_addr (pagusr_table s t q)) \<in> {256..<1024}"
    if q: "q \<in> {256..<284}" for q
  proof -
    have "pte_present (pagusr_table s t q) \<and> pte_user (pagusr_table s t q)"
    proof (cases "q < 264")
      case True
      define j where "j = q - 256"
      then have "q = 256 + j" "j < 8" using q True by auto
      then show ?thesis using asp by (simp add: aspace_def)
    next
      case False
      define j where "j = q - 264"
      then have "q = 264 + j" "j < 20" using q False by auto
      then show ?thesis using data_page [OF asp] by simp
    qed
    then show ?thesis using page_frame [OF m tA] fr q by auto
  qed
  moreover have "0x100000 \<le> unat a \<and> unat a < 0x400000" if w: "user_writable s t a" for a
  proof -
    obtain f k where f: "f \<in> code_frames \<union> frames_of s t" "k < 4096" "a = of_nat (4096 * f + k)"
      by (rule user_writable_page [OF m tA w])
    have "256 \<le> f" "f < 1024" using fr [OF f(1)] by auto
    then show ?thesis using unat_va [OF _ f(2), of f] f by simp
  qed
  ultimately show ?thesis
    using asp mm_invD(1,7,8) [OF m] t(1) by (auto simp: aspace_def dirs_ok_def)
qed

end
