(* ===== verification/Kernel_Resume.thy ===== *)
theory Kernel_Resume
  imports Kernel_Entry Kernel_Isolation
begin

text \<open>
  What a process sees of the kernel: a call returns to it with its registers as it left
  them; a child continues with the registers of its parent; a process that a clock interrupt
  took off the processor continues, whatever the others do in the meantime, with the
  registers it had.
\<close>

section \<open>Calls\<close>

text \<open>The entry is the end of a phase in user mode.\<close>

lemma in_handler_phase:
  assumes "n \<le> 986"
  shows "user_phase L c (kern m) (in_handler L c ret n m)"
  unfolding user_phase_def
proof (intro conjI exI)
  show "in_handler L c ret n m = (kern m)\<lparr>cpu := cpu (in_handler L c ret n m), task := (task (kern m))(c := (task (kern m) c)
      \<lparr>stack := stack (task (in_handler L c ret n m) c)\<rparr>), mem := mem (kern m)\<rparr>"
    by (rule kernel.equality) (simp_all add: in_handler_def poke_def set_reg_defs)
  show "stack_room L (in_handler L c ret n m) c"
    unfolding stack_room_def using assms by (intro exI [of _ "1006 - n"]) (auto simp: in_handler_sels)
qed simp

lemma in_handler_kinv:
  assumes "kinv L (kern m) c i F R B" "n \<le> 986"
  shows "kinv L (in_handler L c ret n m) c i F R B" "stack_room L (in_handler L c ret n m) c"
  using kinv_user_phase [OF assms(1) in_handler_phase [OF assms(2)]] in_handler_phase [OF assms(2)]
  by (auto simp: user_phase_def)

text \<open>The calls that return, all but \<^verbatim>\<open>exit\<close> and the two of the library, keep the frame they were called with.\<close>

definition returning_call :: "sys_call \<Rightarrow> bool" where
  "returning_call k \<longleftrightarrow> k \<notin> {SYS_EXIT, SYS_READ, SYS_SET_SCHED_POLICY}"

lemma same_control_stack: "same_control s s' \<Longrightarrow> ebp (cpu s') = ebp (cpu s) \<and> stack (task s' t) = stack (task s t)"
  by (simp add: same_control_def)

lemma fork_keeps_stack:
  assumes L: "layout_ok L" and k: "kinv L s c i F R B" and ci: "c \<noteq> i" and cur: "current L s = Some c"
    and bp: "ebp (cpu s) = elem_addr (task_base L) c (Suc j)" "14 \<le> j" "Suc j < 1024" and f: "sys_fork L s = Some (v, s')"
  shows "ebp (cpu s') = ebp (cpu s) \<and> stack (task s' c) = stack (task s c)"
proof (cases F)
  case Nil
  with k have "kinv L s c i [] R B" by simp
  from sys_fork_full_control [OF this cur f] show ?thesis using same_control_stack by blast
next
  case (Cons ch F')
  with k have "kinv L s c i (ch # F') R B" by simp
  from sys_fork_ok [OF L this ci cur bp] f show ?thesis by (auto simp: forked_def)
qed

lemma call_keeps_frame:
  assumes L: "layout_ok L" and k: "kinv L s c i F R B" and ci: "c \<noteq> i" and cur: "current L s = Some c"
    and bp: "ebp (cpu s) = elem_addr (task_base L) c 1006"
    and e: "0 \<le> sint eax" "sint eax \<le> 40" "returning_call (sys_call_table ! unat eax)"
    and h: "system_call_handler L P lr lp eax a1 a2 a3 s = Some (out, s')"
  shows "\<exists>v. out = Return v \<and> ebp (cpu s') = ebp (cpu s) \<and> stack (task s' c) = stack (task s c)"
proof -
  have bp': "ebp (cpu s) = elem_addr (task_base L) c (Suc 1005)" using bp by simp
  note d = h [unfolded system_call_handler_def]
  show ?thesis
  proof (cases "sys_call_table ! unat eax")
    case SYS_NI
    then show ?thesis using d e by auto
  next
    case SYS_FORK
    then obtain v where "out = Return v" "sys_fork L s = Some (v, s')" using d e by (auto simp: returning_def)
    then show ?thesis using fork_keeps_stack [OF L k ci cur bp'] by auto
  next
    case SYS_WRITE
    then obtain v where "out = Return v" "sys_write L a1 a2 a3 s = Some (v, s')" using d e by (auto simp: returning_def)
    then show ?thesis using sys_write_control [OF _ cur] same_control_stack by blast
  next
    case SYS_GETTIME
    then obtain v where "out = Return v" "sys_gettime L s = Some (v, s')" using d e by (auto simp: returning_def)
    then show ?thesis using brief_control [OF cur] same_control_stack by blast
  next
    case SYS_GETPID
    then obtain v where "out = Return v" "sys_getpid L s = Some (v, s')" using d e by (auto simp: returning_def)
    then show ?thesis using brief_control [OF cur] same_control_stack by blast
  next
    case SYS_GET_STATS
    then obtain v where "out = Return v" "sys_get_stats L a1 a2 s = Some (v, s')" using d e by (auto simp: returning_def)
    then show ?thesis using same_control_get_stats [OF _ cur] same_control_stack by blast
  qed (use e in \<open>simp_all add: returning_call_def\<close>)
qed

text \<open>The process \<open>c\<close> of \<open>m\<close> runs in user mode.\<close>

definition in_user :: "layout \<Rightarrow> nat \<Rightarrow> machine \<Rightarrow> bool" where
  "in_user L c m \<longleftrightarrow> good L (kern m) \<and> runs L (kern m) c \<and> idle_task (kern m) \<noteq> Some c \<and> user_context (context_of m)"

lemma in_userE:
  assumes "in_user L c m"
  obtains i F R B where "kinv L (kern m) c i F R B" "pids_ok (kern m) i F" "c \<noteq> i" "c < 10"
    "tss_esp0 (tss (kern m)) = KERNEL_ESP L c" "user_context (context_of m)"
  using assms kinvD(2) runs_kinv unfolding in_user_def good_def runs_def by metis

lemma trap_returns:
  assumes L: "layout_ok L" and u: "in_user L c m" and n: "n \<le> 986" and g: "gate_dpl (idt (kern m) 0x80) = 3"
    and e: "0 \<le> sint (m_eax m)" "sint (m_eax m) \<le> 40" "returning_call (sys_call_table ! unat (m_eax m))"
    and h: "system_call_handler L P lr lp (m_eax m) (ebx (cpu (kern m))) (m_ecx m) (m_edx m) (in_handler L c ret n m) = Some (out, s')"
  shows "\<exists>v m' f r. out = Return v
    \<and> Option.bind (int_n L 0x80 m) (system_call_entry L P lr lp ret (of_nat (4 * n)) left) = Some (None, m')
    \<and> context_of m' = (with_args (take (params (sys_call_table ! unat (m_eax m))) left) (context_of m))\<lparr>u_eax := v\<rparr>
    \<and> kern m' = (poke c f s')\<lparr>cpu := r\<rparr>"
proof -
  obtain i F R B where k: "kinv L (kern m) c i F R B" "c \<noteq> i" and c: "c < 10" "tss_esp0 (tss (kern m)) = KERNEL_ESP L c"
    and x: "user_context (context_of m)" using u by (rule in_userE)
  note k' = in_handler_kinv [OF k(1) n, of ret]
  note cur = stack_room_current [OF L c(1) k'(2)]
  obtain v where v: "out = Return v" "ebp (cpu s') = ebp (cpu (in_handler L c ret n m))"
    "stack (task s' c) = stack (task (in_handler L c ret n m) c)"
    using call_keeps_frame [OF L k'(1) k(2) cur _ e h] by (auto simp: in_handler_sels)
  have "n \<le> 992" using n by simp
  from call_returns [OF x c this g e(1,2) h [unfolded v(1)] v(2)] v show ?thesis by simp
qed

lemma trap_out_of_range:
  assumes u: "in_user L c m" and g: "gate_dpl (idt (kern m) 0x80) = 3" and e: "sint (m_eax m) < 0 \<or> 40 < sint (m_eax m)"
  shows "\<exists>m' f r. Option.bind (int_n L 0x80 m) (system_call_entry L P lr lp ret frame left) = Some (None, m')
    \<and> context_of m' = (context_of m)\<lparr>u_eax := - ENOSYS\<rparr> \<and> kern m' = (poke c f (kern m))\<lparr>cpu := r\<rparr>"
proof -
  obtain i F R B where c: "c < 10" "tss_esp0 (tss (kern m)) = KERNEL_ESP L c"
    and x: "user_context (context_of m)" using u by (rule in_userE)
  let ?e = "(entered L c 0x80 m)\<lparr>m_eax := - 38\<rparr>" and ?f = "pushed 1008 (saved_words (context_of m)) (stack (task (kern m) c))"
  have en: "Option.bind (interrupt L 0x80 m) (SAVE_ALL L) = Some (entered L c 0x80 m)"
    using x by (intro entry_saves [OF _ c]) (simp add: user_context_def context_of_def)
  have ee: "m_eax (entered L c 0x80 m) = m_eax m" "esp (cpu (kern ?e)) = elem_addr (task_base L) c 1008"
    "stack (task (kern ?e) c) = ?f" "kern ?e = (poke c ?f (kern m))\<lparr>cpu := cpu (kern ?e)\<rparr>"
    by (simp_all add: entered_def Let_def) (simp add: set_reg_esp_def)
  have "from_user (ucast (?f 1020))" using x by (simp add: pushed_def saved_words_def user_context_def)
  from fin_loads [of c ?e L, OF c(1) ee(2), unfolded ee(3), OF this] obtain m' f r where
    m': "fin L ?e = Some m'" "context_of m' = (context_at ?f)\<lparr>u_eax := - 38\<rparr>" "kern m' = (poke c f (kern ?e))\<lparr>cpu := r\<rparr>" by auto
  have "system_call_entry L P lr lp ret frame left m0 = Some (None, m')" if "SAVE_ALL L m0 = Some (entered L c 0x80 m)" for m0
    using e m'(1) by (auto simp: system_call_entry_def that ee(1) Let_def)
  then have "Option.bind (int_n L 0x80 m) (system_call_entry L P lr lp ret frame left) = Some (None, m')"
    using en g by (cases "interrupt L 0x80 m") (simp_all add: int_n_def)
  moreover have "kern m' = (poke c f (kern m))\<lparr>cpu := r\<rparr>" unfolding m'(3) by (subst ee(4)) (simp add: poke_def)
  ultimately show ?thesis using m'(2) context_at_pushed [OF x]
    by (intro exI [of _ m'] exI [of _ f] exI [of _ r]) simp
qed

section \<open>Waiting\<close>

text \<open>
  A step while \<open>t\<close> is not on the processor leaves its stack and its saved stack pointer; if
  the step puts it on the processor, it continues where it was or enters its first function.
\<close>

definition waits :: "layout \<Rightarrow> nat \<Rightarrow> kernel \<Rightarrow> kernel \<Rightarrow> bool" where
  "waits L t s s' \<longleftrightarrow> stack (task s' t) = stack (task s t) \<and> kernel_esp (task_of s' t) = kernel_esp (task_of s t)
     \<and> PID (task_of s' t) = PID (task_of s t)
     \<and> (runs L s' t \<longrightarrow> (\<forall>r. suspended L s t r \<longrightarrow> cpu s' = r)
         \<and> (\<forall>a k. fresh L s t a k \<longrightarrow> a \<noteq> switch_ret_addr L \<longrightarrow> esp (cpu s') = elem_addr (task_base L) t (Suc (Suc k)) \<and> ebp (cpu s') = 0))"

lemma waits_hands_over:
  assumes h: "hands_over L s c n s'" and k: "kinv L s' n i F R B" and t: "t \<noteq> c" "PID (task_of s' t) = PID (task_of s t)"
  shows "waits L t s s'"
proof -
  have "t = n" if "runs L s' t" using runs_kinv [OF k that] .
  then show ?thesis using h t unfolding hands_over_def waits_def by auto
qed

lemma waits_unswitched:
  assumes "task s' t = task s t \<or> stack (task s' t) = stack (task s t) \<and> kernel_esp (task_of s' t) = kernel_esp (task_of s t)
      \<and> PID (task_of s' t) = PID (task_of s t)" "\<not> runs L s' t"
  shows "waits L t s s'"
  using assms by (auto simp: waits_def)

lemma same_control_waits: "same_control s s' \<Longrightarrow> \<not> runs L s t \<Longrightarrow> waits L t s s'"
  by (rule waits_unswitched) (auto simp: same_control_def runs_def)

lemma waits_fork:
  assumes L: "layout_ok L" and k: "kinv L s c i F R B" and p: "pids_ok s i F" and ci: "c \<noteq> i" and cur: "current L s = Some c"
    and bp: "ebp (cpu s) = elem_addr (task_base L) c (Suc j)" "14 \<le> j" "Suc j < 1024"
    and f: "sys_fork L s = Some (v, s')" and t: "\<not> runs L s t" "t \<noteq> c" "PID (task_of s t) \<noteq> - 1"
  shows "waits L t s s'"
proof (cases F)
  case Nil
  with k have "kinv L s c i [] R B" by simp
  from sys_fork_full_control [OF this cur f] show ?thesis using same_control_waits t by blast
next
  case (Cons ch F')
  with k have k': "kinv L s c i (ch # F') R B" by simp
  from sys_fork_ok [OF L k' ci cur bp] f have s': "kinv L s' c i F' (R @ [ch]) B" "forked L s c ch j (live i (ch # F')) s'" by auto
  have "t \<noteq> ch" using t(3) p Cons by (auto simp: pids_ok_def)
  then show ?thesis using s'(2) t(2) runs_kinv [OF s'(1)] by (intro waits_unswitched) (auto simp: forked_def)
qed

lemma waits_tick:
  assumes L: "layout_ok L" and k: "kinv L s c i F R B" and p: "pids_ok s i F" and room: "stack_room L s c"
    and lib: "screen_only emul" "screen_only show_clock" and t: "t \<noteq> c"
    and f: "clock_routine L (rr_policy L) emul show_clock s = Some (out, s')"
  shows "waits L t s s'"
proof -
  note ok = rr.clock_ok [OF L k room pids_ok_idle [OF p k] lib]
  have pid: "PID (task_of s' t) = PID (task_of s t)" using ok f by auto
  show ?thesis
  proof (cases "needs_sched (rr_policy L) (update_sched_data (rr_policy L) s) = 1")
    case True
    then have "hands_over L s c (fst (after_tick c i R)) s'" "kinv L s' (fst (after_tick c i R)) i F (snd (after_tick c i R)) B"
      using ok f by auto
    then show ?thesis using waits_hands_over t pid by blast
  next
    case False
    then have "kinv L s' c i F R B" "stack (task s' t) = stack (task s t)" "kernel_esp (task_of s' t) = kernel_esp (task_of s t)"
      using ok f by auto
    then show ?thesis using runs_kinv t pid by (intro waits_unswitched) auto
  qed
qed

lemma waits_unblock:
  assumes L: "layout_ok L" and k: "kinv L s c i F R B" and room: "stack_room L s c"
    and q: "console_queue s = Some ps" "Ptr (TASK_LIST b) \<in> set ps"
    and idle: "idle_task s \<noteq> Some c \<or> needs_sched_rr s = 0" and t: "t \<noteq> c"
    and f: "unblock_process L (rr_policy L) b s = Some (u, s')"
  shows "waits L t s s'"
proof -
  have "b \<in> set B" using q console_queue_eq [OF kinvD(1) [OF k]] by auto
  then obtain B1 B2 where B: "B = B1 @ b # B2" by (meson split_list)
  have "c = i \<Longrightarrow> needs_sched (rr_policy L) s = 0" using idle kinvD(2) [OF k] by (auto simp: rr_policy_def)
  note ok = rr.unblock_ok [OF L k [unfolded B] room this]
  have pid: "PID (task_of s' t) = PID (task_of s t)" using ok f by auto
  show ?thesis
  proof (cases u)
    case None
    then have "kinv L s' c i F (R @ [b]) (B1 @ B2)" "stack (task s' t) = stack (task s t)"
      "kernel_esp (task_of s' t) = kernel_esp (task_of s t)" using ok f by auto
    then show ?thesis using runs_kinv t pid by (intro waits_unswitched) auto
  next
    case (Some r)
    then have "hands_over L s c (hd (R @ [b])) s'" "kinv L s' (hd (R @ [b])) i F (tl (R @ [b]) @ [c]) (B1 @ B2)"
      using ok f by auto
    then show ?thesis using waits_hands_over t pid by blast
  qed
qed

lemma waits_key:
  assumes "keyboard_routine key s = Some (v, s')" "\<not> runs L s t"
  shows "waits L t s s'"
  using assms by (intro waits_unswitched) (auto simp: keyboard_routine_def Let_def runs_def split: if_splits)

lemma kstep_waits:
  assumes "kstep L emul show_clock s s'" and L: "layout_ok L" and lib: "screen_only emul" "screen_only show_clock"
    and g: "good L s" and t: "\<not> runs L s t" "t < 10" "PID (task_of s t) \<noteq> - 1"
  shows "waits L t s s'"
proof -
  obtain c i F R B where k: "kinv L s c i F R B" and p: "pids_ok s i F" using g by (auto simp: good_def)
  have idle: "idle_task s = Some i" by (rule kinvD(2) [OF k])
  have run: "runs L s c" using kinvD(10) [OF k] kinv_bounds(1) [OF k] by (simp add: runs_def)
  have tc: "t \<noteq> c" using run t(1) by auto
  note r = runs_kinv [OF k]
  note cur = stack_room_current [OF L kinv_bounds(1) [OF k]]
  from assms(1) show ?thesis
  proof cases
    case (k_user c')
    then show ?thesis using r t(1) tc by (intro waits_unswitched) (auto simp: user_phase_def runs_def)
  next
    case (k_fork c' j v)
    then show ?thesis using r idle cur tc t by (intro waits_fork [OF L k p]) auto
  next
    case (k_exit c' rr)
    then have "c \<noteq> i" "stack_room L s c" using r idle by auto
    from rr.exit_ok [OF L k this] k_exit(4) show ?thesis using waits_hands_over tc by auto
  next
    case (k_block c' rr)
    then have "c \<noteq> i" "stack_room L s c" using r idle by auto
    from rr.block_ok [OF L k this] k_block(4) show ?thesis using waits_hands_over tc by auto
  next
    case (k_unblock c' ps b u)
    then show ?thesis using r tc by (intro waits_unblock [OF L k]) auto
  next
    case (k_tick c' out)
    then show ?thesis using r tc by (intro waits_tick [OF L k p _ lib]) auto
  next
    case (k_key key v)
    then show ?thesis using waits_key t(1) by blast
  next
    case (k_getpid c' v)
    then show ?thesis using brief_control same_control_waits t(1) by blast
  next
    case (k_gettime c' v)
    then show ?thesis using brief_control same_control_waits t(1) by blast
  next
    case (k_write c' fd buffer sz v)
    then show ?thesis using sys_write_control same_control_waits t(1) by blast
  next
    case (k_stats c' pid st v)
    then show ?thesis using same_control_get_stats same_control_waits t(1) by blast
  qed
qed

text \<open>Runs during which \<open>t\<close> is not on the processor, but perhaps in the last state.\<close>

definition away :: "layout \<Rightarrow> (kernel \<Rightarrow> kernel option) \<Rightarrow> (kernel \<Rightarrow> kernel option) \<Rightarrow> nat \<Rightarrow> kernel \<Rightarrow> kernel \<Rightarrow> bool" where
  "away L emul show_clock t = (\<lambda>s s'. kstep L emul show_clock s s' \<and> \<not> runs L s t)\<^sup>*\<^sup>*"

lemma suspended_waits: "stack (task s' t) = stack (task s t) \<Longrightarrow> kernel_esp (task_of s' t) = kernel_esp (task_of s t) \<Longrightarrow>
    suspended L s' t r = suspended L s t r"
  by (simp add: suspended_def)

lemma fresh_waits: "stack (task s' t) = stack (task s t) \<Longrightarrow> kernel_esp (task_of s' t) = kernel_esp (task_of s t) \<Longrightarrow>
    fresh L s' t a k = fresh L s t a k"
  by (simp add: fresh_def)

lemma away_waits:
  assumes a: "away L emul show_clock t s s'" and L: "layout_ok L" and lib: "screen_only emul" "screen_only show_clock"
    and g: "good L s" and t: "\<not> runs L s t" "t < 10" "PID (task_of s t) \<noteq> - 1"
  shows "good L s' \<and> waits L t s s' \<and> (0 < sint (PID (task_of s t)) \<longrightarrow> (\<forall>n<81920. user_data s' t n = user_data s t n))"
  using a unfolding away_def
proof (induction rule: rtranclp_induct)
  case base
  then show ?case using g t by (simp add: waits_def)
next
  case (step s1 s2)
  then have k: "kstep L emul show_clock s1 s2" "\<not> runs L s1 t" and w: "good L s1" "waits L t s s1"
    and d: "0 < sint (PID (task_of s t)) \<longrightarrow> (\<forall>n<81920. user_data s1 t n = user_data s t n)" by auto
  have "PID (task_of s1 t) \<noteq> - 1" using w(2) t(3) by (simp add: waits_def)
  from kstep_waits [OF k(1) L lib w(1) k(2) t(2) this] have w2: "waits L t s1 s2" .
  have e: "stack (task s1 t) = stack (task s t)" "kernel_esp (task_of s1 t) = kernel_esp (task_of s t)"
    using w(2) by (simp_all add: waits_def)
  have "waits L t s s2"
    using w(2) w2 suspended_waits [OF e] fresh_waits [OF e] unfolding waits_def by auto
  moreover have "PID (task_of s1 t) = PID (task_of s t)" using w(2) by (simp add: waits_def)
  then have "0 < sint (PID (task_of s t)) \<longrightarrow> (\<forall>n<81920. user_data s2 t n = user_data s t n)"
    using d kstep_data [OF k(1) L lib w(1) k(2) t(2)] by simp
  ultimately show ?case using kstep_good [OF k(1) L lib w(1)] by blast
qed

section \<open>A process that is taken off the processor\<close>

text \<open>A handler of an interrupt that keeps the frame gives the process its registers back.\<close>

lemma handler_leaves:
  assumes x: "user_context (context_of m)" and c: "c < 10"
    and k: "ebp (cpu s) = ebp (cpu (in_handler L c ret n m))" "\<And>k. 1006 \<le> k \<Longrightarrow> stack (task s c) k = stack (task (in_handler L c ret n m) c) k"
  shows "\<exists>m1 m' r. c_result L ret v s m0 = Some m1 \<and> handler_exit L m1 = Some m' \<and> context_of m' = context_of m
    \<and> kern m' = s\<lparr>cpu := r\<rparr> \<and> port_20 m' = port_20 m0"
proof -
  obtain m1 r where m1: "c_result L ret v s m0 = Some m1" "esp (cpu (kern m1)) = elem_addr (task_base L) c 1008"
    "task (kern m1) = task s" "port_20 m1 = port_20 m0" "kern m1 = s\<lparr>cpu := r\<rparr>" "context_at (stack (task s c)) = context_of m"
    "from_user (ucast (stack (task s c) 1020))"
    using handled [where v = v and ?m0.0 = m0, OF x c k] by blast
  obtain m' r' where m': "handler_exit L m1 = Some m'" "context_of m' = context_of m" "kern m' = (kern m1)\<lparr>cpu := r'\<rparr>" "port_20 m' = port_20 m1"
    using exit_loads [OF c m1(2), unfolded m1(3,6), OF m1(7)] by blast
  have "kern m' = s\<lparr>cpu := r'\<rparr>" using m'(3) m1(5) by simp
  then show ?thesis using m1(1,4) m'(1,2,4) by auto
qed

text \<open>The entry through one of the two interrupt gates.\<close>

lemma interrupt_enters:
  assumes u: "in_user L c m" and n: "n \<le> 986"
  obtains m0 where "interrupt L v m = Some m0" "SAVE_ALL L m0 = Some (entered L c v m)"
    "c_call L ret (of_nat (4 * n)) (kern (EOI (entered L c v m))) = Some (in_handler L c ret n m)"
    "port_20 (EOI (entered L c v m)) = port_20 m @ [0x20]"
proof -
  obtain i F R B where c: "c < 10" "tss_esp0 (tss (kern m)) = KERNEL_ESP L c"
    and x: "user_context (context_of m)" using u by (rule in_userE)
  have "Option.bind (interrupt L v m) (SAVE_ALL L) = Some (entered L c v m)"
    using x by (intro entry_saves [OF _ c]) (simp add: user_context_def context_of_def)
  moreover have "c_call L ret (of_nat (4 * n)) (kern (entered L c v m)) = Some (in_handler L c ret n m)"
    using n by (intro in_handler_call [OF c(1)]) simp
  moreover have "kern (EOI (entered L c v m)) = kern (entered L c v m)" "port_20 (EOI (entered L c v m)) = port_20 m @ [0x20]"
    by (simp_all add: EOI_def entered_def Let_def)
  ultimately show thesis using that by (auto split: bind_splits)
qed

lemma in_handler_keeps: "mem (in_handler L c ret n m) = mem (kern m)" "pagusr_table (in_handler L c ret n m) = pagusr_table (kern m)"
  "PID (task_of (in_handler L c ret n m) t) = PID (task_of (kern m) t)" "PID_MAX (in_handler L c ret n m) = PID_MAX (kern m)"
  "CPU_QUANTUM (in_handler L c ret n m) = CPU_QUANTUM (kern m)"
  by (simp_all add: in_handler_def poke_def set_reg_defs)

text \<open>The end of the clock routine, whenever the task continues there with its registers and frame.\<close>

lemma clock_continue_at:
  assumes L: "layout_ok L" and x: "user_context (context_of m)" and c: "c < 10" and n: "n \<le> 986"
    and s: "cpu (kern m2) = cpu (in_handler L c ret n m)"
      "\<And>k. 1006 \<le> k \<Longrightarrow> stack (task (kern m2) c) k = stack (task (in_handler L c ret n m) c) k"
    and lib: "screen_only show_clock"
  shows "\<exists>m3. clock_continue L show_clock ret m2 = Some (None, m3) \<and> context_of m3 = context_of m
    \<and> mem (kern m3) = mem (kern m2) \<and> pagusr_table (kern m3) = pagusr_table (kern m2)"
proof -
  obtain d where d: "show_clock (kern m2) = Some ((kern m2)\<lparr>scr := d\<rparr>)" using lib by (auto simp: screen_only_def)
  let ?s = "(kern m2)\<lparr>scr := d\<rparr>"
  have cur: "current L ?s = Some c"
    using L c n by (intro current_at [of _ L c "1006 - n"]) (simp_all add: s in_handler_sels)
  define s3 where "s3 = upd_stats c (charge system_ticks_update ?s) (tick2 ?s)"
  have e: "clock_routine_end L show_clock (kern m2) = Some (Return 0, s3)"
    by (simp add: clock_routine_end_def d act_ticks_kernel2user_eq [OF cur] s3_def)
  have s3: "cpu s3 = cpu (kern m2)" "stack (task s3 c) = stack (task (kern m2) c)" "mem s3 = mem (kern m2)"
    "pagusr_table s3 = pagusr_table (kern m2)" by (simp_all add: s3_def)
  have "ebp (cpu s3) = ebp (cpu (in_handler L c ret n m))"
    "\<And>k. 1006 \<le> k \<Longrightarrow> stack (task s3 c) k = stack (task (in_handler L c ret n m) c) k"
    using s s3 by simp_all
  from handler_leaves [where v = 0 and ?m0.0 = m2, OF x c this] obtain m1 m3 r where
    m: "c_result L ret 0 s3 m2 = Some m1" "handler_exit L m1 = Some m3" "context_of m3 = context_of m" "kern m3 = s3\<lparr>cpu := r\<rparr>" by blast
  then show ?thesis using e s3 by (simp add: clock_continue_def clock_handler_end_def)
qed

lemma clock_takes:
  assumes L: "layout_ok L" and u: "in_user L c m" and n: "n \<le> 986"
    and i: "Option.bind (interrupt L 32 m) (clock_handler L P emul show_clock ret (of_nat (4 * n))) = Some (Some r, m1)"
  shows "clock_routine L P emul show_clock (in_handler L c ret n m) = Some (Switched r, kern m1)"
proof -
  obtain m0 where "interrupt L 32 m = Some m0" "SAVE_ALL L m0 = Some (entered L c 32 m)"
    "c_call L ret (of_nat (4 * n)) (kern (EOI (entered L c 32 m))) = Some (in_handler L c ret n m)"
    by (rule interrupt_enters [OF u n])
  then obtain x where "clock_routine L P emul show_clock (in_handler L c ret n m) = Some x"
    "clock_handler_end L ret x (EOI (entered L c 32 m)) = Some (Some r, m1)"
    using i by (auto simp: clock_handler_def split: bind_splits)
  then show ?thesis
    by (cases x) (auto simp: clock_handler_end_def split: outcome.splits bind_splits)
qed

lemma away_refl: "away L emul show_clock c s s' \<Longrightarrow> runs L s c \<Longrightarrow> s' = s"
  unfolding away_def by (erule converse_rtranclpE) auto

lemma preempted_continues:
  assumes L: "layout_ok L" and u: "in_user L c m" and n: "n \<le> 986" and lib: "screen_only emul" "screen_only show_clock"
    and i: "Option.bind (interrupt L 32 m) (clock_handler L (rr_policy L) emul show_clock ret (of_nat (4 * n))) = Some (Some r, m1)"
    and a: "away L emul show_clock c (kern m1) (kern m2)" "runs L (kern m2) c"
  shows "\<exists>m3. clock_continue L show_clock ret m2 = Some (None, m3) \<and> context_of m3 = context_of m
    \<and> (\<forall>k<81920. user_data (kern m3) c k = user_data (kern m) c k)"
proof -
  obtain i F R B where k: "kinv L (kern m) c i F R B" "c \<noteq> i" and p: "pids_ok (kern m) i F" and c: "c < 10"
    and x: "user_context (context_of m)" using u by (rule in_userE)
  let ?s = "in_handler L c ret n m" and ?n = "fst (after_tick c i R)"
  note k' = in_handler_kinv [OF k(1) n, of ret]
  have p': "pids_ok ?s i F" using p by (subst pids_ok_same [of ?s "kern m"]) (simp_all add: in_handler_def poke_def set_reg_defs)
  note tk = clock_takes [OF L u n i]
  note ok = rr.clock_ok [OF L k' pids_ok_idle [OF p' k'(1)] lib]
  have ho: "hands_over L ?s c ?n (kern m1)" "suspended L (kern m1) c (cpu ?s)"
    "kinv L (kern m1) ?n i F (snd (after_tick c i R)) B"
    and same: "mem (kern m1) = mem ?s" "pagusr_table (kern m1) = pagusr_table ?s" "PID (task_of (kern m1) c) = PID (task_of ?s c)"
    using ok tk by (auto split: if_splits)
  have g1: "good L (kern m1)" by (rule good_tick [OF L k'(1) p' k'(2) lib tk])
  obtain j where j: "j < 1024" "elem_addr (task_base L) c (1006 - n) = elem_addr (task_base L) c j"
    "\<And>k. j \<le> k \<Longrightarrow> stack (task (kern m1) c) k = stack (task ?s c) k"
    using ho(1) by (auto simp: hands_over_def in_handler_sels)
  have jn: "j = 1006 - n" using j(1,2) c n by (simp add: elem_addr_eq_iff)
  have kept: "stack (task (kern m1) c) k = stack (task ?s c) k" if "1006 \<le> k" for k using that j(3) jn by simp
  have pid: "0 < sint (PID (task_of ?s c))" using p' live_tasks [OF k(1)] k(2) by (auto simp: pids_ok_def)
  have st: "cpu (kern m2) = cpu ?s \<and> stack (task (kern m2) c) = stack (task (kern m1) c)
    \<and> (\<forall>k<81920. user_data (kern m2) c k = user_data (kern m1) c k)"
  proof (cases "runs L (kern m1) c")
    case True
    then have "?n = c" using runs_kinv [OF ho(3) True] by simp
    then show ?thesis using ho(1) away_refl [OF a(1) True] by (simp add: hands_over_def)
  next
    case False
    have "PID (task_of (kern m1) c) \<noteq> - 1" "0 < sint (PID (task_of (kern m1) c))" using pid same(3) by auto
    then show ?thesis using away_waits [OF a(1) L lib g1 False c] a(2) ho(2) by (auto simp: waits_def)
  qed
  have "user_data (kern m1) c = user_data (kern m) c"
    using user_data_cong [OF same(1,2)] user_data_cong [of ?s "kern m" c] by (simp add: in_handler_def poke_def set_reg_defs)
  moreover obtain m3 where m3: "clock_continue L show_clock ret m2 = Some (None, m3)" "context_of m3 = context_of m"
    "mem (kern m3) = mem (kern m2)" "pagusr_table (kern m3) = pagusr_table (kern m2)"
    using clock_continue_at [OF L x c n _ _ lib(2), of m2 ret] st kept by auto
  ultimately show ?thesis using st user_data_cong [OF m3(3,4)] by auto
qed

section \<open>Interrupts that return\<close>

lemma keyboard_scr:
  assumes "key AND 0x80 \<noteq> 0 \<or> unat (key AND 0x7F) < 98"
  shows "\<exists>d. keyboard_routine key s = Some (1, s\<lparr>scr := d\<rparr>)"
proof (cases "key AND 0x80 = 0")
  case True
  have "length char_map = 98" by (simp add: char_map_def)
  then show ?thesis using True assms by (simp add: keyboard_routine_def Let_def) (intro conjI impI exI, (rule refl)+)
next
  case False
  then show ?thesis by (intro exI [of _ "scr s"]) (simp add: keyboard_routine_def Let_def)
qed

lemma keyboard_returns:
  assumes u: "in_user L c m" and n: "n \<le> 986" and key: "key AND 0x80 \<noteq> 0 \<or> unat (key AND 0x7F) < 98"
  shows "\<exists>m'. Option.bind (interrupt L 33 m) (keyboard_handler L key ret (of_nat (4 * n))) = Some m'
    \<and> context_of m' = context_of m \<and> port_20 m' = port_20 m @ [0x20]
    \<and> mem (kern m') = mem (kern m) \<and> pagusr_table (kern m') = pagusr_table (kern m)"
proof -
  obtain i F R B where c: "c < 10" and x: "user_context (context_of m)" using u by (rule in_userE)
  let ?s = "in_handler L c ret n m" and ?e = "EOI (entered L c 33 m)"
  obtain m0 where m0: "interrupt L 33 m = Some m0" "SAVE_ALL L m0 = Some (entered L c 33 m)"
    "c_call L ret (of_nat (4 * n)) (kern ?e) = Some ?s" "port_20 ?e = port_20 m @ [0x20]" by (rule interrupt_enters [OF u n])
  obtain d where d: "keyboard_routine key ?s = Some (1, ?s\<lparr>scr := d\<rparr>)" using keyboard_scr [OF key] by blast
  define s' where "s' = ?s\<lparr>scr := d\<rparr>"
  have s': "ebp (cpu s') = ebp (cpu ?s)" "\<And>k. 1006 \<le> k \<Longrightarrow> stack (task s' c) k = stack (task ?s c) k"
    "mem s' = mem (kern m)" "pagusr_table s' = pagusr_table (kern m)" by (simp_all add: s'_def in_handler_keeps)
  from handler_leaves [where v = 1 and ?m0.0 = ?e, OF x c s'(1,2)] obtain m1 m' r where
    m': "c_result L ret 1 s' ?e = Some m1" "handler_exit L m1 = Some m'" "context_of m' = context_of m" "kern m' = s'\<lparr>cpu := r\<rparr>"
    "port_20 m' = port_20 ?e" by blast
  have "keyboard_handler L key ret (of_nat (4 * n)) m0 = Some m'"
    using m0 d [folded s'_def] m'(1,2) by (simp add: keyboard_handler_def)
  then show ?thesis using m0(1,4) m'(3-5) s'(3,4) by simp
qed

lemma tick_returns:
  assumes L: "layout_ok L" and u: "in_user L c m" and n: "n \<le> 986" and lib: "screen_only emul" "screen_only show_clock"
    and q: "needs_sched_rr (update_sched_data_rr (kern m)) \<noteq> 1"
  shows "\<exists>m'. Option.bind (interrupt L 32 m) (clock_handler L (rr_policy L) emul show_clock ret (of_nat (4 * n))) = Some (None, m')
    \<and> context_of m' = context_of m \<and> port_20 m' = port_20 m @ [0x20]
    \<and> mem (kern m') = mem (kern m) \<and> pagusr_table (kern m') = pagusr_table (kern m)"
proof -
  obtain i F R B where k: "kinv L (kern m) c i F R B" and p: "pids_ok (kern m) i F"
    and c: "c < 10" and x: "user_context (context_of m)" using u by (rule in_userE)
  let ?s = "in_handler L c ret n m" and ?e = "EOI (entered L c 32 m)"
  obtain m0 where m0: "interrupt L 32 m = Some m0" "SAVE_ALL L m0 = Some (entered L c 32 m)"
    "c_call L ret (of_nat (4 * n)) (kern ?e) = Some ?s" "port_20 ?e = port_20 m @ [0x20]" by (rule interrupt_enters [OF u n])
  note k' = in_handler_kinv [OF k n, of ret]
  have p': "pids_ok ?s i F" using p by (subst pids_ok_same [of ?s "kern m"]) (simp_all add: in_handler_keeps)
  have q': "needs_sched (rr_policy L) (update_sched_data (rr_policy L) ?s) \<noteq> 1"
    using q by (simp add: rr_policy_def needs_sched_rr_def update_sched_data_rr_def in_handler_keeps)
  obtain s' where s': "clock_routine L (rr_policy L) emul show_clock ?s = Some (Return 0, s')" "cpu s' = cpu ?s"
    "\<forall>t. stack (task s' t) = stack (task ?s t)" "mem s' = mem ?s" "pagusr_table s' = pagusr_table ?s"
    using rr.clock_ok [OF L k' pids_ok_idle [OF p' k'(1)] lib] q' by auto
  have "ebp (cpu s') = ebp (cpu ?s)" "\<And>k. 1006 \<le> k \<Longrightarrow> stack (task s' c) k = stack (task ?s c) k" using s'(2,3) by simp_all
  from handler_leaves [where v = 0 and ?m0.0 = ?e, OF x c this] obtain m1 m' r where
    m': "c_result L ret 0 s' ?e = Some m1" "handler_exit L m1 = Some m'" "context_of m' = context_of m" "kern m' = s'\<lparr>cpu := r\<rparr>"
    "port_20 m' = port_20 ?e" by blast
  have "clock_handler L (rr_policy L) emul show_clock ret (of_nat (4 * n)) m0 = Some (None, m')"
    using m0 s'(1) m'(1,2) by (simp add: clock_handler_def clock_handler_end_def)
  then show ?thesis using m0(1,4) m'(3-5) s'(4,5) by (simp add: in_handler_keeps)
qed

section \<open>The child of a fork\<close>

lemma c_frame_at:
  assumes "c < 10" "esp (cpu s) = elem_addr (task_base L) c 1007" "n \<le> 992"
  shows "c_frame L (of_nat (4 * n)) s = Some (set_reg_esp (elem_addr (task_base L) c (1006 - n))
      (set_reg_ebp (elem_addr (task_base L) c 1006) (poke c ((stack (task s c))(1006 := ebp (cpu s))) s)))"
proof -
  let ?e = "elem_addr (task_base L) c"
  have "pushl L (ebp (cpu s)) s = Some (s\<lparr>cpu := (cpu s)\<lparr>esp := ?e 1006\<rparr>,
      task := (task s)(c := (task s c)\<lparr>stack := (stack (task s c))(1006 := ebp (cpu s))\<rparr>)\<rparr>)"
    using assms by (intro pushl_at) simp_all
  moreover have "?e 1006 - of_nat (4 * n) = ?e (1006 - n)" using slot_offset [of "task_base L" c "1006 - n" n] assms(3) by (simp add: diff_eq_eq)
  ultimately show ?thesis by (simp add: c_frame_def set_reg_defs poke_def Let_def)
qed

text \<open>
  Entered at \<^verbatim>\<open>ret_from_fork\<close> with the words of the parent's entry above its return address,
  the child leaves the kernel with the parent's registers and 0.
\<close>

lemma fork_continue_at:
  assumes L: "layout_ok L" and x: "user_context y" and ch: "ch < 10" and n: "n \<le> 986"
    and s: "esp (cpu (kern m2)) = elem_addr (task_base L) ch 1007" "stack (task (kern m2) ch) 1007 = ret"
      "context_at (stack (task (kern m2) ch)) = y"
  shows "\<exists>m3. fork_continue L ret (of_nat (4 * n)) m2 = Some m3 \<and> context_of m3 = y\<lparr>u_eax := 0\<rparr>
    \<and> mem (kern m3) = mem (kern m2) \<and> pagusr_table (kern m3) = pagusr_table (kern m2)"
proof -
  let ?f = "(stack (task (kern m2) ch))(1006 := ebp (cpu (kern m2)))"
  define s1 where "s1 = set_reg_esp (elem_addr (task_base L) ch (1006 - n)) (set_reg_ebp (elem_addr (task_base L) ch 1006)
      (poke ch ?f (kern m2)))"
  have cf: "c_frame L (of_nat (4 * n)) (kern m2) = Some s1"
    unfolding s1_def using n by (intro c_frame_at [OF ch s(1)]) simp
  have cur: "current L s1 = Some ch"
    using L ch n by (intro current_at [of _ L ch "1006 - n"]) (simp_all add: s1_def)
  define s2 where "s2 = upd_stats ch (charge system_ticks_update s1) (tick2 s1)"
  have rf: "ret_from_fork L s1 = Some (0, s2)" by (simp add: ret_from_fork_def act_ticks_kernel2user_eq [OF cur] s2_def)
  have s2: "ebp (cpu s2) = elem_addr (task_base L) ch 1006" "stack (task s2 ch) = ?f" "mem s2 = mem (kern m2)"
    "pagusr_table s2 = pagusr_table (kern m2)"
    by (simp_all add: s2_def s1_def set_reg_defs poke_def)
  define m1 where "m1 = m2\<lparr>kern := set_reg_esp (elem_addr (task_base L) ch 1008) (set_reg_ebp (stack (task s2 ch) 1006) s2), m_eax := 0\<rparr>"
  have cr: "c_result L ret 0 s2 m2 = Some m1"
    unfolding m1_def using s(2) s2(2) by (intro c_result_at [OF ch s2(1)]) simp
  have st: "stack (task (kern m1) ch) = ?f" "esp (cpu (kern m1)) = elem_addr (task_base L) ch 1008" "m_eax m1 = 0"
    "mem (kern m1) = mem (kern m2)" "pagusr_table (kern m1) = pagusr_table (kern m2)"
    using s2 by (simp_all add: m1_def set_reg_defs)
  have cx: "context_at ?f = y" using context_at_cong [of ?f "stack (task (kern m2) ch)"] s(3) by simp
  have "from_user (ucast (?f 1020))" using x arg_cong [OF s(3), of u_cs] by (simp add: user_context_def context_at_def)
  from fin_loads [OF ch st(2), unfolded st(1), OF this] obtain m3 f r where "fin L m1 = Some m3"
    "context_of m3 = (context_at ?f)\<lparr>u_eax := 0\<rparr>" "kern m3 = (poke ch f (kern m1))\<lparr>cpu := r\<rparr>" using st(3) by auto
  then show ?thesis using cf rf cr cx st(4,5) by (simp add: fork_continue_def poke_def)
qed

text \<open>The registers of the running task and the words of its stack do not matter to the invariant.\<close>

lemma kinv_running: "kinv L s c i F R B \<Longrightarrow> kinv L ((poke c f s)\<lparr>cpu := r\<rparr>) c i F R B"
  by (rule kinv_transfer) (auto simp: poke_def queues_are_def dest: kinvD(1))

lemma fork_trap:
  assumes L: "layout_ok L" and u: "in_user L c m" and n: "n \<le> 986" and g: "gate_dpl (idt (kern m) 0x80) = 3"
    and e: "m_eax m = 2" and k: "kinv L (kern m) c i (ch # F) R B" and p: "pids_ok (kern m) i (ch # F)"
    and b: "sint (PID_MAX (kern m)) < 2147483647"
  shows "\<exists>m1. Option.bind (int_n L 0x80 m) (system_call_entry L P lr lp ret (of_nat (4 * n)) left) = Some (None, m1)
    \<and> context_of m1 = (context_of m)\<lparr>u_eax := PID_MAX (kern m) + 1\<rparr>
    \<and> PID (task_of (kern m1) ch) = PID_MAX (kern m) + 1 \<and> 0 < sint (PID_MAX (kern m) + 1)
    \<and> good L (kern m1) \<and> kinv L (kern m1) c i F (R @ [ch]) B \<and> runs L (kern m1) c \<and> fresh L (kern m1) ch (ret_from_fork_addr L) 1005
    \<and> stack (task (kern m1) ch) 1007 = ret \<and> context_at (stack (task (kern m1) ch)) = context_of m
    \<and> (\<forall>k<81920. user_data (kern m1) ch k = user_data (kern m) c k)"
proof -
  have ci: "c \<noteq> i" and c: "c < 10" and x: "user_context (context_of m)"
    using u kinvD(2) [OF k] kinv_bounds(1) [OF k] by (auto simp: in_user_def)
  let ?s = "in_handler L c ret n m"
  note k' = in_handler_kinv [OF k n, of ret]
  note cur = stack_room_current [OF L c k'(2)]
  have sel: "PID_MAX ?s = PID_MAX (kern m)" "PID (task_of ?s t) = PID (task_of (kern m) t)" for t
    by (simp_all add: in_handler_def poke_def set_reg_defs)
  have p': "pids_ok ?s i (ch # F)" using p sel by (subst pids_ok_same [of ?s "kern m"]) simp_all
  have bp: "ebp (cpu ?s) = elem_addr (task_base L) c (Suc 1005)" by (simp add: in_handler_sels)
  obtain s' where s': "sys_fork L ?s = Some (PID_MAX ?s + 1, s')" "kinv L s' c i F (R @ [ch]) B"
    "forked L ?s c ch 1005 (live i (ch # F)) s'"
    using sys_fork_ok [OF L k'(1) ci cur bp] by auto
  have t2: "sys_call_table ! 2 = SYS_FORK" by (simp add: sys_call_table_def)
  then have "system_call_handler L P lr lp (m_eax m) a1 a2 a3 ?s = Some (Return (PID_MAX ?s + 1), s')" for a1 a2 a3
    using s'(1) by (simp add: system_call_handler_def e returning_def)
  from trap_returns [OF L u n g _ _ _ this, where left = left] obtain m1 f r where
    m1: "Option.bind (int_n L 0x80 m) (system_call_entry L P lr lp ret (of_nat (4 * n)) left) = Some (None, m1)"
    "context_of m1 = (context_of m)\<lparr>u_eax := PID_MAX (kern m) + 1\<rparr>" "kern m1 = (poke c f s')\<lparr>cpu := r\<rparr>"
    using t2 e sel(1) by (auto simp: returning_call_def)
  have cc: "ch \<noteq> c" using kinvD(5) [OF k] by auto
  have k1: "kinv L (kern m1) c i F (R @ [ch]) B" unfolding m1(3) by (rule kinv_running [OF s'(2)])
  have sm: "task (kern m1) ch = task s' ch" "mem (kern m1) = mem s'" "pagusr_table (kern m1) = pagusr_table s'"
    "PID_MAX (kern m1) = PID_MAX s'" "PID (task_of (kern m1) t) = PID (task_of s' t)" for t
    unfolding m1(3) using cc by (simp_all add: poke_def)
  have "pids_ok s' i F" by (rule pids_ok_fork [OF k'(1) p' _ s'(3) ci]) (simp add: sel b)
  then have p1: "pids_ok (kern m1) i F" using sm by (subst pids_ok_same [of "kern m1" s']) simp_all
  have fk: "fresh L s' ch (ret_from_fork_addr L) 1005" "\<And>k. 1006 < k \<Longrightarrow> stack (task s' ch) k = stack (task ?s c) k"
    "PID (task_of s' ch) = PID_MAX ?s + 1" "\<And>k. k < 81920 \<Longrightarrow> user_data s' ch k = user_data ?s c k"
    using s'(3) by (auto simp: forked_def)
  have "stack (task (kern m1) ch) 1007 = ret" using fk(2) [of 1007] sm(1) by (simp add: in_handler_sels)
  moreover have "context_at (stack (task (kern m1) ch)) = context_of m"
    using context_at_cong [of "stack (task (kern m1) ch)"] context_at_pushed [OF x] fk(2) sm(1) by (simp add: in_handler_sels)
  moreover have "fresh L (kern m1) ch (ret_from_fork_addr L) 1005" using fk(1) sm(1) by (simp add: fresh_def)
  moreover have "ch \<in> live i F" using kinv_bounds [OF k] kinvD(4) [OF k] queues_are_distinct(1) [OF kinvD(1) [OF k]] by (auto simp: live_def)
  then have "0 < sint (PID (task_of (kern m1) ch))" using p1 by (auto simp: pids_ok_def)
  moreover have "user_data (kern m1) ch k = user_data (kern m) c k" if "k < 81920" for k
    using fk(4) [OF that] user_data_cong [OF sm(2,3), of ch] user_data_cong [of ?s "kern m" c]
    by (simp add: in_handler_def poke_def set_reg_defs)
  moreover have "runs L (kern m1) c" using kinvD(10) [OF k1] c by (simp add: runs_def)
  ultimately show ?thesis using m1(1,2) goodI [OF k1 p1] k1 fk(3) sm(5) sel(1) by auto
qed

lemma fork_child_continues:
  assumes L: "layout_ok L" and n: "n \<le> 986" and lib: "screen_only emul" "screen_only show_clock"
    and x: "user_context y" and ch: "ch < 10" "0 < sint (PID (task_of s1 ch))"
    and s1: "good L s1" "\<not> runs L s1 ch" "fresh L s1 ch (ret_from_fork_addr L) 1005" "stack (task s1 ch) 1007 = ret"
      "context_at (stack (task s1 ch)) = y"
    and a: "away L emul show_clock ch s1 (kern m2)" "runs L (kern m2) ch"
  shows "\<exists>m3. fork_continue L ret (of_nat (4 * n)) m2 = Some m3 \<and> context_of m3 = y\<lparr>u_eax := 0\<rparr>
    \<and> (\<forall>k<81920. user_data (kern m3) ch k = user_data s1 ch k)"
proof -
  have "PID (task_of s1 ch) \<noteq> - 1" using ch(2) by auto
  from away_waits [OF a(1) L lib s1(1,2) ch(1) this] have w: "waits L ch s1 (kern m2)"
    "\<forall>n<81920. user_data (kern m2) ch n = user_data s1 ch n" using ch(2) by auto
  have "ret_from_fork_addr L \<noteq> switch_ret_addr L" using L by (auto simp: layout_ok_def)
  then have "esp (cpu (kern m2)) = elem_addr (task_base L) ch 1007" "stack (task (kern m2) ch) = stack (task s1 ch)"
    using w(1) a(2) s1(3) by (auto simp: waits_def)
  from fork_continue_at [OF L x ch(1) n this(1)] this(2) s1(4,5) obtain m3 where
    m3: "fork_continue L ret (of_nat (4 * n)) m2 = Some m3" "context_of m3 = y\<lparr>u_eax := 0\<rparr>"
      "mem (kern m3) = mem (kern m2)" "pagusr_table (kern m3) = pagusr_table (kern m2)" by auto
  then show ?thesis using w(2) user_data_cong [OF m3(3,4)] by auto
qed

end
