(* ===== verification/Kernel_Hardware.thy ===== *)
theory Kernel_Hardware
  imports Kernel_Resume
begin

text \<open>
  The control instructions of \<^verbatim>\<open>hardware.c\<close> and \<^verbatim>\<open>main\<close> of \<^verbatim>\<open>system.c\<close> on the whole processor:
  from the entry point to the first instruction of the first process.
\<close>

section \<open>hardware.c\<close>

definition get_eflags :: "machine \<Rightarrow> dword" where
  "get_eflags m = m_eflags m"

text \<open>
  \<^verbatim>\<open>pushl $0; popfl\<close>: all flags off but bit 1, which is always on.  The word is pushed on the
  boot sector's stack, which is not used again.
\<close>

definition set_eflags :: "machine \<Rightarrow> machine" where
  "set_eflags m = m\<lparr>m_eflags := 2\<rparr>"

definition set_ldt_reg :: "hword \<Rightarrow> machine \<Rightarrow> machine" where
  "set_ldt_reg ldt m = m\<lparr>m_ldt := ldt\<rparr>"

text \<open>A store of four bytes through a pointer.\<close>

definition vwrite_dword :: "layout \<Rightarrow> dword \<Rightarrow> dword \<Rightarrow> kernel \<Rightarrow> kernel option" where
  "vwrite_dword L a v s =
     do { s \<leftarrow> vwrite L a (ucast v) s;
          s \<leftarrow> vwrite L (a + 1) (ucast (drop_bit 8 v)) s;
          s \<leftarrow> vwrite L (a + 2) (ucast (drop_bit 16 v)) s;
          vwrite L (a + 3) (ucast (drop_bit 24 v)) s }"

definition p_rdtr :: dword where [simp]: "p_rdtr = KERNEL_START + 8"

text \<open>The word \<^verbatim>\<open>*p_rdtr\<close> is stored above the user stack, then a far return is simulated.\<close>

definition return_gate :: "layout \<Rightarrow> hword \<Rightarrow> hword \<Rightarrow> dword \<Rightarrow> hword \<Rightarrow> dword \<Rightarrow> machine \<Rightarrow> machine option" where
  "return_gate L ds ss usp cs eip m =
     do { rdtr \<leftarrow> vread_dword L p_rdtr (kern m);
          let m = m\<lparr>m_edx := rdtr, m_es := ds, m_ds := ds, m_eax := usp + 12\<rparr>;
          s \<leftarrow> vwrite_dword L (m_eax m) (m_edx m) (kern m);
          s \<leftarrow> mfold (pushl L) [ucast ss, usp, ucast cs, eip] s;
          lret L (m\<lparr>kern := s\<rparr>) }"

definition delay :: "machine \<Rightarrow> machine" where
  "delay m = m"

text \<open>\<^verbatim>\<open>movb $0xfc,%al; outb %al,$0x21; call delay; sti\<close>\<close>

definition enable_int :: "machine \<Rightarrow> machine" where
  "enable_int m =
     (let m = m\<lparr>m_eax := (m_eax m AND 0xffffff00) OR 0xfc, port_21 := 0xfc\<rparr>;
          m = delay m
      in m\<lparr>m_eflags := m_eflags m OR EFLAGS_IF\<rparr>)"

section \<open>main\<close>

text \<open>
  \<^verbatim>\<open>cld\<close> and the segment registers of \<^verbatim>\<open>set_seg_regs\<close>; its stack pointer is set in
  \<open>main_boot\<close>.
\<close>

definition set_segments :: "hword \<Rightarrow> hword \<Rightarrow> machine \<Rightarrow> machine" where
  "set_segments data_sel stack_sel m =
     m\<lparr>m_eflags := m_eflags m AND NOT 0x400, m_ds := data_sel, m_es := data_sel, m_fs := data_sel, m_gs := data_sel,
       m_ss := stack_sel\<rparr>"

definition kernel_main :: "layout \<Rightarrow> (kernel \<Rightarrow> kernel) \<Rightarrow> (kernel \<Rightarrow> kernel) \<Rightarrow> (kernel \<Rightarrow> kernel option)
    \<Rightarrow> machine \<Rightarrow> machine option" where
  "kernel_main L set_handlers init_policy console_init m =
     do { let m = set_eflags m;
          let m = set_segments KERNEL_DS KERNEL_DS m;
          s \<leftarrow> main_boot L set_handlers init_policy console_init (kern m);
          let m = enable_int (m\<lparr>kern := s\<rparr>);
          return_gate L USER_DS USER_DS USER_ESP USER_CS L_USER_START m }"

section \<open>Entering user mode\<close>

text \<open>The stack of a free task may be used without touching the invariant.\<close>

lemma kinv_free_stack:
  assumes k: "kinv L s c i F R B" and t: "t \<in> set F"
  shows "kinv L ((poke t f s)\<lparr>cpu := r, mem := m\<rparr>) c i F R B"
proof -
  let ?s = "(poke t f s)\<lparr>cpu := r, mem := m\<rparr>"
  have d: "dir_pages_baseAddr (task_of ?s x) = dir_pages_baseAddr (task_of s x)" for x by (simp add: poke_def)
  have "mm_inv L ?s (live i F)" using kinvD(7) [OF k] by (subst mm_inv_cong [of _ s]) (auto simp: poke_def)
  moreover have "resumable L ?s x" if x: "x \<in> insert i (set R \<union> set B)" "x \<noteq> c" for x
  proof -
    have "x \<noteq> t" using t x kinvD(4) [OF k] queues_are_distinct(4,5) [OF kinvD(1) [OF k]] by auto
    then show ?thesis using kinvD(6) [OF k x] resumable_cong [of ?s x s L] by (simp add: poke_def)
  qed
  moreover have "queues_are ?s F R B" using kinvD(1) [OF k] by (simp add: queues_are_def poke_def)
  ultimately show ?thesis using kinvD(2,3,4,5,8,9,10) [OF k] d unfolding kinv_def by (simp add: poke_def)
qed

lemma vwrite_dword_at:
  assumes "\<And>k. k < 4 \<Longrightarrow> translate L (a + of_nat k) s = Some (loc k)"
  shows "vwrite_dword L a v s = Some (s\<lparr>mem := (mem s)(loc 0 := ucast v, loc 1 := ucast (drop_bit 8 v),
     loc 2 := ucast (drop_bit 16 v), loc 3 := ucast (drop_bit 24 v))\<rparr>)"
  using assms [of 0] assms [of 1] assms [of 2] assms [of 3] by (simp add: vwrite_dword_def vwrite_def)

lemma return_gate_user:
  assumes L: "layout_ok L" and k: "kinv L (kern m) 8 9 F [] []" and F: "1 \<in> set F" and b: "boot_space L (kern m)"
    and sp: "esp (cpu (kern m)) = elem_addr (task_base L) 1 1019"
  shows "\<exists>m' f r mm. return_gate L USER_DS USER_DS USER_ESP USER_CS L_USER_START m = Some m'
    \<and> kern m' = (poke 1 f (kern m))\<lparr>cpu := r, mem := mm\<rparr>
    \<and> (\<forall>a. a \<notin> data_loc (data_frame (kern m) 8) ` {81916..<81920} \<longrightarrow> mm a = mem (kern m) a)
    \<and> m_eip m' = L_USER_START \<and> m_cs m' = USER_CS \<and> esp (cpu (kern m')) = USER_ESP \<and> m_ss m' = USER_DS
    \<and> m_ds m' = USER_DS \<and> m_es m' = USER_DS \<and> m_fs m' = outer_seg (m_fs m) \<and> m_gs m' = outer_seg (m_gs m)
    \<and> m_eflags m' = m_eflags m \<and> port_21 m' = port_21 m"
proof -
  let ?s = "kern m" and ?fr = "data_frame (kern m) 8" and ?e = "elem_addr (task_base L) 1"
  have outer: "outer_seg USER_DS = USER_DS" by (simp add: outer_seg_def)
  note sel = USER_ESP_def L_USER_START_def USER_DS_def USER_CS_def
  let ?v = "mem_dword (mem ?s) 0x10008"
  have rd: "vread_dword L p_rdtr ?s = Some ?v" using vread_dword_boot [OF L b, of "0x10008"] by simp
  have tr: "translate L (0x11BFFC + of_nat j) ?s = Some (data_loc ?fr (81916 + j))" if "j < 4" for j
    using data_translate [OF L k, of "81916 + j"] that by simp
  let ?mm = "(mem ?s)(data_loc ?fr 81916 := ucast ?v, data_loc ?fr 81917 := ucast (drop_bit 8 ?v),
     data_loc ?fr 81918 := ucast (drop_bit 16 ?v), data_loc ?fr 81919 := ucast (drop_bit 24 ?v))"
  have wr: "vwrite_dword L (USER_ESP + 12) ?v ?s = Some (?s\<lparr>mem := ?mm\<rparr>)"
    using vwrite_dword_at [OF tr, of ?v] by simp
  let ?vs = "[ucast USER_DS, USER_ESP, ucast USER_CS, L_USER_START]" and ?f = "stack (task ?s 1)"
  define s2 where "s2 = set_reg_esp (?e 1015) (poke 1 (pushed 1015 ?vs ?f) (?s\<lparr>mem := ?mm\<rparr>))"
  have ps: "mfold (pushl L) ?vs (?s\<lparr>mem := ?mm\<rparr>) = Some s2"
    unfolding s2_def using sp by (subst pushes_at [of _ L 1 1015]) simp_all
  have f: "pushed 1015 ?vs ?f 1015 = L_USER_START" "pushed 1015 ?vs ?f 1016 = ucast USER_CS"
    "pushed 1015 ?vs ?f 1017 = USER_ESP" "pushed 1015 ?vs ?f 1018 = ucast USER_DS"
    by (simp_all add: pushed_def)
  have u: "[1015..<1015 + 2] = [1015, (1016 :: nat)]" "[1017..<1017 + 2] = [1017, (1018 :: nat)]" by (simp_all add: upt_rec)
  have p1: "popn L 2 s2 = Some ([L_USER_START, ucast USER_CS], set_reg_esp (?e 1017) s2)"
    using pops_at [of s2 L 1 1015 2] f(1,2) unfolding u by (simp add: s2_def)
  have p2: "popn L 2 (set_reg_esp (?e 1017) s2) = Some ([USER_ESP, ucast USER_DS], set_reg_esp (?e 1019) s2)"
    using pops_at [of "set_reg_esp (?e 1017) s2" L 1 1017 2] f(3,4) unfolding u by (simp add: s2_def)
  let ?r = "(cpu ?s)\<lparr>esp := USER_ESP\<rparr>"
  let ?m = "m\<lparr>kern := (poke 1 (pushed 1015 ?vs ?f) ?s)\<lparr>cpu := ?r, mem := ?mm\<rparr>, m_edx := ?v, m_eax := USER_ESP + 12,
    m_eip := L_USER_START, m_cs := USER_CS, m_ss := USER_DS, m_ds := USER_DS, m_es := USER_DS,
    m_fs := outer_seg (m_fs m), m_gs := outer_seg (m_gs m)\<rparr>"
  have "return_gate L USER_DS USER_DS USER_ESP USER_CS L_USER_START m
      = lret L (m\<lparr>m_edx := ?v, m_es := USER_DS, m_ds := USER_DS, m_eax := USER_ESP + 12, kern := s2\<rparr>)"
    unfolding return_gate_def rd bind.bind_lunit Let_def by (simp add: wr ps del: sel mfold.simps)
  moreover have "set_reg_esp USER_ESP s2 = (poke 1 (pushed 1015 ?vs ?f) ?s)\<lparr>cpu := ?r, mem := ?mm\<rparr>"
    by (simp add: s2_def set_reg_esp_def poke_def del: sel)
  then have "lret L (m\<lparr>m_edx := ?v, m_es := USER_DS, m_ds := USER_DS, m_eax := USER_ESP + 12, kern := s2\<rparr>) = Some ?m"
    using outer by (simp add: lret_def outer_return_def p1 p2 del: USER_ESP_def L_USER_START_def One_nat_def)
  ultimately have "return_gate L USER_DS USER_DS USER_ESP USER_CS L_USER_START m = Some ?m" by (simp only:)
  moreover have "\<forall>a. a \<notin> data_loc ?fr ` {81916..<81920} \<longrightarrow> ?mm a = mem ?s a" by auto
  ultimately show ?thesis
    by (intro exI [of _ ?m] exI [of _ "pushed 1015 ?vs ?f"] exI [of _ ?r] exI [of _ ?mm]) simp
qed

lemma kernel_main_ok:
  assumes L: "layout_ok L" and im: "image_ok (mem (kern m))" and pid: "PID_MAX (kern m) = 1"
    and hnd: "\<And>s. \<exists>g. set_handlers s = s\<lparr>idt := g\<rparr>" and pol: "\<And>s. init_policy s = s"
    and con: "\<And>s. console_init s = on_links (INIT_LIST_HEAD (Ptr CONSOLE_BLOCKED)) s"
  shows "\<exists>m' s'. main_boot L set_handlers init_policy console_init (kern m) = Some s'
    \<and> kernel_main L set_handlers init_policy console_init m = Some m'
    \<and> in_user L 8 m' \<and> gates_set L (kern m') \<and> port_21 m' = 0xfc
    \<and> u_eip (context_of m') = L_USER_START \<and> u_cs (context_of m') = USER_CS
    \<and> u_esp (context_of m') = USER_ESP \<and> u_ss (context_of m') = USER_DS
    \<and> u_ds (context_of m') = USER_DS \<and> u_es (context_of m') = USER_DS \<and> u_fs (context_of m') = 0 \<and> u_gs (context_of m') = 0
    \<and> u_eflags (context_of m') = 2 OR EFLAGS_IF
    \<and> (\<forall>a. a \<notin> data_loc (data_frame s' 8) ` {81916..<81920} \<longrightarrow> mem (kern m') a = mem s' a)"
proof -
  let ?F = "[7, 6, 5, 4, 3, 2, 1, 0] :: nat list"
  obtain s' where s': "main_boot L set_handlers init_policy console_init (kern m) = Some s'" "kinv L s' 8 9 ?F [] []"
    "pids_ok s' 9 ?F" "gates_set L s'" "boot_space L s'" "cpu s' = (cpu (kern m))\<lparr>esp := INITIAL_ESP L - 20\<rparr>"
    using main_boot_ok [OF L im pid hnd pol con] by blast
  define m1 where "m1 = enable_int ((set_segments KERNEL_DS KERNEL_DS (set_eflags m))\<lparr>kern := s'\<rparr>)"
  have m1: "kern m1 = s'" "m_fs m1 = KERNEL_DS" "m_gs m1 = KERNEL_DS" "m_eflags m1 = 2 OR EFLAGS_IF" "port_21 m1 = 0xfc"
    by (simp_all add: m1_def enable_int_def set_segments_def set_eflags_def delay_def Let_def)
  have "INITIAL_ESP L - 20 = elem_addr (task_base L) 1 1019"
    by (simp add: INITIAL_ESP_def KERNEL_ESP_slot) (simp add: elem_addr_def)
  then have "esp (cpu (kern m1)) = elem_addr (task_base L) 1 1019" using s'(6) m1(1) by simp
  from return_gate_user [of L m1, unfolded m1(1), OF L s'(2) _ s'(5) this [unfolded m1(1)]] obtain m' f r mm where
    m': "return_gate L USER_DS USER_DS USER_ESP USER_CS L_USER_START m1 = Some m'"
      "kern m' = (poke 1 f s')\<lparr>cpu := r, mem := mm\<rparr>"
      "\<forall>a. a \<notin> data_loc (data_frame s' 8) ` {81916..<81920} \<longrightarrow> mm a = mem s' a"
      "m_eip m' = L_USER_START" "m_cs m' = USER_CS" "esp (cpu (kern m')) = USER_ESP" "m_ss m' = USER_DS"
      "m_ds m' = USER_DS" "m_es m' = USER_DS" "m_fs m' = outer_seg (m_fs m1)" "m_gs m' = outer_seg (m_gs m1)"
      "m_eflags m' = m_eflags m1" "port_21 m' = port_21 m1" by auto
  have main: "kernel_main L set_handlers init_policy console_init m = Some m'"
    using s'(1) m'(1) by (simp add: kernel_main_def Let_def m1_def set_segments_def set_eflags_def del: USER_ESP_def)
  have k: "kinv L (kern m') 8 9 ?F [] []" unfolding m'(2) by (rule kinv_free_stack [OF s'(2)]) simp
  have "pids_ok (kern m') 9 ?F" unfolding m'(2) using s'(3) by (subst pids_ok_same [of _ s']) (simp_all add: poke_def)
  then have "good L (kern m')" using k goodI by blast
  moreover have "runs L (kern m') 8" "idle_task (kern m') = Some 9" using kinvD(2,10) [OF k] by (simp_all add: runs_def)
  moreover have cx: "u_eip (context_of m') = L_USER_START \<and> u_cs (context_of m') = USER_CS
    \<and> u_esp (context_of m') = USER_ESP \<and> u_ss (context_of m') = USER_DS
    \<and> u_ds (context_of m') = USER_DS \<and> u_es (context_of m') = USER_DS \<and> u_fs (context_of m') = 0 \<and> u_gs (context_of m') = 0
    \<and> u_eflags (context_of m') = 2 OR EFLAGS_IF"
    using m'(4-12) m1 by (simp add: context_of_def outer_seg_def)
  ultimately have "in_user L 8 m'" by (simp add: in_user_def user_context_def outer_seg_def)
  moreover have "gates_set L (kern m')" using s'(4) unfolding m'(2) by (simp add: gates_set_def poke_def)
  moreover have "mem (kern m') = mm" unfolding m'(2) by simp
  ultimately show ?thesis using s'(1) main cx m'(3,13) m1(5) by (intro exI [of _ m'] exI [of _ s']) simp
qed

end
