(* ===== verification/Kernel_Spec.thy ===== *)
theory Kernel_Spec
  imports Kernel_Isolation
begin

text \<open>
  What the kernel promises, without its data structures: processes that compute on memory of
  their own, are created with a copy of their creator's memory, end, wait and are woken, and
  share the processor in turn.  Every run of the kernel is a run of this machine.
\<close>

section \<open>The abstract machine\<close>

record astate =
  p_running :: nat
  p_idle :: nat
  p_ready :: "nat list"
  p_blocked :: "nat list"
  p_free :: "nat list"
  p_pid :: "nat \<Rightarrow> int"
  p_max :: int
  p_data :: "nat \<Rightarrow> nat \<Rightarrow> byte"

text \<open>The first ready process gets the processor, the idle task when there is none.\<close>

definition dispatch :: "astate \<Rightarrow> astate" where
  "dispatch a = (case p_ready a of [] \<Rightarrow> a\<lparr>p_running := p_idle a\<rparr> | t # ts \<Rightarrow> a\<lparr>p_running := t, p_ready := ts\<rparr>)"

definition preempt :: "astate \<Rightarrow> astate" where
  "preempt a = dispatch (if p_running a = p_idle a then a else a\<lparr>p_ready := p_ready a @ [p_running a]\<rparr>)"

inductive astep :: "astate \<Rightarrow> astate \<Rightarrow> bool" where
  a_compute: "p_running a \<noteq> p_idle a \<Longrightarrow> astep a (a\<lparr>p_data := (p_data a)(p_running a := d)\<rparr>)"
| a_fork: "p_running a \<noteq> p_idle a \<Longrightarrow> p_free a = ch # F \<Longrightarrow>
    astep a (a\<lparr>p_free := F, p_ready := p_ready a @ [ch], p_pid := (p_pid a)(ch := p_max a + 1), p_max := p_max a + 1,
       p_data := (p_data a)(ch := p_data a (p_running a))\<rparr>)"
| a_exit: "p_running a \<noteq> p_idle a \<Longrightarrow>
    astep a (dispatch (a\<lparr>p_free := p_free a @ [p_running a], p_pid := (p_pid a)(p_running a := - 1)\<rparr>))"
| a_block: "p_running a \<noteq> p_idle a \<Longrightarrow> astep a (dispatch (a\<lparr>p_blocked := p_blocked a @ [p_running a]\<rparr>))"
| a_wake: "p_blocked a = B1 @ t # B2 \<Longrightarrow> astep a (a\<lparr>p_blocked := B1 @ B2, p_ready := p_ready a @ [t]\<rparr>)"
| a_preempt: "astep a (preempt a)"

section \<open>Simulations\<close>

text \<open>A relation that every step keeps, some abstract steps answering each concrete one.\<close>

locale forward_simulation =
  fixes cstep :: "'c \<Rightarrow> 'c \<Rightarrow> bool" and step :: "'a \<Rightarrow> 'a \<Rightarrow> bool" and rel :: "'c \<Rightarrow> 'a \<Rightarrow> bool"
  assumes simulates: "rel c a \<Longrightarrow> cstep c c' \<Longrightarrow> \<exists>a'. step\<^sup>*\<^sup>* a a' \<and> rel c' a'"
begin

lemma run_simulates: "cstep\<^sup>*\<^sup>* c c' \<Longrightarrow> rel c a \<Longrightarrow> \<exists>a'. step\<^sup>*\<^sup>* a a' \<and> rel c' a'"
proof (induction rule: rtranclp_induct)
  case base
  then show ?case by blast
next
  case (step c1 c2)
  then obtain a1 where a1: "step\<^sup>*\<^sup>* a a1" "rel c1 a1" by blast
  from simulates [OF a1(2) step(2)] show ?case using a1(1) by (meson rtranclp_trans)
qed

end

section \<open>The kernel implements the machine\<close>

definition implements :: "layout \<Rightarrow> kernel \<Rightarrow> astate \<Rightarrow> bool" where
  "implements L s a \<longleftrightarrow> kinv L s (p_running a) (p_idle a) (p_free a) (p_ready a) (p_blocked a)
     \<and> pids_ok s (p_idle a) (p_free a)
     \<and> (\<forall>t<10. p_pid a t = sint (PID (task_of s t))) \<and> p_max a = sint (PID_MAX s)
     \<and> (\<forall>t\<in>live (p_idle a) (p_free a). \<forall>n<81920. p_data a t n = user_data s t n)"

lemma implementsD:
  assumes "implements L s a"
  shows "kinv L s (p_running a) (p_idle a) (p_free a) (p_ready a) (p_blocked a)" "pids_ok s (p_idle a) (p_free a)"
    "\<And>t. t < 10 \<Longrightarrow> p_pid a t = sint (PID (task_of s t))" "p_max a = sint (PID_MAX s)"
    "\<And>t n. t \<in> live (p_idle a) (p_free a) \<Longrightarrow> n < 81920 \<Longrightarrow> p_data a t n = user_data s t n"
  using assms by (simp_all add: implements_def)

text \<open>Steps that move processes between the queues only.\<close>

lemma implements_move:
  assumes a: "implements L s a"
    and k: "kinv L s' (p_running a') (p_idle a') (p_free a') (p_ready a') (p_blocked a')"
    and same: "p_idle a' = p_idle a" "p_free a' = p_free a" "p_pid a' = p_pid a" "p_max a' = p_max a" "p_data a' = p_data a"
    and s': "\<And>t. PID (task_of s' t) = PID (task_of s t)" "PID_MAX s' = PID_MAX s" "mem s' = mem s" "pagusr_table s' = pagusr_table s"
  shows "implements L s' a'"
proof -
  have "pids_ok s' (p_idle a) (p_free a) = pids_ok s (p_idle a) (p_free a)" using s'(1,2) by (intro pids_ok_same) auto
  moreover have "user_data s' t n = user_data s t n" for t n using user_data_cong [OF s'(3,4)] by simp
  ultimately show ?thesis using implementsD(2-5) [OF a] k s'(1,2) unfolding implements_def same by simp
qed

lemma implements_stay:
  assumes a: "implements L s a" and f: "same_control s s'" "mem s' = mem s"
  shows "implements L s' a"
proof (rule implements_move [OF a _ refl refl refl refl refl])
  show "kinv L s' (p_running a) (p_idle a) (p_free a) (p_ready a) (p_blocked a)"
    using kinvD(1) [OF implementsD(1) [OF a]] f(1)
    by (intro kinv_transfer [OF implementsD(1) [OF a]]) (auto simp: same_control_def queues_are_def)
qed (use f in \<open>auto simp: same_control_def\<close>)

text \<open>The running process changes its own data.\<close>

lemma implements_compute:
  assumes a: "implements L s a" and k: "kinv L s' (p_running a) (p_idle a) (p_free a) (p_ready a) (p_blocked a)"
    and ri: "p_running a \<noteq> p_idle a" and s': "\<And>t. PID (task_of s' t) = PID (task_of s t)" "PID_MAX s' = PID_MAX s"
    and d: "\<And>t n. t \<in> live (p_idle a) (p_free a) \<Longrightarrow> t \<noteq> p_running a \<Longrightarrow> n < 81920 \<Longrightarrow> user_data s' t n = user_data s t n"
  shows "\<exists>a'. astep\<^sup>*\<^sup>* a a' \<and> implements L s' a'"
proof -
  let ?a = "a\<lparr>p_data := (p_data a)(p_running a := user_data s' (p_running a))\<rparr>"
  have "astep a ?a" using ri by (rule a_compute)
  moreover have "pids_ok s' (p_idle a) (p_free a) = pids_ok s (p_idle a) (p_free a)" using s' by (intro pids_ok_same) auto
  then have "implements L s' ?a" using implementsD(2-5) [OF a] k s' d unfolding implements_def by simp
  ultimately show ?thesis by blast
qed

lemma kinv_dispatch:
  assumes "kinv L s (next_task R i) i F (tl R) B" "p_ready a = R" "p_idle a = i" "p_free a = F" "p_blocked a = B"
  shows "kinv L s (p_running (dispatch a)) (p_idle (dispatch a)) (p_free (dispatch a)) (p_ready (dispatch a)) (p_blocked (dispatch a))"
  using assms by (cases R) (simp_all add: dispatch_def next_task_def)

lemma dispatch_sels [simp]:
  "p_idle (dispatch a) = p_idle a" "p_free (dispatch a) = p_free a" "p_pid (dispatch a) = p_pid a" "p_max (dispatch a) = p_max a"
  "p_data (dispatch a) = p_data a"
  by (simp_all add: dispatch_def split: list.split)

lemma preempt_switch:
  assumes a: "implements L s a"
    and k: "kinv L s' (fst (after_tick (p_running a) (p_idle a) (p_ready a))) (p_idle a) (p_free a)
      (snd (after_tick (p_running a) (p_idle a) (p_ready a))) (p_blocked a)"
    and s': "\<And>t. PID (task_of s' t) = PID (task_of s t)" "PID_MAX s' = PID_MAX s" "mem s' = mem s" "pagusr_table s' = pagusr_table s"
  shows "implements L s' (preempt a)"
proof (rule implements_move [OF a _ _ _ _ _ _ s'])
  let ?b = "if p_running a = p_idle a then a else a\<lparr>p_ready := p_ready a @ [p_running a]\<rparr>"
  have "kinv L s' (next_task (p_ready ?b) (p_idle a)) (p_idle a) (p_free a) (tl (p_ready ?b)) (p_blocked a)"
    using k by (cases "p_ready a") (auto simp: after_tick_def next_task_def split: if_splits)
  then show "kinv L s' (p_running (preempt a)) (p_idle (preempt a)) (p_free (preempt a)) (p_ready (preempt a)) (p_blocked (preempt a))"
    unfolding preempt_def by (rule kinv_dispatch) simp_all
qed (simp_all add: preempt_def)

lemma sim_fork:
  assumes L: "layout_ok L" and a: "implements L s a" and ci: "p_running a \<noteq> p_idle a" and cur: "current L s = Some (p_running a)"
    and bp: "ebp (cpu s) = elem_addr (task_base L) (p_running a) (Suc j)" "14 \<le> j" "Suc j < 1024"
    and bound: "sint (PID_MAX s) < 2147483647" and f: "sys_fork L s = Some (v, s')"
  shows "\<exists>a'. astep\<^sup>*\<^sup>* a a' \<and> implements L s' a'"
proof (cases "p_free a")
  case Nil
  then have "kinv L s (p_running a) (p_idle a) [] (p_ready a) (p_blocked a)" using implementsD(1) [OF a] by simp
  from sys_fork_full_control [OF this cur f] show ?thesis using implements_stay [OF a] by blast
next
  case (Cons ch F)
  let ?c = "p_running a" and ?i = "p_idle a"
  define b where "b = a\<lparr>p_free := F, p_ready := p_ready a @ [ch], p_pid := (p_pid a)(ch := p_max a + 1), p_max := p_max a + 1,
       p_data := (p_data a)(ch := p_data a ?c)\<rparr>"
  have k: "kinv L s ?c ?i (ch # F) (p_ready a) (p_blocked a)" and p: "pids_ok s ?i (ch # F)" using implementsD(1,2) [OF a] Cons by simp_all
  obtain s1 where s1: "s1 = s'" "kinv L s' ?c ?i F (p_ready a @ [ch]) (p_blocked a)" "forked L s ?c ch j (live ?i (ch # F)) s'"
    using sys_fork_ok [OF L k ci cur bp] f by auto
  have d: "ch \<noteq> ?c" "ch \<noteq> ?i" "ch < 10" "ch \<notin> set F"
    using kinvD(4,5) [OF k] kinv_bounds [OF k] queues_are_distinct(1) [OF kinvD(1) [OF k]] by auto
  have lv: "live ?i F = insert ch (live ?i (ch # F))" "?c \<in> live ?i (ch # F)" using d live_tasks [OF k] ci by (auto simp: live_def)
  have inc: "sint (PID_MAX s + 1) = sint (PID_MAX s) + 1"
    using bound sint32_range(1) [of "PID_MAX s"] by (simp add: sint_word_ariths signed_take_bit_int_eq_self)
  have "p_pid b t = sint (PID (task_of s' t))" if "t < 10" for t
    using implementsD(3,4) [OF a] that s1(3) inc by (cases "t = ?c"; cases "t = ch") (auto simp: forked_def b_def)
  moreover have "p_data b t n = user_data s' t n" if "t \<in> live ?i F" "n < 81920" for t n
    using implementsD(5) [OF a] that s1(3) Cons lv d by (cases "t = ch") (auto simp: forked_def b_def)
  moreover have "p_max b = sint (PID_MAX s')" using implementsD(4) [OF a] s1(3) inc by (simp add: forked_def b_def)
  moreover have "p_running b = ?c" "p_idle b = ?i" "p_free b = F" "p_ready b = p_ready a @ [ch]" "p_blocked b = p_blocked a"
    by (simp_all add: b_def)
  ultimately have "implements L s' b" using s1(2) pids_ok_fork [OF k p bound s1(3) ci] by (simp add: implements_def)
  moreover have "astep a b" unfolding b_def using ci Cons by (rule a_fork)
  ultimately show ?thesis by blast
qed

lemma sim_exit:
  assumes L: "layout_ok L" and a: "implements L s a" and ci: "p_running a \<noteq> p_idle a" and room: "stack_room L s (p_running a)"
    and f: "sys_exit L (rr_policy L) s = Some (r, s')"
  shows "\<exists>a'. astep\<^sup>*\<^sup>* a a' \<and> implements L s' a'"
proof -
  let ?c = "p_running a" and ?i = "p_idle a"
  let ?b = "a\<lparr>p_free := p_free a @ [?c], p_pid := (p_pid a)(?c := - 1)\<rparr>"
  note k = implementsD(1) [OF a]
  have s': "kinv L s' (next_task (p_ready a) ?i) ?i (p_free a @ [?c]) (tl (p_ready a)) (p_blocked a)" "PID (task_of s' ?c) = - 1"
    "\<forall>t. t \<noteq> ?c \<longrightarrow> PID (task_of s' t) = PID (task_of s t)" "mem s' = mem s" "pagusr_table s' = pagusr_table s" "PID_MAX s' = PID_MAX s"
    using rr.exit_ok [OF L k ci room] f by auto
  have "kinv L s' (p_running (dispatch ?b)) (p_idle (dispatch ?b)) (p_free (dispatch ?b)) (p_ready (dispatch ?b)) (p_blocked (dispatch ?b))"
    by (rule kinv_dispatch [OF s'(1)]) simp_all
  moreover have "pids_ok s' ?i (p_free a @ [?c])"
    using pids_ok_exit [OF k implementsD(2) [OF a] ci, of s'] s' by auto
  moreover have "user_data s' t n = user_data s t n" for t n using user_data_cong [OF s'(4,5)] by simp
  moreover have "live ?i (p_free a @ [?c]) \<subseteq> live ?i (p_free a)" by (auto simp: live_def)
  moreover have "p_pid ?b t = sint (PID (task_of s' t))" if "t < 10" for t
    using implementsD(3) [OF a that] s'(2,3) by (cases "t = ?c") auto
  ultimately have "implements L s' (dispatch ?b)" using implementsD(4,5) [OF a] s'(6) unfolding implements_def by auto
  then show ?thesis using a_exit [OF ci] by blast
qed

lemma sim_block:
  assumes L: "layout_ok L" and a: "implements L s a" and ci: "p_running a \<noteq> p_idle a" and room: "stack_room L s (p_running a)"
    and f: "block_process L (rr_policy L) (Ptr CONSOLE_BLOCKED) s = Some (r, s')"
  shows "\<exists>a'. astep\<^sup>*\<^sup>* a a' \<and> implements L s' a'"
proof -
  let ?b = "a\<lparr>p_blocked := p_blocked a @ [p_running a]\<rparr>"
  have s': "kinv L s' (next_task (p_ready a) (p_idle a)) (p_idle a) (p_free a) (tl (p_ready a)) (p_blocked a @ [p_running a])"
    "\<And>t. PID (task_of s' t) = PID (task_of s t)" "PID_MAX s' = PID_MAX s" "mem s' = mem s" "pagusr_table s' = pagusr_table s"
    using rr.block_ok [OF L implementsD(1) [OF a] ci room] f by auto
  have "kinv L s' (p_running (dispatch ?b)) (p_idle (dispatch ?b)) (p_free (dispatch ?b)) (p_ready (dispatch ?b)) (p_blocked (dispatch ?b))"
    by (rule kinv_dispatch [OF s'(1)]) simp_all
  then have "implements L s' (dispatch ?b)" by (rule implements_move [OF a _ _ _ _ _ _ s'(2-5)]) simp_all
  then show ?thesis using a_block [OF ci] by blast
qed

lemma sim_unblock:
  assumes L: "layout_ok L" and a: "implements L s a" and room: "stack_room L s (p_running a)"
    and q: "console_queue s = Some ps" "Ptr (TASK_LIST t) \<in> set ps"
    and idle: "p_running a \<noteq> p_idle a \<or> needs_sched_rr s = 0"
    and f: "unblock_process L (rr_policy L) t s = Some (u, s')"
  shows "\<exists>a'. astep\<^sup>*\<^sup>* a a' \<and> implements L s' a'"
proof -
  note k = implementsD(1) [OF a]
  have "t \<in> set (p_blocked a)" using q console_queue_eq [OF kinvD(1) [OF k]] by auto
  then obtain B1 B2 where B: "p_blocked a = B1 @ t # B2" by (meson split_list)
  let ?b = "a\<lparr>p_blocked := B1 @ B2, p_ready := p_ready a @ [t]\<rparr>"
  have "p_running a = p_idle a \<Longrightarrow> needs_sched (rr_policy L) s = 0" using idle by (auto simp: rr_policy_def)
  note ok = rr.unblock_ok [OF L k [unfolded B] room this]
  have s': "\<And>t. PID (task_of s' t) = PID (task_of s t)" "PID_MAX s' = PID_MAX s" "mem s' = mem s" "pagusr_table s' = pagusr_table s"
    using ok f by auto
  have w: "astep a ?b" using B by (rule a_wake)
  show ?thesis
  proof (cases u)
    case None
    then have "kinv L s' (p_running ?b) (p_idle ?b) (p_free ?b) (p_ready ?b) (p_blocked ?b)" using ok f by auto
    then have "implements L s' ?b" by (rule implements_move [OF a _ _ _ _ _ _ s']) simp_all
    then show ?thesis using w by blast
  next
    case (Some r)
    then have k': "kinv L s' (hd (p_ready ?b)) (p_idle a) (p_free a) (tl (p_ready ?b) @ [p_running a]) (B1 @ B2)"
      using ok f by auto
    have "p_running a \<noteq> p_idle a"
    proof
      assume e: "p_running a = p_idle a"
      then have "hd (p_ready ?b) \<noteq> p_running a" "p_running a \<in> set (tl (p_ready ?b) @ [p_running a])"
        using kinvD(5) [OF k] B by (cases "p_ready a"; auto)+
      then show False using kinvD(4) [OF k'] e by simp
    qed
    then have "kinv L s' (p_running (preempt ?b)) (p_idle (preempt ?b)) (p_free (preempt ?b)) (p_ready (preempt ?b)) (p_blocked (preempt ?b))"
      using k' by (cases "p_ready a") (simp_all add: preempt_def dispatch_def)
    then have "implements L s' (preempt ?b)" by (rule implements_move [OF a _ _ _ _ _ _ s']) (simp_all add: preempt_def)
    moreover have "astep\<^sup>*\<^sup>* a (preempt ?b)" by (rule rtranclp.rtrancl_into_rtrancl [OF r_into_rtranclp [of astep, OF w] a_preempt])
    ultimately show ?thesis by blast
  qed
qed

lemma sim_tick:
  assumes L: "layout_ok L" and a: "implements L s a" and room: "stack_room L s (p_running a)"
    and lib: "screen_only emul" "screen_only show_clock"
    and f: "clock_routine L (rr_policy L) emul show_clock s = Some (out, s')"
  shows "\<exists>a'. astep\<^sup>*\<^sup>* a a' \<and> implements L s' a'"
proof -
  note k = implementsD(1) [OF a]
  note ok = rr.clock_ok [OF L k room pids_ok_idle [OF implementsD(2) [OF a] k] lib]
  have s': "\<And>t. PID (task_of s' t) = PID (task_of s t)" "PID_MAX s' = PID_MAX s" "mem s' = mem s" "pagusr_table s' = pagusr_table s"
    using ok f by auto
  show ?thesis
  proof (cases "needs_sched (rr_policy L) (update_sched_data (rr_policy L) s) = 1")
    case True
    then have "implements L s' (preempt a)" using ok f by (intro preempt_switch [OF a _ s']) auto
    then show ?thesis using a_preempt by blast
  next
    case False
    then have "implements L s' a" using ok f by (intro implements_move [OF a _ refl refl refl refl refl s']) auto
    then show ?thesis by blast
  qed
qed

text \<open>Whatever step the kernel makes, the abstract machine can answer it.\<close>

lemma kstep_simulated:
  assumes "kstep L emul show_clock s s'" and L: "layout_ok L" and lib: "screen_only emul" "screen_only show_clock"
    and a: "implements L s a"
  shows "\<exists>a'. astep\<^sup>*\<^sup>* a a' \<and> implements L s' a'"
proof -
  let ?c = "p_running a" and ?i = "p_idle a" and ?F = "p_free a"
  note k = implementsD(1) [OF a] and p = implementsD(2) [OF a]
  have idle: "idle_task s = Some ?i" by (rule kinvD(2) [OF k])
  note r = runs_kinv [OF k]
  note cur = stack_room_current [OF L kinv_bounds(1) [OF k]]
  have g: "good L s" using goodI [OF k p] .
  have data: "user_data s' t n = user_data s t n" if "t \<in> live ?i ?F" "t \<noteq> ?c" "n < 81920" for t n
  proof -
    have t: "t < 10" "0 < sint (PID (task_of s t))" using that(1) p by (auto simp: live_def pids_ok_def)
    have "\<not> runs L s t" using r that(2) by auto
    from kstep_data [OF assms(1) L lib g this t that(3)] show ?thesis .
  qed
  have stay: "\<exists>a'. astep\<^sup>*\<^sup>* a a' \<and> implements L s' a'" if "same_control s s' \<and> mem s' = mem s"
    using implements_stay [OF a] that by blast
  have compute: "\<exists>a'. astep\<^sup>*\<^sup>* a a' \<and> implements L s' a'" if "kinv L s' ?c ?i ?F (p_ready a) (p_blocked a)"
    "\<And>t. PID (task_of s' t) = PID (task_of s t)" "PID_MAX s' = PID_MAX s" "?c \<noteq> ?i"
    using implements_compute [OF a that(1,4,2,3)] data by blast
  from assms(1) show ?thesis
  proof cases
    case (k_user c')
    then have u: "user_phase L ?c s s'" using r by auto
    have k': "kinv L s' ?c ?i ?F (p_ready a) (p_blocked a)" by (rule kinv_user_phase [OF k u])
    have pid: "\<And>t. PID (task_of s' t) = PID (task_of s t)" "PID_MAX s' = PID_MAX s" "pagusr_table s' = pagusr_table s"
      using u by (auto simp: user_phase_def)
    show ?thesis
    proof (cases "?c = ?i")
      case True
      then have "mem s' = mem s" using u idle by (auto simp: user_phase_def)
      then have "implements L s' a" using pid k' by (intro implements_move [OF a _ refl refl refl refl refl]) auto
      then show ?thesis by blast
    qed (use k' pid compute in blast)
  next
    case (k_fork c' j v)
    then show ?thesis using r idle cur by (intro sim_fork [OF L a]) auto
  next
    case (k_exit c' rr)
    then show ?thesis using r idle by (intro sim_exit [OF L a]) auto
  next
    case (k_block c' rr)
    then show ?thesis using r idle by (intro sim_block [OF L a]) auto
  next
    case (k_unblock c' ps t u)
    then show ?thesis using r idle by (intro sim_unblock [OF L a]) auto
  next
    case (k_tick c' out)
    then show ?thesis using r by (intro sim_tick [OF L a _ lib]) auto
  next
    case (k_key key v)
    then have "same_control s s' \<and> mem s' = mem s"
      by (auto simp: keyboard_routine_def Let_def same_control_def split: if_splits)
    then show ?thesis by (rule stay)
  next
    case (k_getpid c' v)
    then show ?thesis using brief_control stay by blast
  next
    case (k_gettime c' v)
    then show ?thesis using brief_control stay by blast
  next
    case (k_write c' fd buffer sz v)
    then show ?thesis using sys_write_control stay by blast
  next
    case (k_stats c' pid st v)
    then have f: "same_control s s'" and ci: "?c \<noteq> ?i" using same_control_get_stats r idle by auto
    have "kinv L s' ?c ?i ?F (p_ready a) (p_blocked a)"
      using kinvD(1) [OF k] f by (intro kinv_transfer [OF k]) (auto simp: same_control_def queues_are_def)
    then show ?thesis using f ci by (intro compute) (auto simp: same_control_def)
  qed
qed

definition kernel_rel :: "layout \<Rightarrow> (kernel \<Rightarrow> kernel option) \<Rightarrow> (kernel \<Rightarrow> kernel option) \<Rightarrow> kernel \<Rightarrow> astate \<Rightarrow> bool" where
  "kernel_rel L emul show_clock s a \<longleftrightarrow> layout_ok L \<and> screen_only emul \<and> screen_only show_clock \<and> implements L s a"

interpretation ks: forward_simulation "kstep L emul show_clock" astep "kernel_rel L emul show_clock"
  for L emul show_clock
  by unfold_locales (use kstep_simulated in \<open>fastforce simp: kernel_rel_def\<close>)

text \<open>After the boot: one process, with the data of its image, and eight free entries.\<close>

definition booted :: "kernel \<Rightarrow> astate" where
  "booted s = \<lparr>p_running = 8, p_idle = 9, p_ready = [], p_blocked = [], p_free = [7, 6, 5, 4, 3, 2, 1, 0],
     p_pid = (\<lambda>t. sint (PID (task_of s t))), p_max = 1, p_data = user_data s\<rparr>"

lemma boot_implements:
  assumes "kinv L s 8 9 [7, 6, 5, 4, 3, 2, 1, 0] [] []" "pids_ok s 9 [7, 6, 5, 4, 3, 2, 1, 0]" "PID_MAX s = 1"
  shows "implements L s (booted s)"
  using assms by (simp add: implements_def booted_def)

end
