(* ===== verification/Kernel_Demo.thy ===== *)
theory Kernel_Demo
  imports Kernel_Hardware Kernel_Spec
begin

text \<open>
  A concrete machine: one memory layout, an initial state with a four-byte user image, its
  boot, the first process inside a kernel entry, and the states after some forks and a
  block.  The properties of the root theory are applied to these states.
\<close>

section \<open>The machine before boot\<close>

definition demo_layout :: layout where
  "demo_layout = \<lparr>task_base = 0x20000, dir_base = 0x30000, pt_base = 0x40000,
     ret_from_fork_addr = 0x11000, cpu_idle_addr = 0x11100, switch_ret_addr = 0x11200,
     tss_addr = 0x12000, idt_addr = 0x13000, keyboard_handler_addr = 0x14000,
     clock_handler_addr = 0x14100, system_call_handler_addr = 0x14200\<rparr>"

definition zero_stats :: stats where
  "zero_stats = \<lparr>user_ticks = 0, system_ticks = 0, blocked_ticks = 0, ready_ticks = 0,
     elapsed_total_ticks = 0, total_trans = 0, remaining_ticks = 0\<rparr>"

definition zero_task :: task_union where
  "zero_task = \<lparr>pcb = \<lparr>PID = 0, dir_pages_baseAddr = 0, quantum = 0, kernel_esp = 0,
     statics = zero_stats, t_state = ST_RUN\<rparr>, stack = (\<lambda>_. 0)\<rparr>"

definition zero_tss :: tss_t where
  "zero_tss = \<lparr>tss_PreviousTaskLink = 0, tss_esp0 = 0, tss_ss0 = 0, tss_esp1 = 0, tss_ss1 = 0,
     tss_esp2 = 0, tss_ss2 = 0, tss_cr3 = 0, tss_eip = 0, tss_eFlags = 0, tss_eax = 0,
     tss_ecx = 0, tss_edx = 0, tss_ebx = 0, tss_esp = 0, tss_ebp = 0, tss_esi = 0, tss_edi = 0,
     tss_es = 0, tss_cs = 0, tss_ss = 0, tss_ds = 0, tss_fs = 0, tss_gs = 0,
     tss_LDTSegmentSelector = 0, tss_debugTrap = 0, tss_IOMapBaseAddress = 0\<rparr>"

text \<open>A kernel of 16 bytes and a user image of 4 bytes behind it.\<close>

definition demo_mem :: "dword \<Rightarrow> byte" where
  "demo_mem = (\<lambda>_. 0)(0x10000 := 16, 0x10004 := 4, 0x10010 := 11, 0x10011 := 22, 0x10012 := 33, 0x10013 := 44)"

definition demo_start :: kernel where
  "demo_start = \<lparr>links = (\<lambda>_. \<lparr>nxt = Null, prv = Null\<rparr>), task = (\<lambda>_. zero_task), idle_task = None,
     init_task = None, CPU_QUANTUM = 0, act_t = 0, PID_MAX = 1, zeos_ticks = 0,
     phys_mem = (\<lambda>_. 0), dir_pages = (\<lambda>_ _. 0), pagusr_table = (\<lambda>_ _. 0), mem = demo_mem,
     tss = zero_tss,
     gdt = (\<lambda>_. \<lparr>d_limit = 0, d_lowBase = 0, d_midBase = 0, d_flags1 = 0, d_flags2 = 0, d_highBase = 0\<rparr>),
     gdtR = \<lparr>r_limit = 0, r_base = 0\<rparr>,
     idt = (\<lambda>_. \<lparr>g_lowOffset = 0, g_segmentSelector = 0, g_flags = 0, g_highOffset = 0\<rparr>),
     idtR = \<lparr>r_limit = 0, r_base = 0\<rparr>, gdt_reg = \<lparr>r_limit = 0, r_base = 0\<rparr>,
     idt_reg = \<lparr>r_limit = 0, r_base = 0\<rparr>, task_reg = 0, cr0 = 0, cr3 = 0,
     cpu = \<lparr>esp = 0, ebp = 0, ebx = 0, esi = 0, edi = 0\<rparr>, tsc = (\<lambda>n. of_nat n * 109000), tsc_pos = 0,
     scr = \<lparr>cur_x = 0, cur_y = 15, video = (\<lambda>_. 0), port_e9 = []\<rparr>\<rparr>"

lemma demo_layout_ok [simp]: "layout_ok demo_layout"
  by (simp add: layout_ok_def demo_layout_def page_array_def)

lemma demo_image: "mem_dword (mem demo_start) 0x10000 = 16" "mem_dword (mem demo_start) 0x10004 = 4"
  by (simp_all add: mem_dword_def demo_start_def demo_mem_def)

lemma demo_image_ok: "image_ok (mem demo_start)"
  by (simp add: image_ok_def demo_image)

section \<open>After boot\<close>

abbreviation console_head :: "kernel \<Rightarrow> kernel option" where
  "console_head \<equiv> on_links (INIT_LIST_HEAD (Ptr CONSOLE_BLOCKED))"

definition demo_boot :: kernel where
  "demo_boot = the (main_boot demo_layout (\<lambda>s. s) (\<lambda>s. s) console_head demo_start)"

abbreviation free8 :: "nat list" where "free8 \<equiv> [7, 6, 5, 4, 3, 2, 1, 0]"

lemma demo_boot_ok:
  "main_boot demo_layout (\<lambda>s. s) (\<lambda>s. s) console_head demo_start = Some demo_boot"
  "kinv demo_layout demo_boot 8 9 free8 [] []" "pids_ok demo_boot 9 free8" "PID_MAX demo_boot = 1" "gates_set demo_layout demo_boot"
proof -
  have h: "\<exists>g. s = s\<lparr>idt := g\<rparr>" for s :: kernel by (rule exI [of _ "idt s"]) simp
  have p: "PID_MAX demo_start = 1" by (simp add: demo_start_def)
  from main_boot_ok [OF demo_layout_ok demo_image_ok p, of "\<lambda>s. s" "\<lambda>s. s" console_head] h
  obtain s' where s': "main_boot demo_layout (\<lambda>s. s) (\<lambda>s. s) console_head demo_start = Some s'"
    "kinv demo_layout s' 8 9 free8 [] []" "pids_ok s' 9 free8" "PID_MAX s' = 1" "gates_set demo_layout s'" by auto
  then have "demo_boot = s'" by (simp add: demo_boot_def)
  with s' show "main_boot demo_layout (\<lambda>s. s) (\<lambda>s. s) console_head demo_start = Some demo_boot"
    "kinv demo_layout demo_boot 8 9 free8 [] []" "pids_ok demo_boot 9 free8" "PID_MAX demo_boot = 1" "gates_set demo_layout demo_boot"
    by simp_all
qed

section \<open>Kernel entries\<close>

text \<open>The registers inside an entry of task \<open>t\<close>: its kernel stack with 24 words in use.\<close>

definition enter :: "nat \<Rightarrow> kernel \<Rightarrow> kernel" where
  "enter t s = s\<lparr>cpu := \<lparr>esp = elem_addr (task_base demo_layout) t 1000,
     ebp = elem_addr (task_base demo_layout) t (Suc 1010), ebx = 1, esi = 2, edi = 3\<rparr>\<rparr>"

lemma enter_sels [simp]:
  "task (enter t s) = task s" "mem (enter t s) = mem s" "PID_MAX (enter t s) = PID_MAX s"
  "CPU_QUANTUM (enter t s) = CPU_QUANTUM s" "idle_task (enter t s) = idle_task s" "tss (enter t s) = tss s"
  "ebp (cpu (enter t s)) = elem_addr (task_base demo_layout) t (Suc 1010)"
  by (simp_all add: enter_def)

lemma enter_room [simp]: "stack_room demo_layout (enter t s) t"
  unfolding stack_room_def by (rule exI [of _ 1000]) (simp add: enter_def)

lemma enter_current [simp]: "t < 10 \<Longrightarrow> current demo_layout (enter t s) = Some t"
  by (rule stack_room_current) simp_all

lemma enter_kinv: "kinv L s c i F R B \<Longrightarrow> kinv L (enter t s) c i F R B"
  by (rule kinv_transfer, assumption) (auto simp: enter_def queues_are_def dest: kinvD(1))

lemma enter_pids [simp]: "pids_ok (enter t s) i F = pids_ok s i F"
  by (simp add: pids_ok_def)

definition demo_entry :: kernel where "demo_entry = enter 8 demo_boot"

lemma demo_entry_ok:
  "kinv demo_layout demo_entry 8 9 free8 [] []" "pids_ok demo_entry 9 free8" "PID_MAX demo_entry = 1"
  "current demo_layout demo_entry = Some 8" "stack_room demo_layout demo_entry 8"
  "ebp (cpu demo_entry) = elem_addr (task_base demo_layout) 8 (Suc 1010)"
  using demo_boot_ok(2-4) by (simp_all add: demo_entry_def enter_kinv)

section \<open>After some forks\<close>

primrec demo_forks :: "nat \<Rightarrow> kernel" where
  "demo_forks 0 = demo_entry"
| "demo_forks (Suc n) = snd (the (sys_fork demo_layout (demo_forks n)))"

lemma demo_forks_ok:
  "n \<le> 8 \<Longrightarrow> kinv demo_layout (demo_forks n) 8 9 (drop n free8) (take n free8) []
     \<and> pids_ok (demo_forks n) 9 (drop n free8) \<and> PID_MAX (demo_forks n) = of_nat (Suc n)
     \<and> cpu (demo_forks n) = cpu demo_entry"
proof (induction n)
  case 0
  then show ?case using demo_entry_ok by simp
next
  case (Suc n)
  let ?s = "demo_forks n" and ?ch = "free8 ! n"
  have n: "n < 8" using Suc.prems by simp
  have d: "drop n free8 = ?ch # drop (Suc n) free8" by (rule Cons_nth_drop_Suc [symmetric]) (use n in simp)
  have IH: "kinv demo_layout ?s 8 9 (?ch # drop (Suc n) free8) (take n free8) []"
    "pids_ok ?s 9 (?ch # drop (Suc n) free8)" "PID_MAX ?s = of_nat (Suc n)" "cpu ?s = cpu demo_entry"
    using Suc unfolding d [symmetric] by auto
  have cur: "current demo_layout ?s = Some 8" using demo_entry_ok(4) IH(4) by (simp add: current_def)
  have bp: "ebp (cpu ?s) = elem_addr (task_base demo_layout) 8 (Suc 1010)" using demo_entry_ok(6) IH(4) by simp
  from sys_fork_ok [OF demo_layout_ok IH(1) _ cur bp] obtain s' where s':
    "sys_fork demo_layout ?s = Some (PID_MAX ?s + 1, s')"
    "kinv demo_layout s' 8 9 (drop (Suc n) free8) (take n free8 @ [?ch]) []"
    "forked demo_layout ?s 8 ?ch 1010 (live 9 (?ch # drop (Suc n) free8)) s'" by auto
  have "sint (PID_MAX ?s) = int (Suc n)" unfolding IH(3) using n by (intro sint_of_nat_small) simp
  then have "pids_ok s' 9 (drop (Suc n) free8)"
    using n by (intro pids_ok_fork [OF IH(1,2) _ s'(3)]) simp_all
  moreover have "take n free8 @ [?ch] = take (Suc n) free8" by (rule take_Suc_conv_app_nth [symmetric]) (use n in simp)
  moreover have "PID_MAX s' = of_nat (Suc (Suc n))" "cpu s' = cpu demo_entry"
    using s'(3) IH(3,4) by (simp_all add: forked_def)
  ultimately show ?case using s'(1,2) by simp
qed

lemmas demo_fork_states = demo_forks_ok [of 1, simplified] demo_forks_ok [of 8, simplified]

lemma demo_forks_room:
  "n \<le> 8 \<Longrightarrow> stack_room demo_layout (demo_forks n) 8" "n \<le> 8 \<Longrightarrow> current demo_layout (demo_forks n) = Some 8"
  using demo_forks_ok [of n] demo_entry_ok(4,5) by (simp_all add: stack_room_def current_def)

section \<open>A step in user mode\<close>

text \<open>A process can write its own data and stack.\<close>

lemma own_data_writable:
  assumes k: "kinv L s c i F R B" and ci: "c \<noteq> i" and n: "n < 81920"
  shows "user_writable s c (data_loc (data_frame s c) n)"
proof -
  have "c \<in> live i F" using live_tasks [OF k] ci by auto
  then have "aspace L s c" by (rule mm_invD(3) [OF kinvD(7) [OF k]])
  moreover have d: "n div 4096 < 20" using n by (simp add: div_less_iff_less_mult)
  ultimately have e: "pagusr_table s c (264 + n div 4096) = user_pte (of_nat (data_frame s c (n div 4096)))"
    by (simp add: aspace_def)
  show ?thesis
    unfolding user_writable_def
  proof (intro exI conjI)
    show "264 + n div 4096 < 1024" using d by simp
    show "n mod 4096 < 4096" by simp
    show "pte_present (pagusr_table s c (264 + n div 4096))" "pte_user (pagusr_table s c (264 + n div 4096))"
      "pte_rw (pagusr_table s c (264 + n div 4096))" unfolding e by simp_all
    show "data_loc (data_frame s c) n
        = of_nat (4096 * unat (pbase_addr (pagusr_table s c (264 + n div 4096))) + n mod 4096)"
      by (simp add: data_loc_def data_frame_def)
  qed
qed

text \<open>The parent writes the first byte of its data after the first fork.\<close>

definition demo_write :: kernel where
  "demo_write = (demo_forks 1)\<lparr>mem := (mem (demo_forks 1))(data_loc (data_frame (demo_forks 1) 8) 0 := 99)\<rparr>"

lemma demo_write_phase: "user_phase demo_layout 8 (demo_forks 1) demo_write"
proof -
  let ?s = "demo_forks 1"
  have "user_writable ?s 8 (data_loc (data_frame ?s 8) 0)"
    using demo_fork_states by (intro own_data_writable) auto
  moreover have "idle_task ?s \<noteq> Some 8" using kinvD(2) demo_fork_states by fastforce
  moreover have "stack_room demo_layout demo_write 8"
    using demo_forks_room(1) [of 1] by (simp add: demo_write_def stack_room_def)
  ultimately show ?thesis
    unfolding user_phase_def
    by (intro conjI exI [of _ "cpu ?s"] exI [of _ "stack (task ?s 8)"] exI [of _ "mem demo_write"])
      (auto simp: demo_write_def)
qed

lemma screen_only_Some [simp]: "screen_only Some"
proof -
  have "s = s\<lparr>scr := scr s\<rparr>" for s :: kernel by simp
  then show ?thesis unfolding screen_only_def by blast
qed

text \<open>A run of two steps: from the boot into an entry of the first process, and its fork.\<close>

lemma demo_runs: "runs demo_layout demo_boot 8" "runs demo_layout demo_entry 8"
  using kinvD(10) [OF demo_boot_ok(2)] by (simp_all add: runs_def demo_entry_def)

lemma demo_fork_step:
  "sys_fork demo_layout demo_entry = Some (2, demo_forks 1)"
proof -
  have "\<exists>s'. sys_fork demo_layout demo_entry = Some (PID_MAX demo_entry + 1, s')"
    using sys_fork_ok [OF demo_layout_ok demo_entry_ok(1) _ demo_entry_ok(4,6)] by auto
  then show ?thesis using demo_entry_ok(3) by auto
qed

lemma demo_run: "(kstep demo_layout emul show_clock)\<^sup>*\<^sup>* demo_boot (demo_forks 1)"
proof -
  have "user_phase demo_layout 8 demo_boot demo_entry"
    unfolding user_phase_def
  proof (intro conjI exI)
    show "demo_entry = demo_boot\<lparr>cpu := cpu demo_entry,
        task := (task demo_boot)(8 := (task demo_boot 8)\<lparr>stack := stack (task demo_boot 8)\<rparr>), mem := mem demo_boot\<rparr>"
      by (simp add: demo_entry_def enter_def)
  qed (simp_all add: demo_entry_ok(5))
  then have "kstep demo_layout emul show_clock demo_boot demo_entry" by (rule k_user [OF demo_runs(1)])
  moreover have "kstep demo_layout emul show_clock demo_entry (demo_forks 1)"
  proof (rule k_fork [OF demo_runs(2) _ demo_entry_ok(5,6)])
    show "idle_task demo_entry \<noteq> Some 8" using kinvD(2) [OF demo_entry_ok(1)] by simp
    show "sint (PID_MAX demo_entry) < 2147483647" using demo_entry_ok(3) by simp
  qed (use demo_fork_step in simp_all)
  ultimately show ?thesis by (rule converse_rtranclp_into_rtranclp [OF _ r_into_rtranclp])
qed

lemma demo_start_sels: "PID_MAX demo_start = 1" "\<exists>g. s = s\<lparr>idt := g\<rparr>"
proof -
  show "PID_MAX demo_start = 1" by (simp add: demo_start_def)
  have "s = s\<lparr>idt := idt s\<rparr>" by simp
  then show "\<exists>g. s = s\<lparr>idt := g\<rparr>" by blast
qed

section \<open>Switches\<close>

lemma demo_fork1:
  "kinv demo_layout (demo_forks 1) 8 9 [6, 5, 4, 3, 2, 1, 0] [7] []" "pids_ok (demo_forks 1) 9 [6, 5, 4, 3, 2, 1, 0]"
  "stack_room demo_layout (demo_forks 1) 8" "current demo_layout (demo_forks 1) = Some 8" "PID_MAX (demo_forks 1) = 2"
  using demo_fork_states demo_forks_room [of 1] by simp_all

text \<open>The last tick of the parent's quantum.\<close>

definition demo_last :: kernel where "demo_last = (demo_forks 1)\<lparr>CPU_QUANTUM := 1\<rparr>"

lemma demo_last_ok:
  "kinv demo_layout demo_last 8 9 [6, 5, 4, 3, 2, 1, 0] [7] []" "pids_ok demo_last 9 [6, 5, 4, 3, 2, 1, 0]"
  "stack_room demo_layout demo_last 8" "CPU_QUANTUM demo_last = 1" "runs demo_layout demo_last 8"
  using demo_fork1 kinvD(10) [OF demo_fork1(1)]
  by (simp_all add: demo_last_def kinv_scr pids_ok_def stack_room_def runs_def)

definition demo_turned :: kernel where
  "demo_turned = snd (the (clock_routine demo_layout (rr_policy demo_layout) Some Some demo_last))"

lemma demo_turn: "turn demo_layout Some Some demo_last demo_turned"
proof -
  have "sint (CPU_QUANTUM demo_last - 1) \<le> 0" by (simp add: demo_last_ok(4))
  then have "needs_sched (rr_policy demo_layout) (update_sched_data (rr_policy demo_layout) demo_last) = 1"
    by (simp add: rr_policy_def needs_sched_rr_def update_sched_data_rr_def)
  then obtain r s' where "clock_routine demo_layout (rr_policy demo_layout) Some Some demo_last = Some (Switched r, s')"
    using rr.clock_ok [OF demo_layout_ok demo_last_ok(1,3) pids_ok_idle [OF demo_last_ok(2,1)] screen_only_Some screen_only_Some]
    by auto
  then have "clock_routine demo_layout (rr_policy demo_layout) Some Some demo_last = Some (Switched r, demo_turned)"
    by (simp add: demo_turned_def)
  moreover have "demo_last = demo_last\<lparr>cpu := cpu demo_last,
      task := (task demo_last)(8 := (task demo_last 8)\<lparr>stack := stack (task demo_last 8)\<rparr>), mem := mem demo_last\<rparr>" by simp
  then have "user_phase demo_layout 8 demo_last demo_last"
    using demo_last_ok(3) unfolding user_phase_def by (intro conjI exI) (assumption, simp_all)
  ultimately show ?thesis using demo_last_ok(5) unfolding turn_def by blast
qed

text \<open>The parent blocked on the console, the child in a kernel entry.\<close>

definition demo_blocked :: kernel where
  "demo_blocked = enter 7 (snd (the (block_process demo_layout (rr_policy demo_layout) (Ptr CONSOLE_BLOCKED) (demo_forks 1))))"

lemma demo_blocked_ok:
  "kinv demo_layout demo_blocked 7 9 [6, 5, 4, 3, 2, 1, 0] [] [8]" "stack_room demo_layout demo_blocked 7"
proof -
  obtain r s' where "block_process demo_layout (rr_policy demo_layout) (Ptr CONSOLE_BLOCKED) (demo_forks 1) = Some (r, s')"
    "kinv demo_layout s' 7 9 [6, 5, 4, 3, 2, 1, 0] [] [8]"
    using rr.block_ok [OF demo_layout_ok demo_fork1(1) _ demo_fork1(3)] by (auto simp: next_task_def)
  then show "kinv demo_layout demo_blocked 7 9 [6, 5, 4, 3, 2, 1, 0] [] [8]" "stack_room demo_layout demo_blocked 7"
    by (simp_all add: demo_blocked_def enter_kinv)
qed

section \<open>The data of a process through its page table\<close>

lemma data_loc_inj_on:
  assumes k: "kinv L s c i F R B" and ci: "c \<noteq> i"
  shows "inj_on (data_loc (data_frame s c)) {..<81920}"
proof (rule inj_onI)
  fix m n assume mn: "m \<in> {..<81920}" "n \<in> {..<81920}" "data_loc (data_frame s c) m = data_loc (data_frame s c) n"
  have c: "c \<in> live i F" using live_tasks [OF k] ci by auto
  then have asp: "aspace L s c" by (rule mm_invD(3) [OF kinvD(7) [OF k]])
  have "data_frame s c (m div 4096) = data_frame s c (n div 4096) \<and> m mod 4096 = n mod 4096"
    using mn data_frame_bounds [OF asp] by (intro data_loc_inj) auto
  moreover have "m div 4096 < 20" "n div 4096 < 20" using mn by (auto simp: div_less_iff_less_mult)
  ultimately have "m div 4096 = n div 4096" "m mod 4096 = n mod 4096"
    using inj_onD [OF mm_invD(5) [OF kinvD(7) [OF k]], of "(c, m div 4096)" "(c, n div 4096)"] c by auto
  then show "m = n" by (metis div_mult_mod_eq)
qed

lemma demo_buffer: "user_buffer demo_layout demo_entry 0x108000 200 (data_loc (data_frame demo_entry 8))"
  using data_translate [OF demo_layout_ok demo_entry_ok(1)] by (simp add: user_buffer_def)

lemma demo_struct: "user_struct demo_layout demo_entry 0x108000 (data_loc (data_frame demo_entry 8))"
  using data_translate [OF demo_layout_ok demo_entry_ok(1)] data_loc_inj_on [OF demo_entry_ok(1)]
  by (auto simp: user_struct_def intro: inj_on_subset)

lemma demo_pids:
  "PID (task_of demo_entry 8) = 1" "PID (task_of demo_entry 9) = 0" "t < 8 \<Longrightarrow> PID (task_of demo_entry t) = - 1"
proof -
  note p = demo_entry_ok(2) [unfolded pids_ok_def]
  have "8 \<in> live 9 free8" by (simp add: live_def)
  then have "0 < sint (PID (task_of demo_entry 8))" "sint (PID (task_of demo_entry 8)) \<le> 1"
    using p demo_entry_ok(3) by auto
  then have "sint (PID (task_of demo_entry 8)) = sint (1 :: cint)" by simp
  then show "PID (task_of demo_entry 8) = 1" by (rule signed_word_eqI)
  show "PID (task_of demo_entry 9) = 0" using p by blast
  assume "t < 8"
  then have "t \<in> set free8" by auto
  then show "PID (task_of demo_entry t) = - 1" using p by blast
qed

lemma demo_pid_unique: "t < 10 \<Longrightarrow> PID (task_of demo_entry t) = 1 \<Longrightarrow> t = 8"
proof -
  assume "t < 10" "PID (task_of demo_entry t) = 1"
  moreover from this have "t < 8 \<or> t = 8 \<or> t = 9" by arith
  ultimately show "t = 8" using demo_pids by auto
qed

end
