(* ===== verification/Machine_Demo.thy ===== *)
theory Machine_Demo
  imports Kernel_Demo
begin

text \<open>
  The concrete machine with its processor: states in user mode on which the properties of
  entries, interrupts and context switches are applied.
\<close>

definition demo_machine :: "kernel \<Rightarrow> dword \<Rightarrow> machine" where
  "demo_machine s eax = \<lparr>kern = s, m_eax = eax, m_ecx = 5, m_edx = 6, m_eip = 0x100020, m_eflags = 0x202,
     m_cs = USER_CS, m_ss = USER_DS, m_ds = USER_DS, m_es = USER_DS, m_fs = 0, m_gs = 0, m_ldt = 0,
     port_21 = 0xfc, port_20 = []\<rparr>"

lemma demo_machine_sels [simp]:
  "kern (demo_machine s e) = s" "m_eax (demo_machine s e) = e" "user_context (context_of (demo_machine s e))"
  by (simp_all add: demo_machine_def user_context_def context_of_def outer_seg_def)

lemma demo_in_user:
  "in_user demo_layout 8 (demo_machine demo_boot e)" "in_user demo_layout 8 (demo_machine demo_last e)"
  "in_user demo_layout 8 (demo_machine (demo_boot\<lparr>CPU_QUANTUM := 10\<rparr>) e)"
proof -
  have u: "in_user demo_layout 8 (demo_machine s e)" if "kinv demo_layout s 8 9 F R B" "pids_ok s 9 F" for s F R B
    using goodI [OF that] kinvD(2,10) [OF that(1)] by (simp add: in_user_def runs_def)
  show "in_user demo_layout 8 (demo_machine demo_boot e)" by (rule u [OF demo_boot_ok(2,3)])
  show "in_user demo_layout 8 (demo_machine demo_last e)" by (rule u [OF demo_last_ok(1,2)])
  show "in_user demo_layout 8 (demo_machine (demo_boot\<lparr>CPU_QUANTUM := 10\<rparr>) e)"
    using demo_boot_ok(2,3) pids_ok_same [of "demo_boot\<lparr>CPU_QUANTUM := 10\<rparr>" demo_boot 9 free8]
    by (intro u [of _ free8 "[]" "[]"]) (simp_all add: kinv_scr)
qed

lemma demo_gate: "gate_dpl (idt demo_boot 0x80) = 3"
  using demo_boot_ok(5) by (simp add: gates_set_def)

text \<open>When the running process ends, the first ready one is on the processor.\<close>

lemma away_exit:
  assumes L: "layout_ok L" and k: "kinv L s c i F (t # R) B" and ci: "c \<noteq> i"
  shows "\<exists>s'. away L emul show_clock t s s' \<and> runs L s' t"
proof -
  have tc: "t \<noteq> c" using kinvD(5) [OF k] by auto
  have c: "runs L s c" using kinvD(10) [OF k] kinv_bounds(1) [OF k] by (simp add: runs_def)
  let ?s = "s\<lparr>cpu := (cpu s)\<lparr>esp := elem_addr (task_base L) c 512\<rparr>\<rparr>"
  have room: "stack_room L ?s c" unfolding stack_room_def by (rule exI [of _ 512]) simp
  have u: "user_phase L c s ?s" unfolding user_phase_def
    by (intro conjI exI [of _ "cpu ?s"] exI [of _ "stack (task s c)"] exI [of _ "mem s"]) (simp_all add: room)
  have k1: "kinv L ?s c i F (t # R) B" by (rule kinv_user_phase [OF k u])
  obtain r s' where s': "sys_exit L (rr_policy L) ?s = Some (r, s')" "kinv L s' t i (F @ [c]) R B"
    using rr.exit_ok [OF L k1 ci room] by (auto simp: next_task_def)
  have c1: "runs L ?s c" and n: "\<not> runs L s t" "\<not> runs L ?s t" using c runs_kinv [OF k] runs_kinv [OF k1] tc by (auto simp: runs_def)
  have "kstep L emul show_clock s ?s" using c u by (rule k_user)
  moreover have "kstep L emul show_clock ?s s'" using c1 _ room s'(1) by (rule k_exit) (use kinvD(2) [OF k1] ci in simp)
  ultimately have "away L emul show_clock t s s'"
    unfolding away_def using n by (intro converse_rtranclp_into_rtranclp [of _ s ?s] r_into_rtranclp) auto
  moreover have "runs L s' t" using kinvD(10) [OF s'(2)] kinv_bounds(1) [OF s'(2)] by (simp add: runs_def)
  ultimately show ?thesis by blast
qed

text \<open>The first process is interrupted at the end of its quantum, with its child ready.\<close>

lemma demo_preempted:
  "\<exists>r m1. Option.bind (interrupt demo_layout 32 (demo_machine demo_last 7))
       (clock_handler demo_layout (rr_policy demo_layout) Some Some 0x14123 (of_nat (4 * 10))) = Some (Some r, m1)
     \<and> kinv demo_layout (kern m1) 7 9 [6, 5, 4, 3, 2, 1, 0] [8] []"
proof -
  let ?m = "demo_machine demo_last 7" and ?s = "in_handler demo_layout 8 0x14123 10 (demo_machine demo_last 7)"
  have le: "(10 :: nat) \<le> 986" by simp
  obtain m0 where m0: "interrupt demo_layout 32 ?m = Some m0" "SAVE_ALL demo_layout m0 = Some (entered demo_layout 8 32 ?m)"
    "c_call demo_layout 0x14123 (of_nat (4 * 10)) (kern (EOI (entered demo_layout 8 32 ?m))) = Some ?s"
    by (rule interrupt_enters [OF demo_in_user(2) le])
  have k: "kinv demo_layout ?s 8 9 [6, 5, 4, 3, 2, 1, 0] [7] []" "stack_room demo_layout ?s 8"
    using in_handler_kinv [of demo_layout ?m 8 9 "[6, 5, 4, 3, 2, 1, 0]" "[7]" "[]" 10] demo_last_ok(1) by auto
  have p: "pids_ok ?s 9 [6, 5, 4, 3, 2, 1, 0]"
    using demo_last_ok(2) by (subst pids_ok_same [of ?s demo_last]) (simp_all add: in_handler_keeps)
  have "needs_sched (rr_policy demo_layout) (update_sched_data (rr_policy demo_layout) ?s) = 1"
    by (simp add: rr_policy_def needs_sched_rr_def update_sched_data_rr_def in_handler_keeps demo_last_ok(4))
  then obtain r s' where s': "clock_routine demo_layout (rr_policy demo_layout) Some Some ?s = Some (Switched r, s')"
    "kinv demo_layout s' 7 9 [6, 5, 4, 3, 2, 1, 0] [8] []"
    using rr.clock_ok [OF demo_layout_ok k pids_ok_idle [OF p k(1)] screen_only_Some screen_only_Some]
    by (auto simp: after_tick_def)
  then show ?thesis using m0 by (simp add: clock_handler_def clock_handler_end_def)
qed

end
