(* ===== verification/User_Libc.thy ===== *)
theory User_Libc
  imports Kernel_Sys
begin

text \<open>
  The user side: the system call wrappers and string routines of \<^verbatim>\<open>libc.c\<close> and the
  computations of \<^verbatim>\<open>user.c\<close>.  A wrapper is written over \<open>trap\<close>, the instruction
  \<^verbatim>\<open>int $0x80\<close>: it takes the call number and the argument registers the wrapper loads and
  gives the value of \<^verbatim>\<open>eax\<close>; it has no result when the process does not continue.
\<close>

section \<open>Wrappers\<close>

type_synonym 'k trap = "cint \<Rightarrow> dword list \<Rightarrow> 'k \<Rightarrow> (cint \<times> 'k) option"

record 'k user =
  errno :: cint
  system :: 'k

definition int80 :: "'k trap \<Rightarrow> cint \<Rightarrow> dword list \<Rightarrow> 'k user \<Rightarrow> (cint \<times> 'k user) option" where
  "int80 trap eax args u = do { (e, k) \<leftarrow> trap eax args (system u); Some (e, u\<lparr>system := k\<rparr>) }"

definition abs_int :: "cint \<Rightarrow> cint" where
  "abs_int a = (if sint a < 0 then - a else a)"

definition write_call :: "'k trap \<Rightarrow> cint \<Rightarrow> dword \<Rightarrow> cint \<Rightarrow> 'k user \<Rightarrow> (cint \<times> 'k user) option" where
  "write_call trap fd buffer sz u =
     do { (e, u) \<leftarrow> int80 trap 4 [fd, buffer, sz] u;
          if sint e < 0 then Some (- 1, u\<lparr>errno := abs_int e\<rparr>) else Some (e, u) }"

definition gettime_call :: "'k trap \<Rightarrow> 'k user \<Rightarrow> (cint \<times> 'k user) option" where
  "gettime_call trap u =
     do { (e, u) \<leftarrow> int80 trap 10 [] u;
          if sint e < 0 then Some (- 1, u\<lparr>errno := abs_int e\<rparr>) else Some (0, u) }"

definition getpid_call :: "'k trap \<Rightarrow> 'k user \<Rightarrow> (cint \<times> 'k user) option" where
  "getpid_call trap u = int80 trap 20 [] u"

definition fork_call :: "'k trap \<Rightarrow> 'k user \<Rightarrow> (cint \<times> 'k user) option" where
  "fork_call trap u =
     do { (pid_child, u) \<leftarrow> int80 trap 2 [] u;
          let u = (if sint pid_child < 0 then u\<lparr>errno := EAGAIN\<rparr> else u);
          Some (pid_child, u) }"

definition exit_call :: "'k trap \<Rightarrow> 'k user \<Rightarrow> 'k user option" where
  "exit_call trap u = do { (_, u) \<leftarrow> int80 trap 1 [] u; Some u }"

definition get_stats_call :: "'k trap \<Rightarrow> cint \<Rightarrow> dword \<Rightarrow> 'k user \<Rightarrow> (cint \<times> 'k user) option" where
  "get_stats_call trap pid st u =
     do { (e, u) \<leftarrow> int80 trap 35 [pid, st] u;
          if sint e < 0 then Some (- 1, u\<lparr>errno := abs_int e\<rparr>) else Some (0, u) }"

text \<open>\<^verbatim>\<open>perror\<close>: the literal it writes and the length it passes.\<close>

definition perror_write :: "cint \<Rightarrow> (string \<times> nat) option" where
  "perror_write e =
     (if e = EINVAL then Some (''size invalid'' @ [CHR 0x0A], 13)
      else if e = EBADF then Some (''error fd'' @ [CHR 0x0A], 6)
      else if e = EACCES then Some (''permision denied'' @ [CHR 0x0A], 17)
      else if e = EFAULT then Some (''buffer apunta a NULL'' @ [CHR 0x0A], 17)
      else if e = 4 then Some (''error al gettime()'' @ [CHR 0x0A], 19)
      else if e = ENOSYS then Some (''not implemented'' @ [CHR 0x0A], 16)
      else None)"

section \<open>Strings\<close>

text \<open>A buffer is a function from indices; \<^verbatim>\<open>strlen\<close> of an unterminated one does not end.\<close>

partial_function (option) strlen_from :: "(nat \<Rightarrow> byte) \<Rightarrow> nat \<Rightarrow> nat option" where
  "strlen_from a i = (if a i \<noteq> 0 then strlen_from a (i + 1) else Some i)"

definition strlen :: "(nat \<Rightarrow> byte) \<Rightarrow> nat option" where
  "strlen a = strlen_from a 0"

function itoa_digits :: "int \<Rightarrow> nat \<Rightarrow> (nat \<Rightarrow> byte) \<Rightarrow> nat \<times> (nat \<Rightarrow> byte)" where
  "itoa_digits a i b =
     (if 0 < a then itoa_digits (a div 10) (i + 1) (b(i := of_int (a mod 10) + 48)) else (i, b))"
  by pat_completeness auto
termination by (relation "measure (\<lambda>(a, i, b). nat a)") auto

declare itoa_digits.simps [simp del]

definition itoa_swap :: "nat \<Rightarrow> nat \<Rightarrow> (nat \<Rightarrow> byte) \<Rightarrow> nat \<Rightarrow> byte" where
  "itoa_swap i i1 b = (let c = b i1; b = b(i1 := b (i - i1 - 1)) in b(i - i1 - 1 := c))"

definition itoa :: "cint \<Rightarrow> (nat \<Rightarrow> byte) \<Rightarrow> nat \<Rightarrow> byte" where
  "itoa a b =
     (if a = 0 then b(0 := 48, 1 := 0)
      else let (i, b) = itoa_digits (sint a) 0 b;
               b = fold (itoa_swap i) [0..<i div 2] b
           in b(i := 0))"

section \<open>Computations\<close>

text \<open>\<^verbatim>\<open>fib\<close> on a negative argument does not end.\<close>

partial_function (option) fib :: "cint \<Rightarrow> cint option" where
  "fib n = (if n = 0 then Some 0 else if n = 1 then Some 1
     else Option.bind (fib (n - 1)) (\<lambda>x. Option.bind (fib (n - 2)) (\<lambda>y. Some (x + y))))"

definition foo :: "cint \<Rightarrow> cint" where
  "foo n = fold (\<lambda>i a. a + 1 - 4 * of_nat i) [0..<nat (sint n)] 23"

section \<open>Lemmas\<close>

lemma strlen_from_eq: "a (i + n) = 0 \<Longrightarrow> (\<And>k. k < n \<Longrightarrow> a (i + k) \<noteq> 0) \<Longrightarrow> strlen_from a i = Some (i + n)"
proof (induction n arbitrary: i)
  case 0
  then show ?case by (subst strlen_from.simps) simp
next
  case (Suc n)
  have "strlen_from a (i + 1) = Some (i + 1 + n)"
    using Suc.prems(1) Suc.prems(2) [of "Suc _"] by (intro Suc.IH) simp_all
  moreover have "a i \<noteq> 0" using Suc.prems(2) [of 0] by simp
  ultimately show ?case by (subst strlen_from.simps) simp
qed

lemma strlen_eq: "a n = 0 \<Longrightarrow> (\<And>k. k < n \<Longrightarrow> a k \<noteq> 0) \<Longrightarrow> strlen a = Some n"
  using strlen_from_eq [of a 0 n] by (simp add: strlen_def)

text \<open>Decimal digits, the least significant first.\<close>

function digits :: "int \<Rightarrow> int list" where
  "digits a = (if 0 < a then a mod 10 # digits (a div 10) else [])"
  by pat_completeness auto
termination by (relation "measure nat") auto

declare digits.simps [simp del]

lemma itoa_digits_eq:
  "itoa_digits a i b = (i + length (digits a),
     \<lambda>k. if i \<le> k \<and> k < i + length (digits a) then of_int (digits a ! (k - i)) + 48 else b k)"
proof (induction a i b rule: itoa_digits.induct)
  case (1 a i b)
  show ?case
  proof (cases "0 < a")
    case True
    have d: "digits a = a mod 10 # digits (a div 10)" using True by (subst digits.simps) simp
    let ?l = "length (digits (a div 10))"
    have "(if i + 1 \<le> k \<and> k < i + 1 + ?l then of_int (digits (a div 10) ! (k - (i + 1))) + 48
           else (b(i := of_int (a mod 10) + 48)) k)
        = (if i \<le> k \<and> k < i + length (digits a) then of_int (digits a ! (k - i)) + 48 else b k)" for k
      by (cases "k = i") (auto simp: d nth_Cons' le_eq_less_or_eq)
    then show ?thesis
      unfolding itoa_digits.simps [of a i b] 1 [OF True] using True by (simp only: if_True) (simp add: d)
  next
    case False
    then show ?thesis by (subst itoa_digits.simps, subst (1 2) digits.simps) (auto simp: fun_eq_iff)
  qed
qed

lemma itoa_swaps:
  assumes "j \<le> n div 2"
  shows "fold (itoa_swap n) [0..<j] b = (\<lambda>k. if k < j \<or> n - j \<le> k \<and> k < n then b (n - 1 - k) else b k)"
  using assms
proof (induction j)
  case (Suc j)
  then show ?case by (auto simp: itoa_swap_def fun_eq_iff Let_def)
qed (auto simp: fun_eq_iff)

lemma itoa_reverse:
  "fold (itoa_swap n) [0..<n div 2] b = (\<lambda>k. if k < n then b (n - 1 - k) else b k)"
proof -
  have "k = n - 1 - k" if "\<not> k < n div 2" "\<not> n - n div 2 \<le> k" for k using that by linarith
  then show ?thesis unfolding itoa_swaps [OF order_refl] by (auto simp: fun_eq_iff)
qed

lemma digits_range: "d \<in> set (digits a) \<Longrightarrow> 0 \<le> d \<and> d < 10"
proof (induction a rule: digits.induct)
  case (1 a)
  then show ?case by (cases "0 < a") (auto simp: digits.simps [of a])
qed

lemma digits_value: "0 \<le> a \<Longrightarrow> foldr (\<lambda>d v. 10 * v + d) (digits a) 0 = a"
proof (induction a rule: digits.induct)
  case (1 a)
  show ?case
  proof (cases "0 < a")
    case True
    then have "foldr (\<lambda>d v. 10 * v + d) (digits (a div 10)) 0 = a div 10" using 1(1) [OF True] by simp
    then show ?thesis using True by (subst digits.simps) simp
  next
    case False
    then show ?thesis using 1(2) by (subst digits.simps) simp
  qed
qed

text \<open>The value of a string of decimal characters.\<close>

definition decimal :: "byte list \<Rightarrow> int" where
  "decimal cs = foldl (\<lambda>v c. 10 * v + (int (unat c) - 48)) 0 cs"

lemma digit_char: "0 \<le> d \<Longrightarrow> d < 10 \<Longrightarrow> int (unat (of_int d + 48 :: byte)) = d + 48"
proof -
  assume "0 \<le> d" "d < 10"
  then have "(of_int d + 48 :: byte) = of_nat (nat d + 48)" by simp
  moreover have "unat (of_nat (nat d + 48) :: byte) = nat d + 48"
    using \<open>d < 10\<close> by (intro unat_of_nat8) simp
  ultimately show ?thesis using \<open>0 \<le> d\<close> by simp
qed

lemma decimal_chars:
  "(\<And>d. d \<in> set ds \<Longrightarrow> 0 \<le> d \<and> d < 10) \<Longrightarrow>
     decimal (map (\<lambda>d. of_int d + 48) (rev ds)) = foldr (\<lambda>d v. 10 * v + d) ds 0"
proof (induction ds)
  case (Cons d ds)
  then show ?case using digit_char [of d] by (simp add: decimal_def)
qed (simp add: decimal_def)

lemma itoa_chars:
  assumes "0 < sint a"
  shows "map (itoa a b) [0..<length (digits (sint a))] = map (\<lambda>d. of_int d + 48) (rev (digits (sint a)))"
    and "itoa a b (length (digits (sint a))) = 0"
proof -
  let ?ds = "digits (sint a)"
  let ?n = "length ?ds"
  have "a \<noteq> 0" using assms by auto
  then have e: "itoa a b = (\<lambda>k. if k < ?n then of_int (?ds ! (?n - 1 - k)) + 48 else b k)(?n := 0)"
    by (auto simp: itoa_def itoa_digits_eq itoa_reverse fun_eq_iff)
  show "map (itoa a b) [0..<?n] = map (\<lambda>d. of_int d + 48) (rev ?ds)"
    by (rule nth_equalityI) (auto simp: e rev_nth)
  show "itoa a b ?n = 0" by (simp add: e)
qed

lemma itoa_digit:
  assumes "0 < sint a" "k < length (digits (sint a))"
  shows "48 \<le> unat (itoa a b k) \<and> unat (itoa a b k) \<le> 57"
proof -
  have "itoa a b k \<in> set (map (\<lambda>d. of_int d + 48) (rev (digits (sint a))))"
    unfolding itoa_chars(1) [OF assms(1), of b, symmetric] using assms(2) by auto
  then obtain d where d: "d \<in> set (digits (sint a))" "itoa a b k = of_int d + 48" by auto
  then have "int (unat (itoa a b k)) = d + 48" "0 \<le> d" "d < 10" using digits_range [OF d(1)] digit_char [of d] by auto
  then show ?thesis by linarith
qed

lemma itoa_strlen:
  assumes "0 < sint a"
  shows "strlen (itoa a b) = Some (length (digits (sint a)))"
proof (rule strlen_eq)
  show "itoa a b (length (digits (sint a))) = 0" by (rule itoa_chars(2) [OF assms])
next
  fix k assume "k < length (digits (sint a))"
  then show "itoa a b k \<noteq> 0" using itoa_digit [OF assms, of k b] by auto
qed

text \<open>\<^verbatim>\<open>itoa\<close> of a number that is not negative: a terminated string of digits with that value.\<close>

lemma itoa_ok:
  assumes a: "0 \<le> sint a"
  shows "\<exists>n. strlen (itoa a b) = Some n \<and> n \<noteq> 0 \<and> decimal (map (itoa a b) [0..<n]) = sint a
    \<and> (\<forall>k<n. 48 \<le> unat (itoa a b k) \<and> unat (itoa a b k) \<le> 57)"
proof (cases "a = 0")
  case True
  then have "strlen (itoa a b) = Some 1" by (intro strlen_eq) (simp_all add: itoa_def)
  then show ?thesis using True by (intro exI [of _ 1]) (simp add: itoa_def decimal_def)
next
  case False
  have pos: "0 < sint a"
  proof -
    have "sint a \<noteq> sint (0 :: cint)" using False signed_word_eqI [of a 0] by blast
    then show ?thesis using a by simp
  qed
  let ?ds = "digits (sint a)"
  note c = itoa_chars [OF pos, of b]
  note range = itoa_digit [OF pos, of _ b]
  have "strlen (itoa a b) = Some (length ?ds)" by (rule itoa_strlen [OF pos])
  moreover have "decimal (map (itoa a b) [0..<length ?ds]) = sint a"
    using decimal_chars [of ?ds] digits_range digits_value [of "sint a"] a by (simp add: c(1))
  moreover have "?ds \<noteq> []" using pos by (subst digits.simps) simp
  ultimately show ?thesis using range by (intro exI [of _ "length ?ds"]) simp
qed

text \<open>A negative number gives the empty string.\<close>

lemma itoa_negative: "sint a < 0 \<Longrightarrow> strlen (itoa a b) = Some 0"
proof -
  assume "sint a < 0"
  then have "a \<noteq> 0" "digits (sint a) = []" by (auto simp: digits.simps)
  then show ?thesis by (intro strlen_eq) (simp_all add: itoa_def itoa_digits_eq)
qed

fun fib_nat :: "nat \<Rightarrow> nat" where
  "fib_nat 0 = 0"
| "fib_nat (Suc 0) = 1"
| "fib_nat (Suc (Suc n)) = fib_nat (Suc n) + fib_nat n"

lemma fib_ok: "n < 2147483648 \<Longrightarrow> fib (of_nat n) = Some (of_nat (fib_nat n))"
proof (induction n rule: fib_nat.induct)
  case 1
  then show ?case by (subst fib.simps) simp
next
  case 2
  then show ?case by (subst fib.simps) simp
next
  case (3 n)
  have u: "unat (of_nat (Suc (Suc n)) :: cint) = Suc (Suc n)" using 3 by (intro unat_of_nat32) simp
  have "(of_nat (Suc (Suc n)) :: cint) \<noteq> 0" "(of_nat (Suc (Suc n)) :: cint) \<noteq> 1"
    using arg_cong [of "of_nat (Suc (Suc n)) :: cint" _ unat] u by (metis unsigned_0 unsigned_1 nat.distinct(1) nat.inject One_nat_def)+
  moreover have "(of_nat (Suc (Suc n)) :: cint) - 1 = of_nat (Suc n)" "(of_nat (Suc (Suc n)) :: cint) - 2 = of_nat n" by simp_all
  moreover have "fib (of_nat (Suc n)) = Some (of_nat (fib_nat (Suc n)))" "fib (of_nat n) = Some (of_nat (fib_nat n))"
    using 3 by (simp_all del: of_nat_Suc)
  ultimately show ?case
    by (subst fib.simps) (simp only: if_False Option.bind_lunit fib_nat.simps of_nat_add)
qed

lemma foo_sum: "fold (\<lambda>i a. a + 1 - 4 * of_nat i) [0..<k] c = (c :: cint) + of_nat k - 2 * of_nat k * (of_nat k - 1)"
  by (induction k) (simp_all add: algebra_simps)

end
