(* ===== verification/User_Kernel.thy ===== *)
theory User_Kernel
  imports Kernel_Interrupt Kernel_Calls User_Libc
begin

text \<open>
  The user library on top of the kernel: \<^verbatim>\<open>int $0x80\<close> as the entry of \<^verbatim>\<open>entry.S\<close> with the
  dispatch through \<^verbatim>\<open>sys_call_table\<close>, and what the wrappers of \<^verbatim>\<open>libc.c\<close> give when this is
  the trap they execute.
\<close>

text \<open>
  The trap as the calling process sees it.  \<open>args\<close> are the registers the wrapper loads
  (\<^verbatim>\<open>ebx\<close>, \<^verbatim>\<open>ecx\<close>, \<^verbatim>\<open>edx\<close>); no handler reads an argument its wrapper does not load, and the
  value given to it here does not matter.  A call that ends in another task has no result yet.
\<close>

definition reg_arg :: "dword list \<Rightarrow> nat \<Rightarrow> dword" where
  "reg_arg args k = (if k < length args then args ! k else 0)"

definition kernel_trap :: "layout \<Rightarrow> policy
    \<Rightarrow> (dword \<Rightarrow> dword \<Rightarrow> dword \<Rightarrow> kernel \<Rightarrow> (outcome \<times> kernel) option)
    \<Rightarrow> (dword \<Rightarrow> dword \<Rightarrow> dword \<Rightarrow> kernel \<Rightarrow> (outcome \<times> kernel) option) \<Rightarrow> kernel trap" where
  "kernel_trap L P lib_read lib_policy eax args s =
     (case system_call_handler L P lib_read lib_policy eax (reg_arg args 0) (reg_arg args 1) (reg_arg args 2) s of
        Some (Return v, s') \<Rightarrow> Some (v, s')
      | _ \<Rightarrow> None)"

lemma kernel_trap_eqs:
  "kernel_trap L P rd pol 4 [a, b, c] s = sys_write L a b c s"
  "kernel_trap L P rd pol 2 [] s = sys_fork L s"
  "kernel_trap L P rd pol 10 [] s = sys_gettime L s"
  "kernel_trap L P rd pol 20 [] s = sys_getpid L s"
  "kernel_trap L P rd pol 35 [a, b] s = sys_get_stats L a b s"
  by (simp_all add: kernel_trap_def system_call_handler_def sys_call_table_def returning_def reg_arg_def
      split: option.split)

lemma kernel_trap_bad:
  "sint n < 0 \<or> 40 < sint n \<Longrightarrow> kernel_trap L P rd pol n args s = Some (- 38, s)"
  by (auto simp: kernel_trap_def system_call_handler_def)

text \<open>\<^verbatim>\<open>write\<close>: the bytes reach the screen, or \<^verbatim>\<open>errno\<close> says why not.\<close>

lemma write_call_ok:
  assumes "current L (system u) = Some c" "user_buffer L (system u) buffer N loc" "buffer \<noteq> 0"
  shows "\<exists>u'. write_call (kernel_trap L P rd pol) 1 buffer (of_nat N) u = Some (of_nat N, u') \<and> errno u' = errno u
    \<and> port_e9 (scr (system u')) = port_e9 (scr (system u)) @ map (\<lambda>n. mem (system u) (loc n)) [0..<N]"
proof -
  have N: "sint (of_nat N :: cint) = int N" using assms(2) by (intro sint_of_nat_small) (simp add: user_buffer_def)
  from sys_write_ok [OF assms] obtain s' where s': "sys_write L 1 buffer (of_nat N) (system u) = Some (of_nat N, s')"
    "scr s' = fold (\<lambda>n. printc (mem (system u) (loc n))) [0..<N] (scr (system u))" by blast
  then have "write_call (kernel_trap L P rd pol) 1 buffer (of_nat N) u = Some (of_nat N, u\<lparr>system := s'\<rparr>)"
    using N by (simp add: write_call_def int80_def kernel_trap_eqs)
  then show ?thesis using s'(2) by (simp add: fold_printc_trace)
qed

lemma write_call_error:
  assumes "current L (system u) = Some c"
  shows "fd \<noteq> 1 \<Longrightarrow> \<exists>u'. write_call (kernel_trap L P rd pol) fd buffer sz u = Some (- 1, u') \<and> errno u' = EBADF
      \<and> scr (system u') = scr (system u)"
    and "\<exists>u'. write_call (kernel_trap L P rd pol) 1 0 sz u = Some (- 1, u') \<and> errno u' = EFAULT
      \<and> scr (system u') = scr (system u)"
    and "buffer \<noteq> 0 \<Longrightarrow> sint sz < 0 \<Longrightarrow> \<exists>u'. write_call (kernel_trap L P rd pol) 1 buffer sz u = Some (- 1, u')
      \<and> errno u' = EINVAL \<and> scr (system u') = scr (system u)"
  using sys_write_error(1) [OF assms, of fd buffer sz] sys_write_error(2) [OF assms, of 0 sz]
    sys_write_error(3) [OF assms, of buffer sz]
  by (auto simp: write_call_def int80_def kernel_trap_eqs abs_int_def)

text \<open>\<^verbatim>\<open>gettime\<close> of the library does not give the time the kernel returns.\<close>

lemma gettime_call_eq:
  assumes "current L (system u) = Some c"
  shows "\<exists>s'. sys_gettime L (system u) = Some (zeos_ticks (system u), s')
    \<and> gettime_call (kernel_trap L P rd pol) u
        = Some (if sint (zeos_ticks (system u)) < 0 then (- 1, u\<lparr>system := s', errno := abs_int (zeos_ticks (system u))\<rparr>)
                else (0, u\<lparr>system := s'\<rparr>))"
proof -
  from brief_call [OF assms] obtain s' where s': "sys_gettime L (system u) = Some (zeos_ticks (system u), s')" by blast
  then show ?thesis by (auto simp: gettime_call_def int80_def kernel_trap_eqs)
qed

text \<open>Every call number without a handler of its own, in range or not, gives \<open>-ENOSYS\<close> and changes nothing.\<close>

lemma unknown_call_refused:
  assumes "eax \<notin> {1, 2, 3, 4, 10, 17, 20, 35}"
  shows "system_call_handler L P rd pol eax a1 a2 a3 s = Some (Return (- 38), s)"
proof (cases "sint eax < 0 \<or> 40 < sint eax")
  case True
  then show ?thesis by (auto simp: system_call_handler_def)
next
  case False
  obtain m where m: "sint eax = int m" using False by (metis not_less zero_le_imp_eq_int)
  then have "sint eax = sint (of_nat m :: cint)" using False by (simp add: sint_of_nat_small)
  then have e: "eax = of_nat m" by (rule signed_word_eqI)
  then have u: "unat eax = m" "m < 41" using m False unat_of_nat32 [of m] by simp_all
  have ne: "m \<notin> {1, 2, 3, 4, 10, 17, 20, 35}" using assms unfolding e by auto
  have "\<forall>n<41. n \<notin> {1, 2, 3, 4, 10, 17, 20, 35} \<longrightarrow> sys_call_table ! n = SYS_NI"
    by (simp add: sys_call_table_def All_less_Suc numeral_eq_Suc)
  then have "sys_call_table ! unat eax = SYS_NI" using u ne by simp
  then show ?thesis using False by (simp add: system_call_handler_def sys_ni_syscall_def)
qed

end
