(* ===== verification/User_Program.thy ===== *)
theory User_Program
  imports User_Libc "HOL-Library.Multiset"
begin

text \<open>
  The user program \<^verbatim>\<open>user.c\<close>: what its printing functions write to the screen, and its
  workloads as programs of processes, with the step relation of the processes a program
  creates.
\<close>

section \<open>Printing\<close>

text \<open>
  The functions give the bytes they pass to \<^verbatim>\<open>write(1, \<dots>)\<close>.  \<open>buff\<close> is what the array of
  \<^verbatim>\<open>print_int\<close> holds before it is filled; a literal is cut at the length that is passed.
\<close>

definition literal :: "string \<Rightarrow> nat \<Rightarrow> byte list" where
  "literal s n = take n (map of_char s @ [0])"

definition print_int :: "(nat \<Rightarrow> byte) \<Rightarrow> cint \<Rightarrow> byte list option" where
  "print_int buff a =
     do { n \<leftarrow> strlen (itoa a buff); Some (map (itoa a buff) [0..<n] @ [10]) }"

definition print :: "(nat \<Rightarrow> byte) \<Rightarrow> stats \<Rightarrow> byte list option" where
  "print buff st =
     do { let t = 0;
          let n = user_ticks st;
          a \<leftarrow> print_int buff n;
          let t = t + n;
          let n = blocked_ticks st;
          let t = t + n;
          b \<leftarrow> print_int buff n;
          let n = ready_ticks st;
          let t = t + n;
          c \<leftarrow> print_int buff n;
          let n = system_ticks st;
          let t = t + n;
          d \<leftarrow> print_int buff n;
          e \<leftarrow> print_int buff t;
          Some (literal ''user:\<newline>'' 6 @ a @ literal ''blocked:\<newline>'' 9 @ b @ literal ''ready:\<newline>'' 7 @ c
            @ literal ''system:\<newline>'' 8 @ d @ literal ''total:\<newline>'' 7 @ e) }"

text \<open>
  \<open>get\<close> is \<^verbatim>\<open>get_stats\<close>: \<^const>\<open>None\<close> when it fails and leaves the structure as it is.
  \<^verbatim>\<open>print_stats\<close> does not look at the result.
\<close>

fun print_stats_loop :: "(nat \<Rightarrow> byte) \<Rightarrow> (cint \<Rightarrow> stats option) \<Rightarrow> nat list \<Rightarrow> stats \<Rightarrow> byte list option" where
  "print_stats_loop buff get [] st = Some []"
| "print_stats_loop buff get (i # is) st =
     do { let st = (case get (of_nat i) of None \<Rightarrow> st | Some x \<Rightarrow> x);
          a \<leftarrow> print buff st;
          b \<leftarrow> print_stats_loop buff get is st;
          Some (literal ''##############\<newline>'' 15 @ a @ b) }"

definition print_stats :: "(nat \<Rightarrow> byte) \<Rightarrow> (cint \<Rightarrow> stats option) \<Rightarrow> stats \<Rightarrow> byte list option" where
  "print_stats buff get st = print_stats_loop buff get [0..<4] st"

definition print_act :: "(nat \<Rightarrow> byte) \<Rightarrow> cint \<Rightarrow> (cint \<Rightarrow> stats option) \<Rightarrow> stats \<Rightarrow> byte list option" where
  "print_act buff pid get st2 =
     do { a \<leftarrow> print_int buff pid;
          let a = literal ''\<newline>PID: '' 5 @ a;
          case get pid of
            None \<Rightarrow> Some (a @ literal ''error\<newline>'' 6)
          | Some st \<Rightarrow>
              do { b \<leftarrow> print buff st;
                   if pid = 1
                   then do { let st2 = (case get 0 of None \<Rightarrow> st2 | Some x \<Rightarrow> x);
                             c \<leftarrow> print buff st2;
                             Some (a @ b @ literal ''IDLE:\<newline>'' 6 @ c) }
                   else Some (a @ b) } }"

section \<open>The workloads\<close>

text \<open>
  What a process still has to do.  \<open>Fork c p\<close> continues with \<open>c\<close> in the child and \<open>p\<close> in the
  parent; \<open>Read n cap p\<close> reads \<open>n\<close> bytes into an array of \<open>cap\<close> bytes; \<open>Returned\<close> is the end of
  the function, \<open>Spin\<close> is \<^verbatim>\<open>while(1);\<close>.
\<close>

datatype prog = Returned | Exited_P | Spin | Fork prog prog | Read nat nat prog | Foo cint prog
  | Print_act prog | Set_policy cint prog

definition workload1 :: prog where
  "workload1 =
     Fork (Fork (Foo 20000000 (Print_act Exited_P))
                (Foo 20000000 (Print_act Exited_P)))
          (Read 2 64 (Foo 20000000 (Print_act Returned)))"

definition workload2 :: prog where
  "workload2 =
     Fork (Fork (Read 1500 32 (Foo 300000 (Read 1500 32 (Print_act Exited_P))))
                (Read 1500 32 (Foo 300000 (Read 1500 32 (Print_act Exited_P)))))
          (Read 1 32 (Read 1500 32 (Foo 300000 (Read 1500 32 (Print_act Returned)))))"

definition workload3 :: prog where
  "workload3 =
     Fork (Fork (Read 50 32 (Foo 600000 (Print_act Exited_P)))
                (Foo 1000000 (Read 200 32 (Foo 2000000 (Read 100 32 (Print_act Exited_P))))))
          (Foo 100000000 (Foo 100000000 (Print_act Exited_P)))"

definition exec_workload :: "cint \<Rightarrow> prog" where
  "exec_workload n = (if n = 1 then workload1 else if n = 2 then workload2 else if n = 3 then workload3 else Returned)"

text \<open>The caller continues where a function returns.\<close>

primrec continue :: "prog \<Rightarrow> prog \<Rightarrow> prog" where
  "continue Returned k = k"
| "continue Exited_P k = Exited_P"
| "continue Spin k = Spin"
| "continue (Fork c p) k = Fork (continue c k) (continue p k)"
| "continue (Read n cap p) k = Read n cap (continue p k)"
| "continue (Foo n p) k = Foo n (continue p k)"
| "continue (Print_act p) k = Print_act (continue p k)"
| "continue (Set_policy n p) k = Set_policy n (continue p k)"

definition user_main :: prog where
  "user_main = Set_policy 0 (continue (exec_workload 2) Spin)"

section \<open>Text of numbers\<close>

definition dec_text :: "cint \<Rightarrow> byte list" where
  "dec_text a = (if a = 0 then [48] else map (\<lambda>d. of_int d + 48) (rev (digits (sint a))))"

text \<open>What was in the array before does not matter.\<close>

lemma print_int_text:
  assumes "0 \<le> sint a"
  shows "print_int buff a = Some (dec_text a @ [10])"
proof (cases "a = 0")
  case True
  then have "strlen (itoa a buff) = Some 1" by (intro strlen_eq) (simp_all add: itoa_def)
  then show ?thesis using True by (simp add: print_int_def itoa_def dec_text_def)
next
  case False
  have "sint a \<noteq> sint (0 :: cint)" using False signed_word_eqI [of a 0] by blast
  then have pos: "0 < sint a" using assms by simp
  note c = itoa_chars [OF pos, of buff]
  have "strlen (itoa a buff) = Some (length (digits (sint a)))" by (rule itoa_strlen [OF pos])
  then show ?thesis using False c(1) by (simp add: print_int_def dec_text_def)
qed

lemma dec_text_value: "0 \<le> sint a \<Longrightarrow> decimal (dec_text a) = sint a"
  using decimal_chars [of "digits (sint a)"] digits_range digits_value [of "sint a"]
  by (auto simp: dec_text_def decimal_def)

text \<open>The five numbers of \<^verbatim>\<open>print\<close>, the last of them the sum of the others.\<close>

lemma print_text:
  assumes "0 \<le> sint (user_ticks st)" "0 \<le> sint (blocked_ticks st)" "0 \<le> sint (ready_ticks st)" "0 \<le> sint (system_ticks st)"
    and total: "t = user_ticks st + blocked_ticks st + ready_ticks st + system_ticks st" "0 \<le> sint t"
  shows "print buff st = Some (literal ''user:\<newline>'' 6 @ dec_text (user_ticks st) @ [10]
    @ literal ''blocked:\<newline>'' 9 @ dec_text (blocked_ticks st) @ [10] @ literal ''ready:\<newline>'' 7 @ dec_text (ready_ticks st) @ [10]
    @ literal ''system:\<newline>'' 8 @ dec_text (system_ticks st) @ [10] @ literal ''total:\<newline>'' 7 @ dec_text t @ [10])"
  using assms by (simp add: print_def print_int_text Let_def)

section \<open>Processes of a program\<close>

text \<open>
  The processes that are left, and how many times statistics were printed.  Any of them may
  take the next step; a process that only spins takes none.
\<close>

inductive ustep :: "prog multiset \<times> nat \<Rightarrow> prog multiset \<times> nat \<Rightarrow> bool" where
  u_fork: "ustep (add_mset (Fork c p) M, k) (add_mset c (add_mset p M), k)"
| u_read: "ustep (add_mset (Read n cap p) M, k) (add_mset p M, k)"
| u_foo: "ustep (add_mset (Foo n p) M, k) (add_mset p M, k)"
| u_print: "ustep (add_mset (Print_act p) M, k) (add_mset p M, Suc k)"
| u_policy: "ustep (add_mset (Set_policy n p) M, k) (add_mset p M, k)"
| u_exit: "ustep (add_mset Exited_P M, k) (M, k)"

inductive_cases ustepE: "ustep x y"

text \<open>Steps, printed statistics and spinning processes that a program still stands for.\<close>

primrec work :: "prog \<Rightarrow> nat" where
  "work Returned = 0"
| "work Exited_P = 1"
| "work Spin = 0"
| "work (Fork c p) = 1 + work c + work p"
| "work (Read n cap p) = 1 + work p"
| "work (Foo n p) = 1 + work p"
| "work (Print_act p) = 1 + work p"
| "work (Set_policy n p) = 1 + work p"

primrec prints :: "prog \<Rightarrow> nat" where
  "prints Returned = 0"
| "prints Exited_P = 0"
| "prints Spin = 0"
| "prints (Fork c p) = prints c + prints p"
| "prints (Read n cap p) = prints p"
| "prints (Foo n p) = prints p"
| "prints (Print_act p) = 1 + prints p"
| "prints (Set_policy n p) = prints p"

primrec rest :: "prog \<Rightarrow> prog multiset" where
  "rest Returned = {#Returned#}"
| "rest Exited_P = {#}"
| "rest Spin = {#Spin#}"
| "rest (Fork c p) = rest c + rest p"
| "rest (Read n cap p) = rest p"
| "rest (Foo n p) = rest p"
| "rest (Print_act p) = rest p"
| "rest (Set_policy n p) = rest p"

primrec reads_fit :: "prog \<Rightarrow> bool" where
  "reads_fit Returned = True"
| "reads_fit Exited_P = True"
| "reads_fit Spin = True"
| "reads_fit (Fork c p) = (reads_fit c \<and> reads_fit p)"
| "reads_fit (Read n cap p) = (n \<le> cap \<and> reads_fit p)"
| "reads_fit (Foo n p) = reads_fit p"
| "reads_fit (Print_act p) = reads_fit p"
| "reads_fit (Set_policy n p) = reads_fit p"

definition total_work :: "prog multiset \<Rightarrow> nat" where "total_work M = sum_mset (image_mset work M)"
definition total_prints :: "prog multiset \<Rightarrow> nat" where "total_prints M = sum_mset (image_mset prints M)"
definition total_rest :: "prog multiset \<Rightarrow> prog multiset" where "total_rest M = sum_mset (image_mset rest M)"

lemma ustep_conserves:
  assumes "ustep (M, k) (M', k')"
  shows "Suc (total_work M') = total_work M" "total_prints M' + k' = total_prints M + k" "total_rest M' = total_rest M"
  using assms by (auto elim!: ustepE simp: total_work_def total_prints_def total_rest_def)

lemma usteps_conserve:
  assumes "(ustep ^^ n) (M, k) (M', k')"
  shows "n + total_work M' = total_work M \<and> total_prints M' + k' = total_prints M + k \<and> total_rest M' = total_rest M"
  using assms
proof (induction n arbitrary: M' k')
  case (Suc n)
  then obtain M1 k1 where m: "(ustep ^^ n) (M, k) (M1, k1)" "ustep (M1, k1) (M', k')" by auto
  show ?case using Suc.IH [OF m(1)] ustep_conserves [OF m(2)] by auto
qed auto

text \<open>A set of processes is stuck only when no work is left.\<close>

lemma stuck_no_work:
  assumes "\<nexists>y. ustep (M, k) y" "p \<in># M"
  shows "work p = 0 \<and> prints p = 0 \<and> rest p = {#p#}"
proof -
  obtain N where "M = add_mset p N" using assms(2) by (rule mset_add)
  then show ?thesis using assms(1) by (cases p) (auto intro: ustep.intros)
qed

lemma usteps_end:
  assumes "(ustep ^^ n) (M, k) (M', k')" "\<nexists>y. ustep (M', k') y"
  shows "n = total_work M \<and> k' = total_prints M + k \<and> M' = total_rest M"
proof -
  note p = stuck_no_work [OF assms(2)]
  have "total_work M' = 0" "total_prints M' = 0" using p by (auto simp: total_work_def total_prints_def)
  moreover have "total_rest M' = M'"
  proof -
    have "image_mset rest M' = image_mset (\<lambda>p. {#p#}) M'" using p by (intro image_mset_cong) simp
    then show ?thesis by (simp add: total_rest_def)
  qed
  ultimately show ?thesis using usteps_conserve [OF assms(1)] by auto
qed

text \<open>The reads of the second and the third workload do not fit their arrays.\<close>

lemma workload_reads: "reads_fit workload1" "\<not> reads_fit workload2" "\<not> reads_fit workload3"
  by (simp_all add: workload1_def workload2_def workload3_def)

end
