(* ===== verification/Image_Build.thy ===== *)
theory Image_Build
  imports Zeos_Prelude
begin

text \<open>
  \<^verbatim>\<open>build.c\<close>, the host tool that puts boot sector, kernel and user program into one disk image
  and records their sizes where the kernel's \<^verbatim>\<open>main\<close> reads them.  The host is a set of regular
  files and an output with a capacity; \<^verbatim>\<open>die\<close> ends the program with an error value.  \<^verbatim>\<open>u32\<close> is
  the 32-bit \<^verbatim>\<open>unsigned long\<close> of the i386 host the kernel is compiled on.
\<close>

section \<open>The host\<close>

text \<open>
  Regular files (\<^verbatim>\<open>read\<close> gives as many bytes as are left and does not fail), whether \<^verbatim>\<open>fstat\<close>
  works, whether standard output can be positioned, and how many bytes it can hold.
\<close>

record host =
  files :: "string \<Rightarrow> byte list option"
  stat_ok :: bool
  seekable :: bool
  capacity :: nat

text \<open>The globals \<^verbatim>\<open>fd\<close> (its unread bytes) and \<^verbatim>\<open>buf\<close>, and standard output with its position.\<close>

record build =
  input :: "byte list"
  buf :: "nat \<Rightarrow> byte"
  image :: "byte list"
  out_pos :: nat

datatype build_error = Usage | Unable_to_open string | Unable_to_read_header string | Non_Minix_header string
  | Illegal_data_segment | Illegal_bss_segment | Illegal_symbol_table | Not_512_bytes | No_boot_flag
  | Unable_to_stat string | Unexpected_EOF string | Write_failed | Seek_failed

definition host_open :: "host \<Rightarrow> string \<Rightarrow> build \<Rightarrow> build option" where
  "host_open h name b = map_option (\<lambda>bs. b\<lparr>input := bs\<rparr>) (files h name)"

definition host_read :: "nat \<Rightarrow> build \<Rightarrow> nat \<times> build" where
  "host_read n b =
     (let k = min n (length (input b))
      in (k, b\<lparr>buf := (\<lambda>i. if i < k then input b ! i else buf b i), input := drop k (input b)\<rparr>))"

definition overwrite :: "nat \<Rightarrow> byte list \<Rightarrow> byte list \<Rightarrow> byte list" where
  "overwrite p vs xs = take p (xs @ replicate (p - length xs) 0) @ vs @ drop (p + length vs) xs"

definition host_write :: "host \<Rightarrow> nat \<Rightarrow> build \<Rightarrow> nat \<times> build" where
  "host_write h n b =
     (let k = min n (capacity h - out_pos b)
      in (k, b\<lparr>image := overwrite (out_pos b) (map (buf b) [0..<k]) (image b), out_pos := out_pos b + k\<rparr>))"

definition host_lseek :: "host \<Rightarrow> nat \<Rightarrow> build \<Rightarrow> int \<times> build" where
  "host_lseek h off b = (if seekable h then (int off, b\<lparr>out_pos := off\<rparr>) else (- 1, b))"

text \<open>Continue unless the program has died.\<close>

definition and_then :: "'e + 'a \<Rightarrow> ('a \<Rightarrow> 'e + 'b) \<Rightarrow> 'e + 'b" where
  "and_then x f = (case x of Inl e \<Rightarrow> Inl e | Inr a \<Rightarrow> f a)"

lemma and_then_simps [simp]: "and_then (Inl e) f = Inl e" "and_then (Inr a) f = f a"
  by (simp_all add: and_then_def)

section \<open>build.c\<close>

definition MINIX_HEADER_LEN :: nat where [simp]: "MINIX_HEADER_LEN = 32"

definition minix_hdr :: "byte list" where
  "minix_hdr = [0x01, 0x03, 0x10, 0x04, 0x20, 0x00, 0x00, 0x00]"

text \<open>Whether the word \<^verbatim>\<open>lb[k]\<close> of the buffer is zero.\<close>

definition lb_zero :: "(nat \<Rightarrow> byte) \<Rightarrow> nat \<Rightarrow> bool" where
  "lb_zero bf k \<longleftrightarrow> bf (4 * k) = 0 \<and> bf (4 * k + 1) = 0 \<and> bf (4 * k + 2) = 0 \<and> bf (4 * k + 3) = 0"

definition minix_open :: "host \<Rightarrow> string \<Rightarrow> build \<Rightarrow> build_error + build" where
  "minix_open h name b =
     (case host_open h name b of
        None \<Rightarrow> Inl (Unable_to_open name)
      | Some b \<Rightarrow>
          let (n, b) = host_read MINIX_HEADER_LEN b
          in if n \<noteq> MINIX_HEADER_LEN then Inl (Unable_to_read_header name)
             else if map (buf b) [0..<8] \<noteq> minix_hdr \<or> \<not> lb_zero (buf b) 5 then Inl (Non_Minix_header name)
             else if \<not> lb_zero (buf b) 3 then Inl Illegal_data_segment
             else if \<not> lb_zero (buf b) 4 then Inl Illegal_bss_segment
             else if \<not> lb_zero (buf b) 7 then Inl Illegal_symbol_table
             else Inr b)"

text \<open>The two copy loops, for the system and for the user program.\<close>

function copy_loop :: "host \<Rightarrow> string \<Rightarrow> nat \<Rightarrow> build \<Rightarrow> build_error + build" where
  "copy_loop h name sz b =
     (if 0 < sz
      then let l = (if 1024 < sz then 1024 else sz); (n, b) = host_read l b
           in if n \<noteq> l then Inl (Unexpected_EOF name)
              else let (w, b) = host_write h l b
                   in if w \<noteq> l then Inl Write_failed else copy_loop h name (sz - l) b
      else Inr b)"
  by pat_completeness auto
termination by (relation "measure (\<lambda>(h, name, sz, b). sz)") auto

declare copy_loop.simps [simp del]

definition copy_file :: "host \<Rightarrow> string \<Rightarrow> build \<Rightarrow> build_error + dword \<times> build" where
  "copy_file h name b =
     (case host_open h name b of
        None \<Rightarrow> Inl (Unable_to_open name)
      | Some b \<Rightarrow>
          if \<not> stat_ok h then Inl (Unable_to_stat name)
          else let sz = of_nat (length (input b)) :: dword
               in and_then (copy_loop h name (unat sz) b) (\<lambda>b. Inr (sz, b)))"

text \<open>Position, fill the start of the buffer and write it.\<close>

definition patch :: "host \<Rightarrow> nat \<Rightarrow> byte list \<Rightarrow> build \<Rightarrow> build_error + build" where
  "patch h off vs b =
     (let (r, b) = host_lseek h off b
      in if r \<noteq> int off then Inl Seek_failed
         else let b = b\<lparr>buf := (\<lambda>i. if i < length vs then vs ! i else buf b i)\<rparr>; (w, b) = host_write h (length vs) b
              in if w \<noteq> length vs then Inl Write_failed else Inr b)"

definition size_bytes :: "dword \<Rightarrow> byte list" where
  "size_bytes sz = [ucast (sz AND 0xff), ucast (drop_bit 8 sz AND 0xff), ucast (drop_bit 16 sz AND 0xff), 0]"

definition build_boot_sector :: "host \<Rightarrow> string \<Rightarrow> build \<Rightarrow> build_error + build" where
  "build_boot_sector h name b =
     and_then (minix_open h name b) (\<lambda>b.
       let (i, b) = host_read 1024 b
       in if i \<noteq> 512 then Inl Not_512_bytes
          else if buf b 510 \<noteq> 0x55 \<or> buf b 511 \<noteq> 0xaa then Inl No_boot_flag
          else let b = b\<lparr>buf := (buf b)(508 := 0, 509 := 0)\<rparr>; (w, b) = host_write h 512 b
               in if w \<noteq> 512 then Inl Write_failed else Inr b)"

definition build_main :: "host \<Rightarrow> string list \<Rightarrow> build \<Rightarrow> build_error + build" where
  "build_main h args b =
     (if length args \<noteq> 3 then Inl Usage
      else and_then (build_boot_sector h (args ! 0) b) (\<lambda>b.
           and_then (copy_file h (args ! 1) b) (\<lambda>(sys_size, b).
           and_then (copy_file h (args ! 2) b) (\<lambda>(usr_size, b).
             let im_size = (sys_size + usr_size + 15) div 16
             in and_then (patch h 500 [ucast (im_size AND 0xff), ucast (drop_bit 8 im_size AND 0xff)] b) (\<lambda>b.
                and_then (patch h 512 (size_bytes sys_size) b) (\<lambda>b.
                and_then (patch h 516 (size_bytes usr_size) b) (\<lambda>b.
                  patch h 520 (size_bytes 0x7DDB) b)))))))"

section \<open>Copying\<close>

lemma overwrite_end [simp]: "overwrite (length xs) vs xs = xs @ vs"
  by (simp add: overwrite_def)

lemma overwrite_inside: "p + length vs \<le> length xs \<Longrightarrow> overwrite p vs xs = take p xs @ vs @ drop (p + length vs) xs"
  by (simp add: overwrite_def)

lemma length_overwrite: "p + length vs \<le> length xs \<Longrightarrow> length (overwrite p vs xs) = length xs"
  by (simp add: overwrite_inside)

lemma nth_overwrite:
  assumes "p + length vs \<le> length xs" "n < length xs"
  shows "overwrite p vs xs ! n = (if p \<le> n \<and> n < p + length vs then vs ! (n - p) else xs ! n)"
  using assms by (auto simp: overwrite_inside nth_append min_def)

text \<open>One pass of a loop: a block from the input to the end of the output.\<close>

lemma copy_block:
  assumes "l \<le> length (input b)" "out_pos b = length (image b)" "length (image b) + l \<le> capacity h"
  shows "\<exists>b'. host_write h l (snd (host_read l b)) = (l, b') \<and> fst (host_read l b) = l
    \<and> image b' = image b @ take l (input b) \<and> input b' = drop l (input b) \<and> out_pos b' = length (image b')
    \<and> (\<forall>i<l. buf b' i = input b ! i)"
proof -
  have "map (\<lambda>i. if i < l then input b ! i else buf b i) [0..<l] = take l (input b)"
    using assms(1) by (intro nth_equalityI) simp_all
  then show ?thesis using assms by (simp add: host_write_def host_read_def Let_def min_def)
qed

lemma copy_loop_ok:
  assumes "length (input b) = sz" "out_pos b = length (image b)" "length (image b) + sz \<le> capacity h"
  shows "\<exists>b'. copy_loop h name sz b = Inr b' \<and> image b' = image b @ input b \<and> out_pos b' = length (image b')"
  using assms
proof (induction sz arbitrary: b rule: less_induct)
  case (less sz)
  show ?case
  proof (cases "0 < sz")
    case False
    then show ?thesis using less.prems by (subst copy_loop.simps) simp
  next
    case True
    define l where "l = (if 1024 < sz then 1024 else sz)"
    have l: "0 < l" "l \<le> sz" using True by (auto simp: l_def)
    obtain b1 where r: "host_read l b = (l, b1)" using l less.prems(1) by (simp add: host_read_def Let_def min_def)
    from copy_block [of l b h] l less.prems r obtain b' where b': "host_write h l b1 = (l, b')"
      "image b' = image b @ take l (input b)" "input b' = drop l (input b)" "out_pos b' = length (image b')" by auto
    have "\<exists>b''. copy_loop h name (sz - l) b' = Inr b'' \<and> image b'' = image b' @ input b' \<and> out_pos b'' = length (image b'')"
      using l less.prems b' by (intro less.IH) simp_all
    moreover have "copy_loop h name sz b = copy_loop h name (sz - l) b'"
      using True r b'(1) by (subst copy_loop.simps) (simp add: l_def [symmetric] Let_def)
    ultimately show ?thesis using b' by simp
  qed
qed

lemma copy_file_ok:
  assumes "files h name = Some bs" "stat_ok h" "length bs < 2 ^ 32"
    and "out_pos b = length (image b)" "length (image b) + length bs \<le> capacity h"
  shows "\<exists>b'. copy_file h name b = Inr (of_nat (length bs), b') \<and> image b' = image b @ bs \<and> out_pos b' = length (image b')"
proof -
  have "unat (of_nat (length bs) :: dword) = length bs" by (rule unat_of_nat32 [OF assms(3)])
  then show ?thesis
    using assms copy_loop_ok [of "b\<lparr>input := bs\<rparr>" "length bs" h name] by (auto simp: copy_file_def host_open_def)
qed

lemma patch_ok:
  assumes "seekable h" "off + length vs \<le> length (image b)" "length (image b) \<le> capacity h"
  shows "\<exists>b'. patch h off vs b = Inr b' \<and> image b' = overwrite off vs (image b)"
proof -
  have "map (\<lambda>i. if i < length vs then vs ! i else buf b i) [0..<length vs] = vs"
    by (intro nth_equalityI) simp_all
  moreover have "length vs \<le> capacity h - off" using assms(2,3) by linarith
  ultimately show ?thesis using assms by (simp add: patch_def host_lseek_def host_write_def Let_def min_def cong: if_cong)
qed

section \<open>The image\<close>

definition minix_header :: "byte list \<Rightarrow> bool" where
  "minix_header mh \<longleftrightarrow> length mh = 32 \<and> take 8 mh = minix_hdr
     \<and> (\<forall>k\<in>{3, 4, 5, 7}. \<forall>i<4. mh ! (4 * k + i) = 0)"

definition boot_sector_ok :: "byte list \<Rightarrow> bool" where
  "boot_sector_ok bt \<longleftrightarrow> length bt = 512 \<and> bt ! 510 = 0x55 \<and> bt ! 511 = 0xaa"

lemma minix_open_ok:
  assumes "files h name = Some (mh @ bs)" "minix_header mh"
  shows "\<exists>b'. minix_open h name b = Inr b' \<and> input b' = bs \<and> image b' = image b \<and> out_pos b' = out_pos b"
proof -
  have mh: "length mh = 32" "take 8 mh = minix_hdr" "\<And>k i. k \<in> {3, 4, 5, 7} \<Longrightarrow> i < 4 \<Longrightarrow> mh ! (4 * k + i) = 0"
    using assms(2) by (auto simp: minix_header_def)
  let ?bf = "\<lambda>i. if i < 32 then (mh @ bs) ! i else buf b i"
  have bf: "?bf i = mh ! i" if "i < 32" for i using that mh(1) by (simp add: nth_append)
  have "map ?bf [0..<8] = take 8 mh" by (intro nth_equalityI) (use mh(1) bf in simp_all)
  moreover have "lb_zero ?bf k" if "k \<in> {3, 4, 5, 7}" for k
    using mh(3) [OF that, of 0] mh(3) [OF that, of 1] mh(3) [OF that, of 2] mh(3) [OF that, of 3] that mh(1)
    by (auto simp: lb_zero_def nth_append)
  ultimately show ?thesis
    using assms(1) mh(1,2) by (simp add: minix_open_def host_open_def host_read_def Let_def min_def cong: if_cong
        del: upt_rec_numeral)
qed

lemma build_boot_sector_ok:
  assumes "files h name = Some (mh @ bt)" "minix_header mh" "boot_sector_ok bt"
    and "image b = []" "out_pos b = 0" "512 \<le> capacity h"
  shows "\<exists>b'. build_boot_sector h name b = Inr b' \<and> image b' = bt[508 := 0, 509 := 0] \<and> out_pos b' = 512"
proof -
  obtain b1 where b1: "minix_open h name b = Inr b1" "input b1 = bt" "image b1 = []" "out_pos b1 = 0"
    using minix_open_ok [OF assms(1,2), of b] assms(4,5) by auto
  have bt: "length bt = 512" "bt ! 510 = 0x55" "bt ! 511 = 0xaa" using assms(3) by (auto simp: boot_sector_ok_def)
  let ?bf = "(\<lambda>i. if i < 512 then bt ! i else buf b1 i)(508 := 0, 509 := 0)"
  have "map ?bf [0..<512] = bt[508 := 0, 509 := 0]"
    by (intro nth_equalityI) (simp_all add: bt(1) nth_list_update)
  then show ?thesis
    using b1 bt assms(6) by (simp add: build_boot_sector_def host_read_def host_write_def Let_def min_def overwrite_def
        del: upt_rec_numeral cong: if_cong)
qed

definition image_size :: "dword \<Rightarrow> dword \<Rightarrow> byte list" where
  "image_size sys usr = (let im_size = (sys + usr + 15) div 16
     in [ucast (im_size AND 0xff), ucast (drop_bit 8 im_size AND 0xff)])"

lemma build_main_ok:
  assumes f: "files h bn = Some (mh @ bt)" "minix_header mh" "boot_sector_ok bt" "files h sn = Some sys" "files h un = Some usr"
    and ok: "stat_ok h" "seekable h" "512 + length sys + length usr \<le> capacity h" "image b = []" "out_pos b = 0"
    and len: "12 \<le> length sys" "length sys < 2 ^ 32" "length usr < 2 ^ 32"
  shows "\<exists>b'. build_main h [bn, sn, un] b = Inr b'
    \<and> image b' = overwrite 520 (size_bytes 0x7DDB) (overwrite 516 (size_bytes (of_nat (length usr)))
        (overwrite 512 (size_bytes (of_nat (length sys))) (overwrite 500 (image_size (of_nat (length sys)) (of_nat (length usr)))
          (bt[508 := 0, 509 := 0] @ sys @ usr))))"
proof -
  let ?ss = "of_nat (length sys) :: dword" and ?us = "of_nat (length usr) :: dword"
  let ?i0 = "bt[508 := 0, 509 := 0] @ sys @ usr"
  let ?i1 = "overwrite 500 (image_size ?ss ?us) ?i0"
  let ?i2 = "overwrite 512 (size_bytes ?ss) ?i1" let ?i3 = "overwrite 516 (size_bytes ?us) ?i2"
  have lb: "length bt = 512" using f(3) by (simp add: boot_sector_ok_def)
  have ls: "length (image_size ?ss ?us) = 2" "length (size_bytes w) = 4" for w by (simp_all add: image_size_def size_bytes_def Let_def)
  obtain b1 where b1: "build_boot_sector h bn b = Inr b1" "image b1 = bt[508 := 0, 509 := 0]" "out_pos b1 = 512"
    using build_boot_sector_ok [OF f(1-3) ok(4,5)] ok(3) by auto
  obtain b2 where b2: "copy_file h sn b1 = Inr (?ss, b2)" "image b2 = image b1 @ sys" "out_pos b2 = length (image b2)"
    using copy_file_ok [OF f(4) ok(1) len(2), of b1] b1 lb ok(3) by auto
  obtain b3 where b3: "copy_file h un b2 = Inr (?us, b3)" "image b3 = ?i0"
    using copy_file_ok [OF f(5) ok(1) len(3), of b2] b1(2) b2 lb ok(3) by auto
  have l0: "length ?i0 = 512 + length sys + length usr" using lb by simp
  have l1: "length ?i1 = length ?i0" using l0 ls len(1) by (intro length_overwrite) simp
  have l2: "length ?i2 = length ?i0" using l0 l1 ls len(1) by (subst length_overwrite) simp_all
  have l3: "length ?i3 = length ?i0" using l0 l2 ls len(1) by (subst length_overwrite) simp_all
  obtain b4 where b4: "patch h 500 (image_size ?ss ?us) b3 = Inr b4" "image b4 = ?i1"
    using patch_ok [OF ok(2), of 500 "image_size ?ss ?us" b3] b3(2) l0 ls ok(3) len(1) by auto
  obtain b5 where b5: "patch h 512 (size_bytes ?ss) b4 = Inr b5" "image b5 = ?i2"
    using patch_ok [OF ok(2), of 512 "size_bytes ?ss" b4] b4(2) l0 l1 ls ok(3) len(1) by auto
  obtain b6 where b6: "patch h 516 (size_bytes ?us) b5 = Inr b6" "image b6 = ?i3"
    using patch_ok [OF ok(2), of 516 "size_bytes ?us" b5] b5(2) l0 l2 ls ok(3) len(1) by auto
  obtain b7 where b7: "patch h 520 (size_bytes 0x7DDB) b6 = Inr b7" "image b7 = overwrite 520 (size_bytes 0x7DDB) ?i3"
    using patch_ok [OF ok(2), of 520 "size_bytes 0x7DDB" b6] b6(2) l0 l3 ls ok(3) len(1) by auto
  show ?thesis
    using b1(1) b2(1) b3(1) b4(1) b5(1) b6(1) b7
    by (simp add: build_main_def image_size_def [of ?ss ?us, unfolded Let_def, symmetric] Let_def)
qed

text \<open>Reading the finished image byte by byte.\<close>

lemma image_bytes:
  assumes "length bt = 512" "12 \<le> length sys"
    and img: "img = overwrite 520 (size_bytes v) (overwrite 516 (size_bytes us) (overwrite 512 (size_bytes ss)
      (overwrite 500 (image_size ss us) (bt[508 := 0, 509 := 0] @ sys @ usr))))"
  shows "length img = 512 + length sys + length usr"
    "k < 4 \<Longrightarrow> img ! (512 + k) = size_bytes ss ! k" "k < 4 \<Longrightarrow> img ! (516 + k) = size_bytes us ! k"
    "12 \<le> n \<Longrightarrow> n < length (sys @ usr) \<Longrightarrow> img ! (512 + n) = (sys @ usr) ! n"
    "j < 512 \<Longrightarrow> img ! j = (if 500 \<le> j \<and> j < 502 then image_size ss us ! (j - 500) else bt[508 := 0, 509 := 0] ! j)"
proof -
  have ls: "length (image_size ss us) = 2" "length (size_bytes w) = 4" for w by (simp_all add: image_size_def size_bytes_def Let_def)
  let ?i0 = "bt[508 := 0, 509 := 0] @ sys @ usr"
  let ?i1 = "overwrite 500 (image_size ss us) ?i0"
  let ?i2 = "overwrite 512 (size_bytes ss) ?i1" let ?i3 = "overwrite 516 (size_bytes us) ?i2"
  have l0: "length ?i0 = 512 + length sys + length usr" using assms(1) by simp
  have l1: "length ?i1 = length ?i0" using l0 ls assms(2) by (intro length_overwrite) simp
  have l2: "length ?i2 = length ?i0" using l0 l1 ls assms(2) by (subst length_overwrite) simp_all
  have l3: "length ?i3 = length ?i0" using l0 l2 ls assms(2) by (subst length_overwrite) simp_all
  show "length img = 512 + length sys + length usr"
    unfolding img using l0 l3 ls assms(2) by (subst length_overwrite) simp_all
  have at: "img ! n = (if 520 \<le> n \<and> n < 524 then size_bytes v ! (n - 520) else if 516 \<le> n \<and> n < 520 then size_bytes us ! (n - 516)
      else if 512 \<le> n \<and> n < 516 then size_bytes ss ! (n - 512) else if 500 \<le> n \<and> n < 502 then image_size ss us ! (n - 500) else ?i0 ! n)"
    if "n < length ?i0" for n
    unfolding img using that l0 l1 l2 l3 ls assms(2) by (simp add: nth_overwrite)
  show "img ! (512 + k) = size_bytes ss ! k" "img ! (516 + k) = size_bytes us ! k" if "k < 4"
    using at [of "512 + k"] at [of "516 + k"] that l0 assms(2) by simp_all
  show "img ! j = (if 500 \<le> j \<and> j < 502 then image_size ss us ! (j - 500) else bt[508 := 0, 509 := 0] ! j)" if "j < 512"
    using at [of j] that l0 assms(1) by (simp add: nth_append)
  show "img ! (512 + n) = (sys @ usr) ! n" if "12 \<le> n" "n < length (sys @ usr)"
    using at [of "512 + n"] that l0 assms(1) by (simp add: nth_append)
qed

end
