(* ===== verification/Image_Boot.thy ===== *)
theory Image_Boot
  imports Image_Build Kernel_Boot
begin

text \<open>
  The image and the kernel that boots from it: when the boot sector has loaded everything
  behind itself at \<^verbatim>\<open>KERNEL_START\<close>, the sizes that \<^verbatim>\<open>build.c\<close> recorded are the ones \<^verbatim>\<open>main\<close>
  reads, and the user program ends up in the pages of the first process.
\<close>

definition loaded :: "byte list \<Rightarrow> (dword \<Rightarrow> byte) \<Rightarrow> bool" where
  "loaded img m \<longleftrightarrow> (\<forall>n. 512 + n < length img \<longrightarrow> m (0x10000 + of_nat n) = img ! (512 + n))"

lemma size_bytes_read:
  assumes "w < 0x1000000"
  shows "(ucast (size_bytes w ! 0) :: dword) OR push_bit 8 (ucast (size_bytes w ! 1)) OR push_bit 16 (ucast (size_bytes w ! 2))
    OR push_bit 24 (ucast (size_bytes w ! 3)) = w"
proof -
  have m: "(0xff :: dword) = mask 8" by (simp add: mask_eq_exp_minus_1)
  have "unat w < 0x1000000" using assms by (simp add: word_less_nat_alt)
  then have "w = take_bit 24 w" by (simp add: word_unat_eq_iff take_bit_eq_mod unat_mod)
  then have hi: "\<not> bit w n" if "24 \<le> n" for n using that by (metis bit_take_bit_iff not_less)
  show ?thesis
  proof (rule bit_eqI)
    fix n assume "possible_bit TYPE(dword) n"
    then consider "n < 8" | "8 \<le> n" "n < 16" | "16 \<le> n" "n < 24" | "24 \<le> n" "n < 32" by fastforce
    then show "bit (ucast (size_bytes w ! 0) OR push_bit 8 (ucast (size_bytes w ! 1)) OR push_bit 16 (ucast (size_bytes w ! 2))
        OR push_bit 24 (ucast (size_bytes w ! 3)) :: dword) n = bit w n"
      by cases (auto simp: size_bytes_def m bit_simps hi)
  qed
qed

lemma loaded_size:
  assumes "\<And>k. k < 4 \<Longrightarrow> m (a + of_nat k) = size_bytes w ! k" "w < 0x1000000"
  shows "mem_dword m a = w"
  using assms(1) [of 0] assms(1) [of 1] assms(1) [of 2] assms(1) [of 3] size_bytes_read [OF assms(2)]
  by (simp add: mem_dword_def)

lemma image_boots:
  assumes f: "files h bn = Some (mh @ bt)" "minix_header mh" "boot_sector_ok bt" "files h sn = Some sys" "files h un = Some usr"
    and ok: "stat_ok h" "seekable h" "512 + length sys + length usr \<le> capacity h" "image b = []" "out_pos b = 0"
    and len: "12 \<le> length sys" "length sys + length usr \<le> 0xF0000" "length usr \<le> 28 * 4096"
  shows "\<exists>b'. build_main h [bn, sn, un] b = Inr b' \<and> length (image b') = 512 + length sys + length usr
    \<and> (\<forall>k<512. image b' ! k = (if 500 \<le> k \<and> k < 502
         then image_size (of_nat (length sys)) (of_nat (length usr)) ! (k - 500) else bt[508 := 0, 509 := 0] ! k))
    \<and> (\<forall>m. loaded (image b') m \<longrightarrow> image_ok m \<and> mem_dword m 0x10000 = of_nat (length sys)
         \<and> mem_dword m 0x10004 = of_nat (length usr)
         \<and> (\<forall>n<length usr. m (0x10000 + of_nat (length sys) + of_nat n) = usr ! n))"
proof -
  have lt: "length sys < 2 ^ 32" "length usr < 2 ^ 32" using len by simp_all
  obtain b' where b': "build_main h [bn, sn, un] b = Inr b'"
    "image b' = overwrite 520 (size_bytes 0x7DDB) (overwrite 516 (size_bytes (of_nat (length usr)))
        (overwrite 512 (size_bytes (of_nat (length sys))) (overwrite 500 (image_size (of_nat (length sys)) (of_nat (length usr)))
          (bt[508 := 0, 509 := 0] @ sys @ usr))))"
    using build_main_ok [OF f ok len(1) lt] by blast
  have lb: "length bt = 512" using f(3) by (simp add: boot_sector_ok_def)
  note im = image_bytes [OF lb len(1) b'(2)]
  have un: "unat (of_nat (length sys) :: dword) = length sys" "unat (of_nat (length usr) :: dword) = length usr"
    using lt by (simp_all add: unat_of_nat32)
  have small: "(of_nat (length sys) :: dword) < 0x1000000" "(of_nat (length usr) :: dword) < 0x1000000"
    using len un by (simp_all add: word_less_nat_alt)
  have "image_ok m \<and> mem_dword m 0x10000 = of_nat (length sys) \<and> mem_dword m 0x10004 = of_nat (length usr)
      \<and> (\<forall>n<length usr. m (0x10000 + of_nat (length sys) + of_nat n) = usr ! n)" if m: "loaded (image b') m" for m
  proof -
    have at: "m (0x10000 + of_nat n) = image b' ! (512 + n)" if "n < length sys + length usr" for n
      using m that im(1) by (simp add: loaded_def)
    have s: "mem_dword m 0x10000 = of_nat (length sys)"
    proof (rule loaded_size [OF _ small(1)])
      fix k :: nat assume "k < 4"
      then show "m (0x10000 + of_nat k) = size_bytes (of_nat (length sys)) ! k" using at [of k] im(2) [of k] len(1) by simp
    qed
    have u: "mem_dword m 0x10004 = of_nat (length usr)"
    proof (rule loaded_size [OF _ small(2)])
      fix k :: nat assume k: "k < 4"
      have "(0x10004 :: dword) + of_nat k = 0x10000 + of_nat (4 + k)" by simp
      then show "m (0x10004 + of_nat k) = size_bytes (of_nat (length usr)) ! k"
        using at [of "4 + k"] im(3) [OF k] k len(1) by (simp add: add.assoc)
    qed
    have "m (0x10000 + of_nat (length sys) + of_nat n) = usr ! n" if "n < length usr" for n
      using at [of "length sys + n"] im(4) [of "length sys + n"] that len(1) by (simp add: add.assoc nth_append)
    moreover have "image_ok m" using len un unfolding image_ok_def s u by simp
    ultimately show ?thesis using s u by blast
  qed
  then show ?thesis using b'(1) im(1,5) by blast
qed

section \<open>Refusals\<close>

lemma build_main_refused:
  "build_boot_sector h bn b = Inl e \<Longrightarrow> build_main h [bn, sn, un] b = Inl e"
  by (simp add: build_main_def)

lemma bad_sector:
  assumes "files h bn = Some (mh @ bt)" "minix_header mh" "\<not> boot_sector_ok bt"
  shows "build_boot_sector h bn b = Inl (if length bt \<noteq> 512 then Not_512_bytes else No_boot_flag)"
proof -
  obtain b1 where b1: "minix_open h bn b = Inr b1" "input b1 = bt" using minix_open_ok [OF assms(1,2), of b] by auto
  show ?thesis using b1 assms(3)
    by (auto simp: build_boot_sector_def host_read_def boot_sector_ok_def Let_def min_def)
qed

lemma missing_system:
  assumes "files h bn = Some (mh @ bt)" "minix_header mh" "boot_sector_ok bt" "image b = []" "out_pos b = 0"
    and "512 \<le> capacity h" "files h sn = None"
  shows "build_main h [bn, sn, un] b = Inl (Unable_to_open sn)"
  using build_boot_sector_ok [OF assms(1-6)] assms(7) by (auto simp: build_main_def copy_file_def host_open_def)

lemma not_seekable:
  assumes f: "files h bn = Some (mh @ bt)" "minix_header mh" "boot_sector_ok bt" "files h sn = Some sys" "files h un = Some usr"
    and ok: "stat_ok h" "\<not> seekable h" "512 + length sys + length usr \<le> capacity h" "image b = []" "out_pos b = 0"
    and len: "length sys < 2 ^ 32" "length usr < 2 ^ 32"
  shows "build_main h [bn, sn, un] b = Inl Seek_failed"
proof -
  have lb: "length bt = 512" using f(3) by (simp add: boot_sector_ok_def)
  obtain b1 where b1: "build_boot_sector h bn b = Inr b1" "image b1 = bt[508 := 0, 509 := 0]" "out_pos b1 = 512"
    using build_boot_sector_ok [OF f(1-3) ok(4,5)] ok(3) by auto
  obtain b2 where b2: "copy_file h sn b1 = Inr (of_nat (length sys), b2)" "image b2 = image b1 @ sys" "out_pos b2 = length (image b2)"
    using copy_file_ok [OF f(4) ok(1) len(1), of b1] b1 lb ok(3) by auto
  obtain b3 where b3: "copy_file h un b2 = Inr (of_nat (length usr), b3)"
    using copy_file_ok [OF f(5) ok(1) len(2), of b2] b1(2) b2 lb ok(3) by auto
  show ?thesis using b1(1) b2(1) b3 ok(2) by (simp add: build_main_def patch_def host_lseek_def Let_def)
qed

end
