(* ===== verification/Boot_Sector.thy ===== *)
theory Boot_Sector
  imports Image_Build
begin

text \<open>
  \<^verbatim>\<open>bootsect.S\<close>: the 16-bit code of sector 0, from its entry at \<open>0x7c00\<close> to the jump to the kernel
  in protected mode.  It moves itself out of the way, reads the image from the diskette with
  the BIOS, waits for the keyboard controller and the address line A20, programs the interrupt
  controllers and loads the descriptor table registers.  The disk service of the BIOS is an
  argument.  Words the code pushes on its stack at \<open>0x93ff4\<close> are not part of the memory.  A
  result \<^const>\<open>None\<close> is a loop that does not end or code that overwrites itself.
\<close>

section \<open>Memory and ports\<close>

definition seg :: "hword \<Rightarrow> hword \<Rightarrow> dword" where
  "seg s off = push_bit 4 (ucast s) + ucast off"

definition load_word :: "dword \<Rightarrow> (dword \<Rightarrow> byte) \<Rightarrow> hword" where
  "load_word a m = ucast (m a) OR push_bit 8 (ucast (m (a + 1)))"

text \<open>The high half of a register is replaced, and the two halves.\<close>

definition set_high :: "byte \<Rightarrow> hword \<Rightarrow> hword" where
  "set_high v w = push_bit 8 (ucast v) OR (w AND 0xff)"

definition low_half :: "hword \<Rightarrow> byte" where "low_half w = ucast w"
definition high_half :: "hword \<Rightarrow> byte" where "high_half w = ucast (drop_bit 8 w)"

definition store_word :: "dword \<Rightarrow> hword \<Rightarrow> (dword \<Rightarrow> byte) \<Rightarrow> dword \<Rightarrow> byte" where
  "store_word a v m = m(a := low_half v, a + 1 := high_half v)"

section \<open>The diskette\<close>

text \<open>
  A request to the service 2 of interrupt \<open>0x13\<close>: number of sectors, cylinder, first sector
  (counted from 1), head, drive and destination.  What the BIOS documents is that a request
  that stays on one track and inside one block of 64 KB copies the sectors to the
  destination; of other requests nothing is known.
\<close>

record request =
  q_al :: byte
  q_ch :: byte
  q_cl :: byte
  q_dh :: byte
  q_dl :: byte
  q_es :: hword
  q_bx :: hword

definition SEC_PISTA :: hword where [simp]: "SEC_PISTA = 18"

definition lba :: "request \<Rightarrow> nat" where
  "lba q = (2 * unat (q_ch q) + unat (q_dh q)) * 18 + (unat (q_cl q) - 1)"

definition valid_request :: "request \<Rightarrow> bool" where
  "valid_request q \<longleftrightarrow> q_dl q = 0 \<and> unat (q_ch q) < 80 \<and> unat (q_dh q) < 2 \<and> 0 < unat (q_al q)
     \<and> 0 < unat (q_cl q) \<and> unat (q_cl q) + unat (q_al q) \<le> 19 \<and> q_es q AND 0xfff = 0
     \<and> unat (q_bx q) + 512 * unat (q_al q) \<le> 65536"

definition bios_read :: "(nat \<Rightarrow> byte) \<Rightarrow> request \<Rightarrow> (dword \<Rightarrow> byte) \<Rightarrow> dword \<Rightarrow> byte" where
  "bios_read disk q m a =
     (let k = unat (a - seg (q_es q) (q_bx q)) in if k < 512 * unat (q_al q) then disk (512 * lba q + k) else m a)"

type_synonym disk_service = "request \<Rightarrow> (dword \<Rightarrow> byte) \<Rightarrow> dword \<Rightarrow> byte"

definition serves :: "(nat \<Rightarrow> byte) \<Rightarrow> disk_service \<Rightarrow> bool" where
  "serves disk int13 \<longleftrightarrow> (\<forall>q m. valid_request q \<longrightarrow> int13 q m = bios_read disk q m)"

section \<open>read_it\<close>

text \<open>
  The registers and variables of the loop, and the text shown on the screen.  The variables
  are in the sector at \<open>0x90000\<close>; a read of that segment would destroy them and the code.
\<close>

record loader =
  b_es :: hword
  b_bx :: hword
  b_sread :: hword
  b_head :: hword
  b_track :: hword
  b_mem :: "dword \<Rightarrow> byte"
  b_text :: "byte list"

definition INITSEG :: hword where [simp]: "INITSEG = 0x9000"
definition SYSSEG :: hword where [simp]: "SYSSEG = 0x1000"

definition read_track :: "disk_service \<Rightarrow> hword \<Rightarrow> loader \<Rightarrow> loader option" where
  "read_track int13 ax l =
     (let l = l\<lparr>b_text := b_text l @ [0x2e]\<rparr>;
          dx = b_track l;
          cx = b_sread l + 1;
          cx = set_high (low_half dx) cx;
          dx = b_head l;
          dx = set_high (low_half dx) dx AND 0x0100;
          ax = set_high 2 ax;
          q = \<lparr>q_al = low_half ax, q_ch = high_half cx, q_cl = low_half cx, q_dh = high_half dx, q_dl = low_half dx,
               q_es = b_es l, q_bx = b_bx l\<rparr>
      in if INITSEG \<le> b_es l then None else Some (l\<lparr>b_mem := int13 q (b_mem l)\<rparr>))"

text \<open>
  The body of the loop, from \<^verbatim>\<open>ok1_read\<close> to the jump back: how much to read, the read, the
  position on the disk, the address in memory.
\<close>

definition next_position :: "hword \<Rightarrow> loader \<Rightarrow> loader" where
  "next_position ax l =
     (let ax = ax + b_sread l
      in if ax \<noteq> SEC_PISTA then l\<lparr>b_sread := ax\<rparr>
         else let ax = 1 - b_head l;
                  l = (if ax \<noteq> 0 then l else l\<lparr>b_track := b_track l + 1\<rparr>)
              in l\<lparr>b_head := ax, b_sread := 0\<rparr>)"

definition next_address :: "hword \<Rightarrow> loader \<Rightarrow> loader" where
  "next_address cx l =
     (let cx = push_bit 9 cx
      in if unat (b_bx l) + unat cx < 65536 then l\<lparr>b_bx := b_bx l + cx\<rparr>
         else l\<lparr>b_es := set_high (high_half (b_es l) + 0x10) (b_es l), b_bx := 0\<rparr>)"

definition read_size :: "hword \<Rightarrow> hword \<Rightarrow> hword" where
  "read_size sread bx =
     (let ax = SEC_PISTA - sread;
          cx = push_bit 9 ax;
          carry = (65536 \<le> unat cx + unat bx);
          cx = cx + bx
      in if \<not> carry \<or> cx = 0 then ax else drop_bit 9 (0 - bx))"

definition read_block :: "disk_service \<Rightarrow> loader \<Rightarrow> loader option" where
  "read_block int13 l =
     do { let ax = read_size (b_sread l) (b_bx l);
          l \<leftarrow> read_track int13 ax l;
          Some (next_address ax (next_position ax l)) }"

text \<open>\<^verbatim>\<open>rp_read\<close>: \<^verbatim>\<open>syssize\<close>, at offset 500 of the sector, counts paragraphs of 16 bytes.\<close>

definition syssize_addr :: dword where [simp]: "syssize_addr = 0x901F4"

partial_function (option) rp_read :: "disk_service \<Rightarrow> loader \<Rightarrow> loader option" where
  "rp_read int13 l =
     (if b_es l - SYSSEG \<le> load_word syssize_addr (b_mem l)
      then Option.bind (read_block int13 l) (rp_read int13) else Some l)"

definition setup_sects_addr :: dword where [simp]: "setup_sects_addr = 0x901F1"

definition read_it :: "disk_service \<Rightarrow> loader \<Rightarrow> loader option" where
  "read_it int13 l =
     (let al = b_mem l setup_sects_addr + 1;
          l = l\<lparr>b_sread := (b_sread l AND 0xff00) OR ucast al\<rparr>
      in if b_es l AND 0x0fff \<noteq> 0 then None else rp_read int13 (l\<lparr>b_bx := 0\<rparr>))"

section \<open>The loop loads whole blocks of 64 KB\<close>

text \<open>After \<open>n\<close> sectors: the next one follows on the disk and in memory.\<close>

definition sectors_read :: "(nat \<Rightarrow> byte) \<Rightarrow> (dword \<Rightarrow> byte) \<Rightarrow> nat \<Rightarrow> loader \<Rightarrow> bool" where
  "sectors_read disk m n l \<longleftrightarrow> b_es l = of_nat (0x1000 + 0x1000 * (n div 128)) \<and> b_bx l = of_nat (512 * (n mod 128))
     \<and> (\<exists>t h r. b_track l = of_nat t \<and> b_head l = of_nat h \<and> b_sread l = of_nat r \<and> h < 2 \<and> r < 18 \<and> 36 * t + 18 * h + r = n + 1)
     \<and> b_mem l = (\<lambda>a. let k = unat (a - 0x10000) in if k < 512 * n then disk (512 + k) else m a)"

lemma unat_of_nat16: "n < 65536 \<Longrightarrow> unat (of_nat n :: hword) = n"
  by (simp add: unsigned_of_nat take_bit_nat_eq_self)

lemma push_bit_of_nat16: "push_bit 9 (of_nat n :: hword) = of_nat (512 * n)"
  by (simp add: push_bit_eq_mult)

lemma halves [simp]:
  "low_half (set_high v w) = low_half w" "high_half (set_high v w) = v"
proof -
  have m: "(0xff :: hword) = mask 8" by (simp add: mask_eq_exp_minus_1)
  show "low_half (set_high v w) = low_half w" "high_half (set_high v w) = v"
    by (auto simp: low_half_def high_half_def set_high_def m bit_eq_iff bit_simps)
qed

lemma low_half_of_nat: "n < 256 \<Longrightarrow> unat (low_half (of_nat n)) = n"
  by (simp add: low_half_def unsigned_ucast_eq unat_of_nat16 take_bit_nat_eq_self)

lemma head_request:
  assumes "h < 2"
  defines "dx \<equiv> set_high (low_half (of_nat h)) (of_nat h) AND 0x0100"
  shows "unat (high_half dx) = h" "low_half dx = 0"
proof -
  have "h = 0 \<or> h = 1" using assms(1) by auto
  then show "unat (high_half dx) = h" "low_half dx = 0"
    unfolding dx_def by (auto simp: set_high_def high_half_def low_half_def)
qed

lemma next_segment:
  assumes "k < 8"
  shows "set_high (high_half (of_nat (0x1000 + 0x1000 * k)) + 0x10) (of_nat (0x1000 + 0x1000 * k)) = of_nat (0x1000 + 0x1000 * Suc k)"
proof -
  have "k \<in> {0, 1, 2, 3, 4, 5, 6, 7}" using assms by auto
  then show ?thesis by (auto simp: set_high_def high_half_def)
qed

lemma ucast_of_nat16: "n < 65536 \<Longrightarrow> ucast (of_nat n :: hword) = (of_nat n :: dword)"
  by (simp add: word_unat_eq_iff unsigned_ucast_eq unat_of_nat16 unat_of_nat32 take_bit_nat_eq_self)

lemma seg_of_sector:
  assumes "n < 1024"
  shows "seg (of_nat (0x1000 + 0x1000 * (n div 128))) (of_nat (512 * (n mod 128))) = of_nat (0x10000 + 512 * n)"
proof -
  have n: "0x1000 + 0x1000 * (n div 128) < 65536" "512 * (n mod 128) < 65536" using assms by auto
  have "16 * (0x1000 + 0x1000 * (n div 128)) + 512 * (n mod 128) = 0x10000 + 512 * (128 * (n div 128) + n mod 128)"
    by (simp only: distrib_left)
  then have "16 * (0x1000 + 0x1000 * (n div 128)) + 512 * (n mod 128) = 0x10000 + 512 * n" by simp
  then have "of_nat (16 * (0x1000 + 0x1000 * (n div 128)) + 512 * (n mod 128)) = (of_nat (0x10000 + 512 * n) :: dword)"
    by (rule arg_cong)
  then show ?thesis unfolding seg_def ucast_of_nat16 [OF n(1)] ucast_of_nat16 [OF n(2)] by (simp add: push_bit_eq_mult)
qed

text \<open>The number of sectors of a read: to the end of the track, but not across 64 KB.\<close>

lemma of_nat16_wrap: "65536 \<le> n \<Longrightarrow> (of_nat n :: hword) = of_nat (n - 65536)"
proof -
  assume "65536 \<le> n"
  then have "(of_nat (n - 65536) :: hword) = of_nat n - of_nat 65536" by (rule of_nat_diff)
  then show ?thesis by simp
qed

lemma unat_drop_bit9: "unat (drop_bit 9 (w :: hword)) = unat w div 512"
  unfolding unsigned_drop_bit_eq using unsigned_less [of w, where ?'a = nat] by (simp add: drop_bit_eq_div take_bit_nat_eq_self)

lemma block_size:
  assumes "r < 18" "j < 128"
  shows "read_size (of_nat r) (of_nat (512 * j)) = of_nat (min (18 - r) (128 - j))"
proof -
  define d where "d = 18 - r"
  have d: "0 < d" "d \<le> 18" using assms(1) by (auto simp: d_def)
  have ax: "SEC_PISTA - of_nat r = (of_nat d :: hword)" using assms(1) by (simp add: d_def of_nat_diff)
  have u: "unat (of_nat (512 * d) :: hword) = 512 * d" "unat (of_nat (512 * j) :: hword) = 512 * j"
    by (rule unat_of_nat16, use assms(2) d in simp)+
  have sum: "(of_nat (512 * d) :: hword) + of_nat (512 * j) = of_nat (512 * (d + j))" by (simp add: algebra_simps)
  consider "d + j < 128" | "d + j = 128" | "128 < d + j" by linarith
  then show ?thesis
  proof cases
    case 1
    then show ?thesis unfolding read_size_def Let_def ax push_bit_of_nat16 u d_def [symmetric] by (simp add: min_absorb1)
  next
    case 2
    then have "(of_nat (512 * d) :: hword) + of_nat (512 * j) = 0" unfolding sum by simp
    then show ?thesis unfolding read_size_def Let_def ax push_bit_of_nat16 d_def [symmetric] using 2 by (simp only: simp_thms if_True) (simp add: min_absorb1)
  next
    case 3
    have "(of_nat (512 * d) :: hword) + of_nat (512 * j) = of_nat (512 * (d + j) - 65536)"
      unfolding sum using 3 by (intro of_nat16_wrap) simp
    moreover have "unat (of_nat (512 * (d + j) - 65536) :: hword) = 512 * (d + j) - 65536"
      using d assms(2) by (intro unat_of_nat16) simp
    ultimately have "unat ((of_nat (512 * d) :: hword) + of_nat (512 * j)) \<noteq> 0" using 3 by (simp only:) simp
    then have nz: "(of_nat (512 * d) :: hword) + of_nat (512 * j) \<noteq> 0" by (metis unat_0)
    have j: "0 < j" using 3 d by simp
    have "(0 :: hword) - of_nat (512 * j) = of_nat (65536 - 512 * j)" using assms(2) by (subst of_nat_diff) simp_all
    moreover have "unat (of_nat (65536 - 512 * j) :: hword) = 512 * (128 - j)" using j by (subst unat_of_nat16) auto
    ultimately have "unat (drop_bit 9 ((0 :: hword) - of_nat (512 * j))) = 128 - j"
      by (simp add: unat_drop_bit9)
    moreover have "unat (of_nat (128 - j) :: hword) = 128 - j" by (intro unat_of_nat16) simp
    ultimately have e: "drop_bit 9 ((0 :: hword) - of_nat (512 * j)) = of_nat (128 - j)" by (simp only: word_unat_eq_iff)
    have m: "min d (128 - j) = 128 - j" using 3 by simp
    have c: "65536 \<le> 512 * d + 512 * j" using 3 by simp
    show ?thesis unfolding read_size_def Let_def ax push_bit_of_nat16 u d_def [symmetric] m using nz c e by (simp only: simp_thms if_False)
  qed
qed

text \<open>One read, as a request the BIOS accepts.\<close>

lemma read_track_ok:
  assumes io: "serves disk int13" and l: "sectors_read disk m n l" and n: "n < 1024"
    and pos: "b_track l = of_nat t" "b_head l = of_nat h" "b_sread l = of_nat r" "h < 2" "r < 18" "36 * t + 18 * h + r = n + 1"
    and c: "0 < c" "c \<le> 18 - r" "c \<le> 128 - n mod 128"
  shows "read_track int13 (of_nat c) l = Some (l\<lparr>b_text := b_text l @ [0x2e],
    b_mem := \<lambda>a. let k = unat (a - 0x10000) in if k < 512 * (n + c) then disk (512 + k) else m a\<rparr>)"
proof -
  let ?cx = "set_high (low_half (of_nat t)) (of_nat r + 1)" and ?dx = "set_high (low_half (of_nat h)) (of_nat h) AND 0x0100"
  define q where "q = \<lparr>q_al = low_half (set_high 2 (of_nat c)), q_ch = high_half ?cx, q_cl = low_half ?cx, q_dh = high_half ?dx,
    q_dl = low_half ?dx, q_es = b_es l, q_bx = b_bx l\<rparr>"
  have t: "t < 80" using pos(4-6) n by linarith
  have es: "b_es l = of_nat (0x1000 + 0x1000 * (n div 128))" and bx: "b_bx l = of_nat (512 * (n mod 128))"
    and mem: "b_mem l = (\<lambda>a. let k = unat (a - 0x10000) in if k < 512 * n then disk (512 + k) else m a)"
    using l by (auto simp: sectors_read_def)
  have r1: "(of_nat r + 1 :: hword) = of_nat (r + 1)" by simp
  have al: "unat (q_al q) = c" using c pos(5) by (simp add: q_def low_half_of_nat)
  have cl: "unat (q_cl q) = r + 1" unfolding q_def r1 using low_half_of_nat [of "r + 1"] pos(5) by simp
  have ch: "unat (q_ch q) = t" using t by (simp add: q_def low_half_of_nat)
  have dh: "unat (q_dh q) = h" "q_dl q = 0" using head_request [OF pos(4)] by (simp_all add: q_def)
  have k: "n div 128 \<in> {0, 1, 2, 3, 4, 5, 6, 7}" using n by auto
  have ue: "unat (b_es l) = 0x1000 + 0x1000 * (n div 128)" unfolding es by (rule unat_of_nat16) (use n in simp)
  have ub: "unat (b_bx l) = 512 * (n mod 128)" unfolding bx by (rule unat_of_nat16) simp
  have al0: "b_es l AND 0xfff = 0" unfolding es using k by auto
  have "unat (b_bx l) + 512 * c \<le> 65536" unfolding ub using c(3) by simp
  then have "valid_request q"
    using al cl ch dh t c(1,2) pos(4,5) al0 unfolding valid_request_def by (simp add: q_def)
  then have io: "int13 q (b_mem l) = bios_read disk q (b_mem l)" using io by (simp add: serves_def)
  have base: "seg (q_es q) (q_bx q) = of_nat (0x10000 + 512 * n)" using seg_of_sector [OF n] by (simp add: q_def es bx)
  have lba: "512 * lba q = 512 + 512 * n" using pos(6) by (simp add: lba_def ch dh cl)
  have "bios_read disk q (b_mem l) a = (let k = unat (a - 0x10000) in if k < 512 * (n + c) then disk (512 + k) else m a)" for a
  proof -
    define x where "x = a - 0x10000"
    have "a - of_nat (0x10000 + 512 * n) = x - of_nat (512 * n)" by (simp add: x_def algebra_simps)
    moreover have "unat (x - of_nat (512 * n)) = (if 512 * n \<le> unat x then unat x - 512 * n else unat x + 2 ^ 32 - 512 * n)"
      using unat_of_nat32 [of "512 * n"] n by (simp add: unat_sub_if' split: if_splits)
    ultimately show ?thesis
      using n c(3) unfolding bios_read_def base lba al mem x_def [symmetric] Let_def
      by (auto simp: algebra_simps)
  qed
  then have "bios_read disk q (b_mem l) = (\<lambda>a. let k = unat (a - 0x10000) in if k < 512 * (n + c) then disk (512 + k) else m a)"
    by (rule ext)
  moreover have "\<not> INITSEG \<le> b_es l" using n by (simp add: word_le_nat_alt ue)
  ultimately show ?thesis
    using io pos(1-3) by (simp add: read_track_def Let_def q_def)
qed

lemma read_block_ok:
  assumes io: "serves disk int13" and l: "sectors_read disk m n l" and n: "n < 1024"
  shows "\<exists>l' c. read_block int13 l = Some l' \<and> 0 < c \<and> n mod 128 + c \<le> 128 \<and> sectors_read disk m (n + c) l'"
proof -
  obtain t h r where pos: "b_track l = of_nat t" "b_head l = of_nat h" "b_sread l = of_nat r" "h < 2" "r < 18"
    "36 * t + 18 * h + r = n + 1" using l by (auto simp: sectors_read_def)
  define j where "j = n mod 128"
  define c where "c = min (18 - r) (128 - j)"
  have c: "0 < c" "c \<le> 18 - r" "c \<le> 128 - j" "j < 128" using pos(5) by (auto simp: c_def j_def)
  have es: "b_es l = of_nat (0x1000 + 0x1000 * (n div 128))" and bx: "b_bx l = of_nat (512 * j)"
    using l by (auto simp: sectors_read_def j_def)
  define l1 where "l1 = l\<lparr>b_text := b_text l @ [0x2e],
    b_mem := \<lambda>a. let k = unat (a - 0x10000) in if k < 512 * (n + c) then disk (512 + k) else m a\<rparr>"
  have rd: "read_track int13 (of_nat c) l = Some l1"
    unfolding l1_def by (rule read_track_ok [OF io l n pos]) (use c in \<open>simp_all add: j_def\<close>)
  have blk: "read_block int13 l = Some (next_address (of_nat c) (next_position (of_nat c) l1))"
    using block_size [OF pos(5) c(4)] rd by (simp only: read_block_def bx pos(3) c_def [symmetric] Let_def) simp
  define l2 where "l2 = next_position (of_nat c) l1"
  have s: "c + r \<le> 18" using c(2) pos(5) by simp
  have eq: "(of_nat c + of_nat r :: hword) = 18 \<longleftrightarrow> c + r = 18"
  proof -
    have "unat (of_nat (c + r) :: hword) = c + r" by (rule unat_of_nat16) (use s in simp)
    moreover have "unat (18 :: hword) = 18" by simp
    ultimately show ?thesis by (metis word_unat_eq_iff of_nat_add)
  qed
  have p2: "\<exists>t h r. b_track l2 = of_nat t \<and> b_head l2 = of_nat h \<and> b_sread l2 = of_nat r \<and> h < 2 \<and> r < 18
      \<and> 36 * t + 18 * h + r = n + c + 1"
  proof (cases "c + r = 18")
    case False
    then have "l2 = l1\<lparr>b_sread := of_nat c + of_nat r\<rparr>"
      using pos(3) eq by (simp add: l2_def next_position_def l1_def Let_def)
    then have "b_track l2 = of_nat t" "b_head l2 = of_nat h" "b_sread l2 = of_nat (c + r)"
      using pos(1,2) by (simp_all add: l1_def)
    then show ?thesis using False s pos(4,6) by (intro exI [of _ t] exI [of _ h] exI [of _ "c + r"]) simp
  next
    case True
    then have "h = 0 \<Longrightarrow> b_track l2 = of_nat t \<and> b_head l2 = of_nat 1 \<and> b_sread l2 = of_nat 0"
      "h = 1 \<Longrightarrow> b_track l2 = of_nat (t + 1) \<and> b_head l2 = of_nat 0 \<and> b_sread l2 = of_nat 0"
      using pos(1-3) eq by (simp_all add: l2_def next_position_def l1_def Let_def)
    moreover have "h = 0 \<or> h = 1" using pos(4) by auto
    moreover have "36 * t + 18 * h + 18 = n + c + 1" using True pos(6) by simp
    ultimately show ?thesis
      by (elim disjE) (intro exI [of _ t] exI [of _ 1] exI [of _ 0], simp, intro exI [of _ "t + 1"] exI [of _ 0] exI [of _ 0], simp)
  qed
  have l2: "b_es l2 = b_es l" "b_bx l2 = b_bx l" "b_mem l2 = b_mem l1"
    by (simp_all add: l2_def next_position_def l1_def Let_def)
  define l3 where "l3 = next_address (of_nat c) l2"
  have u: "unat (b_bx l2) = 512 * j" "unat (of_nat (512 * c) :: hword) = 512 * c"
    unfolding l2(2) bx by (rule unat_of_nat16, use c in simp)+
  have keep: "b_track l3 = b_track l2" "b_head l3 = b_head l2" "b_sread l3 = b_sread l2" "b_mem l3 = b_mem l1"
    using l2(3) by (simp_all add: l3_def next_address_def Let_def)
  have "b_es l3 = of_nat (0x1000 + 0x1000 * ((n + c) div 128)) \<and> b_bx l3 = of_nat (512 * ((n + c) mod 128))"
  proof (cases "j + c < 128")
    case True
    have "n + c = 128 * (n div 128) + (j + c)" by (simp add: j_def)
    then have "(n + c) div 128 = n div 128" "(n + c) mod 128 = j + c" using True by (metis div_mult_self4 div_less add_0_right mod_mult_self4 mod_less numeral_neq_zero)+
    then show ?thesis using True u es bx l2 by (simp add: l3_def next_address_def Let_def push_bit_of_nat16 algebra_simps)
  next
    case False
    then have jc: "j + c = 128" using c by simp
    have "n + c = 128 * (n div 128) + (j + c)" by (simp add: j_def)
    then have "n + c = 128 * Suc (n div 128)" using jc by simp
    then have d: "(n + c) div 128 = Suc (n div 128)" "(n + c) mod 128 = 0" by simp_all
    have "l3 = l2\<lparr>b_es := of_nat (0x1000 + 0x1000 * Suc (n div 128)), b_bx := 0\<rparr>"
      using u jc next_segment [of "n div 128"] n es l2(1)
      by (simp add: l3_def next_address_def Let_def push_bit_of_nat16 del: of_nat_add of_nat_mult mult_Suc_right)
    then show ?thesis unfolding d by simp
  qed
  then have "sectors_read disk m (n + c) l3" unfolding sectors_read_def keep using p2 by (simp add: l1_def)
  then show ?thesis using blk c by (intro exI [of _ l3] exI [of _ c]) (simp add: l3_def l2_def j_def)
qed

text \<open>The loop test reads \<^verbatim>\<open>syssize\<close> from the sector, which the reads have left alone.\<close>

lemma read_on:
  assumes "sectors_read disk m n l" "n \<le> 1024"
  shows "b_es l - SYSSEG \<le> load_word syssize_addr (b_mem l) \<longleftrightarrow> n div 128 \<le> unat (load_word syssize_addr m) div 0x1000"
proof -
  have es: "b_es l = of_nat (0x1000 + 0x1000 * (n div 128))"
    and mem: "b_mem l = (\<lambda>a. let k = unat (a - 0x10000) in if k < 512 * n then disk (512 + k) else m a)"
    using assms(1) by (auto simp: sectors_read_def)
  have "load_word syssize_addr (b_mem l) = load_word syssize_addr m" using assms(2) by (simp add: load_word_def mem Let_def)
  moreover have "b_es l - SYSSEG = of_nat (0x1000 * (n div 128))" by (simp add: es)
  moreover have "unat (of_nat (0x1000 * (n div 128)) :: hword) = 0x1000 * (n div 128)"
    by (rule unat_of_nat16) (use assms(2) div_le_mono [of n 1024 128] in simp)
  moreover have "0x1000 * (n div 128) \<le> w \<longleftrightarrow> n div 128 \<le> w div 0x1000" for w :: nat
    by (simp add: less_eq_div_iff_mult_less_eq mult.commute)
  ultimately show ?thesis by (simp only: word_le_nat_alt)
qed

lemma rp_read_ok:
  assumes io: "serves disk int13" and K: "K = unat (load_word syssize_addr m) div 0x1000 + 1" "K \<le> 8"
    and "sectors_read disk m n l" "n \<le> 128 * K"
  shows "\<exists>l'. rp_read int13 l = Some l' \<and> sectors_read disk m (128 * K) l'"
  using assms(4,5)
proof (induction "128 * K - n" arbitrary: n l rule: less_induct)
  case less
  have n: "n \<le> 1024" using less.prems(2) K(2) by simp
  note on = read_on [OF less.prems(1) n]
  show ?case
  proof (cases "n = 128 * K")
    case True
    then have "n div 128 = K" by simp
    then have "rp_read int13 l = Some l" using on K(1) by (subst rp_read.simps) simp
    then show ?thesis using less.prems(1) True by blast
  next
    case False
    then have lt: "n < 128 * K" using less.prems(2) by simp
    then have "n div 128 < K" by (simp add: less_mult_imp_div_less mult.commute)
    then have test: "b_es l - SYSSEG \<le> load_word syssize_addr (b_mem l)" unfolding on using K(1) by simp
    obtain l1 c where l1: "read_block int13 l = Some l1" "0 < c" "n mod 128 + c \<le> 128" "sectors_read disk m (n + c) l1"
      using read_block_ok [OF io less.prems(1)] lt K(2) by force
    have "n = 128 * (n div 128) + n mod 128" by simp
    then have "n + c \<le> 128 * K" using l1(3) \<open>n div 128 < K\<close> by linarith
    have "128 * K - (n + c) < 128 * K - n" using l1(2) lt by simp
    from less.hyps [OF this l1(4) \<open>n + c \<le> 128 * K\<close>] obtain l' where
      "rp_read int13 l1 = Some l'" "sectors_read disk m (128 * K) l'" by blast
    then show ?thesis using test l1(1) by (subst rp_read.simps) auto
  qed
qed

text \<open>
  An image of \<open>0x8000\<close> paragraphs or more does not fit below the sector: the loop reads over its
  own code.
\<close>

lemma rp_read_too_big:
  assumes io: "serves disk int13" and big: "0x8000 \<le> unat (load_word syssize_addr m)"
    and "sectors_read disk m n l" "n \<le> 1024"
  shows "rp_read int13 l = None"
  using assms(3,4)
proof (induction "1024 - n" arbitrary: n l rule: less_induct)
  case less
  have "n div 128 \<le> 1024 div 128" by (rule div_le_mono [OF less.prems(2)])
  moreover have "0x8000 div 0x1000 \<le> unat (load_word syssize_addr m) div 0x1000" by (rule div_le_mono [OF big])
  ultimately have test: "b_es l - SYSSEG \<le> load_word syssize_addr (b_mem l)"
    unfolding read_on [OF less.prems] by simp
  show ?case
  proof (cases "n = 1024")
    case True
    then have "INITSEG \<le> b_es l" using less.prems(1) by (simp add: sectors_read_def)
    then have "read_block int13 l = None" by (simp add: read_block_def read_track_def Let_def)
    then show ?thesis using test by (subst rp_read.simps) simp
  next
    case False
    then have lt: "n < 1024" using less.prems(2) by simp
    obtain l1 c where l1: "read_block int13 l = Some l1" "0 < c" "n mod 128 + c \<le> 128" "sectors_read disk m (n + c) l1"
      using read_block_ok [OF io less.prems(1) lt] by blast
    have "n = 128 * (n div 128) + n mod 128" "n div 128 < 8" using lt by auto
    then have "n + c \<le> 1024" using l1(3) by linarith
    from less.hyps [OF _ l1(4) this] l1(2) lt have "rp_read int13 l1 = None" by auto
    then show ?thesis using test l1(1) by (subst rp_read.simps) simp
  qed
qed

text \<open>The registers and variables at the call of \<^verbatim>\<open>read_it\<close>.\<close>

definition load_start :: "(dword \<Rightarrow> byte) \<Rightarrow> byte list \<Rightarrow> loader" where
  "load_start m text = \<lparr>b_es = SYSSEG, b_bx = 0x7, b_sread = 0, b_head = 0, b_track = 0, b_mem = m, b_text = text\<rparr>"

lemma read_it_start:
  assumes "m setup_sects_addr = 0"
  obtains l where "read_it int13 (load_start m text) = rp_read int13 l" "sectors_read disk m 0 l"
proof
  let ?l = "(load_start m text)\<lparr>b_sread := 1, b_bx := 0\<rparr>"
  show "read_it int13 (load_start m text) = rp_read int13 ?l"
    using assms by (simp add: read_it_def load_start_def Let_def)
  show "sectors_read disk m 0 ?l"
    unfolding sectors_read_def
    by (intro conjI exI [of _ "0 :: nat"] exI [of _ "1 :: nat"]) (simp_all add: load_start_def)
qed

section \<open>The sector\<close>

text \<open>
  The bytes from \<^verbatim>\<open>.org 435\<close> on: the descriptor table, the two table registers and the variables
  that \<^verbatim>\<open>build.c\<close> patches.
\<close>

definition words_bytes :: "hword list \<Rightarrow> byte list" where
  "words_bytes ws = concat (map (\<lambda>w. [low_half w, high_half w]) ws)"

definition gdt_bytes :: "byte list" where
  "gdt_bytes =
     words_bytes [0, 0, 0, 0] @
     words_bytes [0, 0, 0, 0] @
     words_bytes [0xFFFF, 0x0000] @ [0x00, 0x9a] @ [0xcf, 0x00] @
     words_bytes [0xFFFF, 0x0000] @ [0x00, 0x92] @ [0xcf, 0x00] @
     words_bytes [0xFFFF, 0x0000] @ [0x00, 0xfa] @ [0xcf, 0x00] @
     words_bytes [0xFFFF, 0x0000] @ [0x00, 0xf2] @ [0xcf, 0x00] @
     words_bytes [104, 0] @ [0, 0x89, 0, 0]"

definition boot_data :: "byte list" where
  "boot_data =
     gdt_bytes @ words_bytes [0, 0, 0] @ [0] @ words_bytes [0] @ words_bytes [0x7F00] @
     words_bytes [0x8000] @ words_bytes [0x1B3, 0x9] @ words_bytes [0] @ words_bytes [0xAA55]"

definition assembled :: "byte list \<Rightarrow> bool" where
  "assembled bt \<longleftrightarrow> length bt = 512 \<and> drop 435 bt = boot_data"

text \<open>The move of 256 words from \<open>0x7c00\<close> to \<open>0x90000\<close>.\<close>

definition BOOTSEG :: hword where [simp]: "BOOTSEG = 0x07C0"

primrec movsw :: "nat \<Rightarrow> hword \<Rightarrow> hword \<Rightarrow> (dword \<Rightarrow> byte) \<Rightarrow> dword \<Rightarrow> byte" where
  "movsw 0 si di m = m"
| "movsw (Suc cx) si di m = movsw cx (si + 2) (di + 2) (store_word (seg INITSEG di) (load_word (seg BOOTSEG si) m) m)"

text \<open>The message, written by service \<open>0x13\<close> of interrupt \<open>0x10\<close>: \<open>0xB\<close> bytes.\<close>

definition msg1 :: "byte list" where
  "msg1 = [13, 10] @ map of_char ''Loading..''"

section \<open>Waiting\<close>

text \<open>
  \<^verbatim>\<open>empty_8042\<close>: \<open>inp\<close> are the values of the successive \<^verbatim>\<open>in\<close> instructions, \<open>i\<close> counts them; the
  counter \<open>ecx\<close> bounds the loop.
\<close>

fun empty_8042 :: "nat \<Rightarrow> (nat \<Rightarrow> byte) \<Rightarrow> nat \<Rightarrow> nat" where
  "empty_8042 0 inp i = i"
| "empty_8042 (Suc ecx) inp i =
     (if ecx = 0 then i
      else if inp i AND 1 \<noteq> 0 then empty_8042 ecx inp (i + 2)
      else if inp i AND 2 \<noteq> 0 then empty_8042 ecx inp (i + 1)
      else i + 1)"

text \<open>
  \<^verbatim>\<open>a20_wait\<close>: \<open>a20 i\<close> says whether the address line is on at the \<open>i\<close>-th comparison; while it is
  off, \<open>0x10007c\<close> is \<open>0x7c\<close>.
\<close>

definition TEST_ADDR :: dword where [simp]: "TEST_ADDR = 0x7c"

partial_function (option) a20_wait :: "(nat \<Rightarrow> bool) \<Rightarrow> nat \<Rightarrow> hword \<Rightarrow> (dword \<Rightarrow> byte) \<Rightarrow> (dword \<Rightarrow> byte) option" where
  "a20_wait a20 i ax m =
     (let ax = ax + 1; m = store_word TEST_ADDR ax m
      in if ax = load_word (if a20 i then 0x10007c else 0x7c) m then a20_wait a20 (i + 1) ax m else Some m)"

section \<open>The interrupt controllers\<close>

text \<open>
  The bytes sent to the two controllers: the initialisation words put the lines at the vectors
  \<open>0x20\<close> and \<open>0x28\<close>; all lines are masked but the cascade.
\<close>

definition pic_setup :: "(hword \<times> byte) list" where
  "pic_setup = [(0x20, 0x11), (0xA0, 0x11), (0x21, 0x20), (0xA1, 0x28), (0x21, 0x04), (0xA1, 0x02), (0x21, 0x01),
     (0xA1, 0x01), (0xA1, 0xFF), (0x21, 0xFB)]"

text \<open>
  The master controller (8259A) as its data sheet describes it: a command with bit 4 starts
  the initialisation, the next three bytes to the data port are its words, any other byte to
  the data port is the mask.
\<close>

record pic =
  p_expect :: nat
  p_base :: byte
  p_mask :: byte

fun pic_out :: "hword \<times> byte \<Rightarrow> pic \<Rightarrow> pic" where
  "pic_out (port, v) p =
     (if port = 0x20 then (if v AND 0x10 \<noteq> 0 then p\<lparr>p_expect := 3\<rparr> else p)
      else if port = 0x21 then
        (if p_expect p = 3 then p\<lparr>p_expect := 2, p_base := v AND 0xf8\<rparr>
         else if 0 < p_expect p then p\<lparr>p_expect := p_expect p - 1\<rparr>
         else p\<lparr>p_mask := v\<rparr>)
      else p)"

section \<open>bootsect.S\<close>

text \<open>
  What the processor and the controllers are left with, and the address jumped to.  \<^verbatim>\<open>lgdt\<close>
  loads 24 bits of the base in 16-bit mode.
\<close>

record booted_pc =
  pc_mem :: "dword \<Rightarrow> byte"
  pc_text :: "byte list"
  pc_out :: "(hword \<times> byte) list"
  pc_gdt_limit :: hword
  pc_gdt_base :: dword
  pc_idt_limit :: hword
  pc_cr0 :: dword
  pc_cs :: hword
  pc_eip :: dword

definition bootsect :: "disk_service \<Rightarrow> (nat \<Rightarrow> byte) \<Rightarrow> (nat \<Rightarrow> bool) \<Rightarrow> (dword \<Rightarrow> byte) \<Rightarrow> booted_pc option" where
  "bootsect int13 inp a20 m =
     do { let m = movsw 256 0 0 m;
          l \<leftarrow> read_it int13 (load_start m msg1);
          let m = b_mem l;
          let out = [(0x3f2, 0), (0x70, 0x80)];
          let i = empty_8042 0xFFFFFF inp 0;
          let out = out @ [(0x64, 0xD1)];
          let i = empty_8042 0xFFFFFF inp i;
          let out = out @ [(0x60, 0xDF)];
          let i = empty_8042 0xFFFFFF inp i;
          let bx = load_word TEST_ADDR m;
          m \<leftarrow> a20_wait a20 0 0xffff m;
          let m = store_word TEST_ADDR bx m;
          let out = out @ pic_setup;
          Some \<lparr>pc_mem = m, pc_text = b_text l, pc_out = out, pc_gdt_limit = load_word 0x901F6 m,
            pc_gdt_base = (ucast (load_word 0x901F8 m) OR push_bit 16 (ucast (load_word 0x901FA m))) AND 0xffffff,
            pc_idt_limit = load_word 0x901EB m, pc_cr0 = 1, pc_cs = 0x10, pc_eip = 0x10010\<rparr> }"

section \<open>What it leaves behind\<close>

lemma load_word_halves [simp]: "low_half (load_word a m) = m a" "high_half (load_word a m) = m (a + 1)"
  by (auto simp: low_half_def high_half_def load_word_def bit_eq_iff bit_simps dest: bit_imp_le_length)

lemma halves_eq: "low_half v = low_half w \<Longrightarrow> high_half v = high_half w \<Longrightarrow> v = w"
proof (rule bit_eqI)
  fix n assume h: "low_half v = low_half w" "high_half v = high_half w" "possible_bit TYPE(hword) n"
  show "bit v n = bit w n"
  proof (cases "n < 8")
    case True
    then show ?thesis using arg_cong [OF h(1), of "\<lambda>x. bit x n"] by (simp add: low_half_def bit_simps)
  next
    case False
    moreover have "n - 8 < 8" using False h(3) by simp
    ultimately show ?thesis using arg_cong [OF h(2), of "\<lambda>x. bit x (n - 8)"] by (simp add: high_half_def bit_simps)
  qed
qed

lemma load_store_word [simp]: "load_word a (store_word a v m) = v"
proof -
  have "a + 1 \<noteq> a" by simp
  then show ?thesis by (intro halves_eq) (simp_all add: store_word_def)
qed

lemma store_word_twice [simp]: "store_word a v (store_word a w m) = store_word a v m"
  by (auto simp: store_word_def fun_eq_iff)

lemma store_word_same: "store_word a (load_word a m) m = m"
  by (auto simp: store_word_def fun_eq_iff)

text \<open>The sector moves.\<close>

definition moved :: "nat \<Rightarrow> (dword \<Rightarrow> byte) \<Rightarrow> dword \<Rightarrow> byte" where
  "moved n m a = (let k = unat (a - 0x90000) in if k < n then m (0x7c00 + of_nat k) else m a)"

lemma movsw_step:
  assumes "i < 256"
  shows "store_word (0x90000 + of_nat (2 * i)) (load_word (0x7c00 + of_nat (2 * i)) (moved (2 * i) m)) (moved (2 * i) m)
    = moved (2 * i + 2) m"
proof -
  have src: "moved (2 * i) m (0x7c00 + of_nat k) = m (0x7c00 + of_nat k)" if "k < 512" for k
  proof -
    have "(0x7c00 :: dword) + of_nat k - 0x90000 = (0x7c00 - 0x90000) + of_nat k" by (simp only: diff_add_eq)
    also have "(0x7c00 :: dword) - 0x90000 = 0xFFF77C00" by simp
    finally have "(0x7c00 :: dword) + of_nat k - 0x90000 = of_nat (0xFFF77C00 + k)" by (simp only: of_nat_add of_nat_numeral)
    then have "unat ((0x7c00 :: dword) + of_nat k - 0x90000) = unat (of_nat (0xFFF77C00 + k) :: dword)" by (rule arg_cong)
    also have "\<dots> = 0xFFF77C00 + k" by (rule unat_of_nat32) (use that in simp)
    finally show ?thesis using assms by (simp add: moved_def Let_def)
  qed
  show ?thesis
  proof (rule ext)
    fix a :: dword
    define k where "k = unat (a - 0x90000)"
    have a: "a = 0x90000 + of_nat k" by (simp add: k_def)
    have k: "k < 2 ^ 32" unfolding k_def using unat32_less by simp
    have eq: "a = 0x90000 + of_nat n \<longleftrightarrow> k = n" if "n < 1024" for n
      unfolding a using k that unat_of_nat32 [of n] unat_of_nat32 [of k] by auto
    have e: "a = 0x90000 + of_nat (2 * i) \<longleftrightarrow> k = 2 * i" "a = 0x90000 + of_nat (2 * i) + 1 \<longleftrightarrow> k = 2 * i + 1"
      using eq [of "2 * i"] eq [of "2 * i + 1"] assms by (simp_all add: add.assoc)
    have s: "moved (2 * i) m (0x7c00 + of_nat (2 * i)) = m (0x7c00 + of_nat (2 * i))"
      "moved (2 * i) m (0x7c00 + of_nat (2 * i) + 1) = m (0x7c00 + of_nat (2 * i + 1))"
      using src [of "2 * i"] src [of "2 * i + 1"] assms by (simp_all add: add.assoc)
    show "store_word (0x90000 + of_nat (2 * i)) (load_word (0x7c00 + of_nat (2 * i)) (moved (2 * i) m)) (moved (2 * i) m) a
        = moved (2 * i + 2) m a"
      unfolding store_word_def fun_upd_apply e load_word_halves s
      by (auto simp: moved_def k_def [symmetric] Let_def less_Suc_eq)
  qed
qed

lemma movsw_moved:
  "i + n \<le> 256 \<Longrightarrow> movsw n (of_nat (2 * i)) (of_nat (2 * i)) (moved (2 * i) m) = moved (2 * (i + n)) m"
proof (induction n arbitrary: i)
  case (Suc n)
  have u: "ucast (of_nat (2 * i) :: hword) = (of_nat (2 * i) :: dword)" by (rule ucast_of_nat16) (use Suc.prems in simp)
  have s: "seg INITSEG (of_nat (2 * i)) = 0x90000 + of_nat (2 * i)" "seg BOOTSEG (of_nat (2 * i)) = 0x7c00 + of_nat (2 * i)"
    unfolding seg_def u by simp_all
  have "(of_nat (2 * i) :: hword) + 2 = of_nat (2 * (i + 1))" by simp
  then show ?case
    using Suc.IH [of "i + 1"] movsw_step [of i m] Suc.prems
    by (simp only: movsw.simps s) simp
qed simp

lemma movsw_sector: "movsw 256 0 0 m = moved 512 m"
proof -
  have "moved (2 * 0) m = m" by (simp add: moved_def fun_eq_iff)
  then show ?thesis using movsw_moved [of 0 256 m] by (simp del: movsw.simps)
qed

text \<open>The wait ends once the line is on, and its test word is restored.\<close>

lemma a20_wait_ends:
  assumes "\<forall>j\<ge>n. a20 j"
  shows "\<exists>v. a20_wait a20 i ax m = Some (store_word TEST_ADDR v m)"
proof (induction "n - i" arbitrary: i ax m)
  case (Suc d)
  let ?m = "store_word TEST_ADDR (ax + 1) m"
  obtain v where "a20_wait a20 (i + 1) (ax + 1) ?m = Some (store_word TEST_ADDR v ?m)"
    using Suc.hyps(1) [of "i + 1" "ax + 1" ?m] Suc.hyps(2) by fastforce
  then show ?case by (subst a20_wait.simps) (auto simp: Let_def)
next
  case 0
  then have on: "a20 i" "a20 (i + 1)" using assms by simp_all
  have other: "load_word 0x10007c (store_word TEST_ADDR w m) = load_word 0x10007c m" for w m
    by (simp add: load_word_def store_word_def)
  have "a20_wait a20 i ax m = (if ax + 1 = load_word 0x10007c m then a20_wait a20 (i + 1) (ax + 1) (store_word TEST_ADDR (ax + 1) m)
      else Some (store_word TEST_ADDR (ax + 1) m))"
    using on(1) other by (subst a20_wait.simps) (simp add: Let_def del: TEST_ADDR_def)
  moreover have "a20_wait a20 (i + 1) (ax + 1) (store_word TEST_ADDR (ax + 1) m) = Some (store_word TEST_ADDR (ax + 2) m)"
    if "ax + 1 = load_word 0x10007c m"
  proof -
    have "2 + ax \<noteq> load_word 0x10007c m" by (simp flip: that)
    then show ?thesis using on(2) other by (subst a20_wait.simps) (simp add: Let_def add.commute [of ax] del: TEST_ADDR_def)
  qed
  ultimately show ?case by auto
qed

text \<open>
  The whole sector.  \<open>m\<close> is the memory in which the BIOS starts it: sector 0 of the disk is at
  \<open>0x7c00\<close>.
\<close>

definition at_7c00 :: "(nat \<Rightarrow> byte) \<Rightarrow> (dword \<Rightarrow> byte) \<Rightarrow> bool" where
  "at_7c00 disk m \<longleftrightarrow> (\<forall>k<512. m (0x7c00 + of_nat k) = disk k)"

definition disk_word :: "(nat \<Rightarrow> byte) \<Rightarrow> nat \<Rightarrow> hword" where
  "disk_word disk n = ucast (disk n) OR push_bit 8 (ucast (disk (n + 1)))"

lemma moved_byte: "at_7c00 disk m \<Longrightarrow> k < 512 \<Longrightarrow> moved 512 m (0x90000 + of_nat k) = disk k"
  using unat_of_nat32 [of k] by (simp add: moved_def at_7c00_def Let_def)

lemma bootsect_reads:
  assumes io: "serves disk int13" and s: "at_7c00 disk m" "disk 497 = 0"
  shows "load_word syssize_addr (moved 512 m) = disk_word disk 500"
    and "\<exists>l. read_it int13 (load_start (moved 512 m) msg1) = rp_read int13 l \<and> sectors_read disk (moved 512 m) 0 l"
proof -
  have at: "moved 512 m 0x901F1 = disk 497" "moved 512 m 0x901F4 = disk 500" "moved 512 m 0x901F5 = disk 501"
    using moved_byte [OF s(1), of 497] moved_byte [OF s(1), of 500] moved_byte [OF s(1), of 501] by simp_all
  then show "load_word syssize_addr (moved 512 m) = disk_word disk 500" by (simp add: load_word_def disk_word_def)
  have "moved 512 m setup_sects_addr = 0" using at(1) s(2) by simp
  then show "\<exists>l. read_it int13 (load_start (moved 512 m) msg1) = rp_read int13 l \<and> sectors_read disk (moved 512 m) 0 l"
    using read_it_start by metis
qed

lemma bootsect_ok:
  assumes io: "serves disk int13" and s: "at_7c00 disk m" "disk 497 = 0" and w: "unat (disk_word disk 500) < 0x8000"
    and on: "\<forall>j\<ge>n. a20 j"
  shows "\<exists>pc. bootsect int13 inp a20 m = Some pc
    \<and> (\<forall>k<16 * unat (disk_word disk 500). pc_mem pc (0x10000 + of_nat k) = disk (512 + k))
    \<and> (\<forall>k<512. pc_mem pc (0x90000 + of_nat k) = disk k)
    \<and> pc_out pc = [(0x3f2, 0), (0x70, 0x80), (0x64, 0xD1), (0x60, 0xDF)] @ pic_setup
    \<and> pc_gdt_limit pc = disk_word disk 502
    \<and> pc_gdt_base pc = (ucast (disk_word disk 504) OR push_bit 16 (ucast (disk_word disk 506))) AND 0xffffff
    \<and> pc_idt_limit pc = disk_word disk 491 \<and> pc_cr0 pc = 1 \<and> pc_cs pc = 0x10 \<and> pc_eip pc = 0x10010"
proof -
  define K where "K = unat (disk_word disk 500) div 0x1000 + 1"
  have K: "K \<le> 8" "16 * unat (disk_word disk 500) < 65536 * K" "512 * (128 * K) \<le> 0x80000" using w by (auto simp: K_def)
  note rd = bootsect_reads [OF io s]
  obtain l0 where l0: "read_it int13 (load_start (moved 512 m) msg1) = rp_read int13 l0" "sectors_read disk (moved 512 m) 0 l0"
    using rd(2) by blast
  obtain l where l: "rp_read int13 l0 = Some l" "sectors_read disk (moved 512 m) (128 * K) l"
    using rp_read_ok [OF io _ K(1) l0(2)] rd(1) K_def by auto
  have mem: "b_mem l = (\<lambda>a. let k = unat (a - 0x10000) in if k < 512 * (128 * K) then disk (512 + k) else moved 512 m a)"
    using l(2) by (simp only: sectors_read_def)
  obtain v where v: "a20_wait a20 0 0xffff (b_mem l) = Some (store_word TEST_ADDR v (b_mem l))"
    using a20_wait_ends [OF on] by blast
  have low: "b_mem l (0x10000 + of_nat k) = disk (512 + k)" if "k < 65536 * K" for k
  proof -
    have "unat (of_nat k :: dword) = k" by (rule unat_of_nat32) (use that K(1) in simp)
    then show ?thesis using that by (simp add: mem Let_def)
  qed
  have sec: "b_mem l (0x90000 + of_nat k) = disk k" if "k < 512" for k
  proof -
    have "(0x90000 :: dword) + of_nat k - 0x10000 = of_nat (0x80000 + k)" by (simp add: algebra_simps)
    then have "unat ((0x90000 :: dword) + of_nat k - 0x10000) = 0x80000 + k"
      using unat_of_nat32 [of "0x80000 + k"] that by (simp only:) simp
    then show ?thesis using moved_byte [OF s(1) that] K(3) by (simp add: mem Let_def)
  qed
  have words: "load_word 0x901F6 (b_mem l) = disk_word disk 502" "load_word 0x901F8 (b_mem l) = disk_word disk 504"
    "load_word 0x901FA (b_mem l) = disk_word disk 506" "load_word 0x901EB (b_mem l) = disk_word disk 491"
    using sec [of 502] sec [of 503] sec [of 504] sec [of 505] sec [of 506] sec [of 507] sec [of 491] sec [of 492]
    by (simp_all add: load_word_def disk_word_def)
  have "bootsect int13 inp a20 m = Some \<lparr>pc_mem = b_mem l, pc_text = b_text l,
      pc_out = [(0x3f2, 0), (0x70, 0x80), (0x64, 0xD1), (0x60, 0xDF)] @ pic_setup, pc_gdt_limit = disk_word disk 502,
      pc_gdt_base = (ucast (disk_word disk 504) OR push_bit 16 (ucast (disk_word disk 506))) AND 0xffffff,
      pc_idt_limit = disk_word disk 491, pc_cr0 = 1, pc_cs = 0x10, pc_eip = 0x10010\<rparr>"
    using l0(1) l(1) v words unfolding bootsect_def movsw_sector
    by (simp add: Let_def store_word_same del: TEST_ADDR_def)
  then show ?thesis using low sec K(2) by simp
qed

lemma bootsect_too_big:
  assumes io: "serves disk int13" and s: "at_7c00 disk m" "disk 497 = 0" and w: "0x8000 \<le> unat (disk_word disk 500)"
  shows "bootsect int13 inp a20 m = None"
proof -
  obtain l0 where l0: "read_it int13 (load_start (moved 512 m) msg1) = rp_read int13 l0" "sectors_read disk (moved 512 m) 0 l0"
    using bootsect_reads(2) [OF io s] by blast
  have "rp_read int13 l0 = None" using rp_read_too_big [OF io _ l0(2)] w bootsect_reads(1) [OF io s] by simp
  then show ?thesis unfolding bootsect_def movsw_sector by (simp add: l0(1) Let_def)
qed

end
