(* ===== verification/Image_Start.thy ===== *)
theory Image_Start
  imports Image_Boot Boot_Sector Kernel_Hardware
begin

text \<open>
  The image, the boot sector and the kernel together: from the files \<^verbatim>\<open>build.c\<close> is given to the
  first instruction of the user program.
\<close>

section \<open>What the kernel finds\<close>

text \<open>The descriptor a selector names, and its fields (see \<^verbatim>\<open>Descriptor\<close> in \<^verbatim>\<open>types.h\<close>).\<close>

definition descriptor_at :: "(dword \<Rightarrow> byte) \<Rightarrow> dword \<Rightarrow> descriptor" where
  "descriptor_at m a = \<lparr>d_limit = load_word a m, d_lowBase = load_word (a + 2) m, d_midBase = m (a + 4),
     d_flags1 = m (a + 5), d_flags2 = m (a + 6), d_highBase = m (a + 7)\<rparr>"

definition seg_base :: "descriptor \<Rightarrow> dword" where
  "seg_base d = ucast (d_lowBase d) OR push_bit 16 (ucast (d_midBase d)) OR push_bit 24 (ucast (d_highBase d))"

definition seg_limit :: "descriptor \<Rightarrow> dword" where
  "seg_limit d =
     (let limit = ucast (d_limit d) OR push_bit 16 (ucast (d_flags2 d AND 0xf))
      in if d_flags2 d AND 0x80 \<noteq> 0 then push_bit 12 limit OR 0xfff else limit)"

definition seg_dpl :: "descriptor \<Rightarrow> hword" where "seg_dpl d = ucast (drop_bit 5 (d_flags1 d) AND 3)"
definition seg_code :: "descriptor \<Rightarrow> bool" where "seg_code d \<longleftrightarrow> d_flags1 d AND 8 \<noteq> 0"

text \<open>A present segment over all of memory, at the level of the selector.\<close>

definition flat_segment :: "booted_pc \<Rightarrow> hword \<Rightarrow> bool" where
  "flat_segment pc sel \<longleftrightarrow>
     (let d = descriptor_at (pc_mem pc) (pc_gdt_base pc + ucast (sel AND 0xfff8))
      in d_flags1 d AND 0x80 \<noteq> 0 \<and> seg_base d = 0 \<and> seg_limit d = 0xFFFFFFFF \<and> seg_dpl d = sel AND 3)"

text \<open>The vector a line of the master controller raises, if it is not masked.\<close>

definition irq_vector :: "pic \<Rightarrow> nat \<Rightarrow> nat option" where
  "irq_vector p i = (if bit (p_mask p) i then None else Some (unat (p_base p) + i))"

lemma pic_setup_vectors:
  "fold pic_out ([(0x3f2, 0), (0x70, 0x80), (0x64, 0xD1), (0x60, 0xDF)] @ pic_setup) p = \<lparr>p_expect = 0, p_base = 0x20, p_mask = 0xFB\<rparr>"
  by (simp add: pic_setup_def)

lemma irq_lines:
  "i < 8 \<Longrightarrow> irq_vector (pic_out (0x21, 0xfc) \<lparr>p_expect = 0, p_base = 0x20, p_mask = v\<rparr>) i
     = (if i = 0 then Some 32 else if i = 1 then Some 33 else None)"
proof -
  assume "i < 8"
  then have "i \<in> {0, 1, 2, 3, 4, 5, 6, 7}" by auto
  then show ?thesis by (auto simp: irq_vector_def)
qed

section \<open>The sector of an image\<close>

lemma boot_data_length [simp]: "length boot_data = 77"
  by (simp add: boot_data_def gdt_bytes_def words_bytes_def)

lemma assembled_nth: "assembled bt \<Longrightarrow> 435 \<le> k \<Longrightarrow> k < 512 \<Longrightarrow> bt ! k = boot_data ! (k - 435)"
proof -
  assume "assembled bt" "435 \<le> k" "k < 512"
  then have "drop 435 bt ! (k - 435) = boot_data ! (k - 435)" "length bt = 512" by (auto simp: assembled_def)
  then show ?thesis using \<open>435 \<le> k\<close> \<open>k < 512\<close> by simp
qed

lemma assembled_ok: "assembled bt \<Longrightarrow> boot_sector_ok bt"
  using assembled_nth [of bt 510] assembled_nth [of bt 511]
  by (simp add: boot_sector_ok_def assembled_def boot_data_def gdt_bytes_def words_bytes_def low_half_def high_half_def)

text \<open>A disk with the image on it, from its first sector.\<close>

definition image_on :: "byte list \<Rightarrow> (nat \<Rightarrow> byte) \<Rightarrow> bool" where
  "image_on img disk \<longleftrightarrow> (\<forall>k<length img. disk k = img ! k)"

definition patched :: "byte list \<Rightarrow> byte list \<Rightarrow> nat \<Rightarrow> nat \<Rightarrow> bool" where
  "patched bt img ns nu \<longleftrightarrow> (\<forall>k<512. img ! k = (if 500 \<le> k \<and> k < 502 then image_size (of_nat ns) (of_nat nu) ! (k - 500)
     else bt[508 := 0, 509 := 0] ! k))"

lemma patched_nth:
  assumes "assembled bt" "patched bt img ns nu" "image_on img disk" "512 \<le> length img" "435 \<le> k" "k < 512" "k \<notin> {500, 501}"
  shows "disk k = boot_data ! (k - 435)"
proof -
  have bt: "length bt = 512" using assms(1) by (simp add: assembled_def)
  have "boot_data ! 73 = 0" "boot_data ! 74 = 0"
    by (simp_all add: boot_data_def gdt_bytes_def words_bytes_def low_half_def high_half_def)
  then have "bt[508 := 0, 509 := 0] ! k = boot_data ! (k - 435)"
    using assms(5,6) bt assembled_nth [OF assms(1,5,6)] by (auto simp: nth_list_update)
  moreover have "\<not> (500 \<le> k \<and> k < 502)" using assms(7) by auto
  ultimately show ?thesis using assms(2-4,6) by (auto simp: patched_def image_on_def)
qed

lemma patched_size:
  assumes "patched bt img ns nu" "image_on img disk" "512 \<le> length img" "ns + nu \<le> 0xFFFF0"
  shows "unat (disk_word disk 500) = (ns + nu + 15) div 16"
proof -
  define w where "w = ((of_nat ns :: dword) + of_nat nu + 15) div 16"
  have "unat ((of_nat ns :: dword) + of_nat nu + 15) = ns + nu + 15"
    using unat_of_nat32 [of "ns + nu + 15"] assms(4) by simp
  then have w: "unat w = (ns + nu + 15) div 16" by (simp add: w_def unat_div)
  have d: "disk 500 = ucast (w AND 0xff)" "disk 501 = ucast (drop_bit 8 w AND 0xff)"
    using assms(1-3) by (simp_all add: patched_def image_on_def image_size_def Let_def w_def)
  have m: "(0xff :: dword) = mask 8" by (simp add: mask_eq_exp_minus_1)
  have "disk_word disk 500 = ucast w"
    unfolding disk_word_def by (auto simp: d m bit_eq_iff bit_simps)
  moreover have "(ns + nu + 15) div 16 < 65536" using assms(4) by simp
  ultimately show ?thesis using w by (simp add: unsigned_ucast_eq take_bit_nat_eq_self)
qed

section \<open>From the sector to the kernel\<close>

lemma flat_segmentI:
  assumes "a = pc_gdt_base pc + ucast (sel AND 0xfff8)"
    and "pc_mem pc a = 0xff" "pc_mem pc (a + 1) = 0xff" "pc_mem pc (a + 2) = 0" "pc_mem pc (a + 3) = 0" "pc_mem pc (a + 4) = 0"
      "pc_mem pc (a + 5) = f" "pc_mem pc (a + 6) = 0xcf" "pc_mem pc (a + 7) = 0"
    and "f AND 0x80 \<noteq> 0" "ucast (drop_bit 5 f AND 3) = sel AND 3"
  shows "flat_segment pc sel"
proof -
  have "a + 2 + 1 = a + 3" by simp
  then have "descriptor_at (pc_mem pc) a = \<lparr>d_limit = 0xffff, d_lowBase = 0, d_midBase = 0, d_flags1 = f, d_flags2 = 0xcf, d_highBase = 0\<rparr>"
    using assms(2-9) by (simp only: descriptor_at_def load_word_def) simp
  then show ?thesis
    using assms(10,11) unfolding flat_segment_def assms(1) [symmetric]
    by (simp add: seg_base_def seg_limit_def seg_dpl_def)
qed

lemma gdt_nth:
  "i \<in> {2, 3, 4, 5} \<Longrightarrow> map (\<lambda>k. boot_data ! (8 * i + k)) [0..<8]
     = [0xff, 0xff, 0, 0, 0, if i = 2 then 0x9a else if i = 3 then 0x92 else if i = 4 then 0xfa else 0xf2, 0xcf, 0]"
  by (elim insertE emptyE)
    (simp_all add: boot_data_def gdt_bytes_def words_bytes_def low_half_def high_half_def upt_rec del: upt_rec_numeral)

lemma flat_segment_bytes:
  assumes base: "pc_gdt_base pc = 0x901b3" and at: "\<And>k. k < 56 \<Longrightarrow> pc_mem pc (0x901b3 + of_nat k) = boot_data ! k"
    and sel: "sel AND 0xfff8 = of_nat (8 * i)" "i \<in> {2, 3, 4, 5}" "sel AND 3 = (if i \<le> 3 then 0 else 3)"
  shows "flat_segment pc sel"
proof -
  let ?f = "if i = 2 then 0x9a else if i = 3 then 0x92 else if i = 4 then 0xfa else 0xf2 :: byte"
  define a where "a = 0x901b3 + (of_nat (8 * i) :: dword)"
  have u: "ucast (of_nat (8 * i) :: hword) = (of_nat (8 * i) :: dword)" by (rule ucast_of_nat16) (use sel(2) in auto)
  have m: "pc_mem pc (a + of_nat k) = map (\<lambda>k. boot_data ! (8 * i + k)) [0..<8] ! k" if "k < 8" for k
  proof -
    have "pc_mem pc (0x901b3 + of_nat (8 * i + k)) = boot_data ! (8 * i + k)" using that sel(2) by (intro at) auto
    then show ?thesis using that by (simp add: a_def add.assoc)
  qed
  note b = m [unfolded gdt_nth [OF sel(2)]]
  have "pc_mem pc a = 0xff" "pc_mem pc (a + 1) = 0xff" "pc_mem pc (a + 2) = 0" "pc_mem pc (a + 3) = 0" "pc_mem pc (a + 4) = 0"
    "pc_mem pc (a + 5) = ?f" "pc_mem pc (a + 6) = 0xcf" "pc_mem pc (a + 7) = 0"
    using b [of 0] b [of 1] b [of 2] b [of 3] b [of 4] b [of 5] b [of 6] b [of 7] by simp_all
  moreover have "?f AND 0x80 \<noteq> 0" "ucast (drop_bit 5 ?f AND 3) = sel AND 3" using sel(2) unfolding sel(3) by auto
  ultimately show ?thesis by (intro flat_segmentI [of a]) (simp_all add: a_def base sel(1) u del: of_nat_mult)
qed

lemma kernel_selectors:
  assumes "sel \<in> {KERNEL_CS, KERNEL_DS, USER_CS, USER_DS}"
  shows "\<exists>i\<in>{2, 3, 4, 5}. sel AND 0xfff8 = of_nat (8 * i) \<and> sel AND 3 = (if i \<le> 3 then 0 else 3)"
  using assms by auto

lemma sector_starts_kernel:
  assumes img: "assembled bt" "patched bt img ns nu" "image_on img disk" "length img = 512 + ns + nu" "ns + nu \<le> 0x7FFF0"
    and io: "serves disk int13" "at_7c00 disk m" "\<forall>j\<ge>n. a20 j"
  shows "\<exists>pc. bootsect int13 inp a20 m = Some pc \<and> loaded img (pc_mem pc) \<and> pc_cs pc = KERNEL_CS \<and> pc_eip pc = 0x10010
    \<and> pc_cr0 pc = 1 \<and> pc_gdt_base pc = GDT_START \<and> (\<forall>sel\<in>{KERNEL_CS, KERNEL_DS, USER_CS, USER_DS}. flat_segment pc sel)
    \<and> fold pic_out (pc_out pc) p = \<lparr>p_expect = 0, p_base = 0x20, p_mask = 0xFB\<rparr>"
proof -
  have l: "512 \<le> length img" using img(4) by simp
  note at = patched_nth [OF img(1-3) l]
  have z: "disk 497 = 0" using at [of 497] by (simp add: boot_data_def gdt_bytes_def words_bytes_def low_half_def high_half_def)
  have g: "disk_word disk 504 = 0x1B3" "disk_word disk 506 = 0x9"
    using at [of 504] at [of 505] at [of 506] at [of 507]
    by (simp_all add: disk_word_def boot_data_def gdt_bytes_def words_bytes_def low_half_def high_half_def)
  have w: "unat (disk_word disk 500) = (ns + nu + 15) div 16" using patched_size [OF img(2,3) l] img(5) by simp
  have lt: "unat (disk_word disk 500) < 0x8000" unfolding w using img(5) by simp
  from bootsect_ok [OF io(1,2) z lt io(3), of inp] obtain pc where
    pc: "bootsect int13 inp a20 m = Some pc"
      "\<And>k. k < 16 * unat (disk_word disk 500) \<Longrightarrow> pc_mem pc (0x10000 + of_nat k) = disk (512 + k)"
      "\<And>k. k < 512 \<Longrightarrow> pc_mem pc (0x90000 + of_nat k) = disk k"
      "pc_out pc = [(0x3f2, 0), (0x70, 0x80), (0x64, 0xD1), (0x60, 0xDF)] @ pic_setup"
      "pc_gdt_base pc = (ucast (disk_word disk 504) OR push_bit 16 (ucast (disk_word disk 506))) AND 0xffffff"
      "pc_cr0 pc = 1" "pc_cs pc = 0x10" "pc_eip pc = 0x10010" by blast
  have base: "pc_gdt_base pc = 0x901b3" unfolding pc(5) g by simp
  have "pc_mem pc (0x901b3 + of_nat k) = boot_data ! k" if "k < 56" for k
    using pc(3) [of "435 + k"] at [of "435 + k"] that by (simp add: add.assoc [symmetric])
  then have flat: "flat_segment pc sel" if "sel \<in> {KERNEL_CS, KERNEL_DS, USER_CS, USER_DS}" for sel
    using kernel_selectors [OF that] flat_segment_bytes [OF base] by blast
  have "loaded img (pc_mem pc)" unfolding loaded_def
  proof (intro allI impI)
    fix k assume k: "512 + k < length img"
    then have "k < 16 * unat (disk_word disk 500)" unfolding w img(4) by linarith
    then show "pc_mem pc (0x10000 + of_nat k) = img ! (512 + k)" using pc(2) k img(3) by (simp add: image_on_def)
  qed
  then show ?thesis using pc(1,6-8) base flat pic_setup_vectors [of p] by (intro exI [of _ pc]) (simp add: pc(4))
qed

lemma big_image_destroys_sector:
  assumes img: "assembled bt" "patched bt img ns nu" "image_on img disk" "length img = 512 + ns + nu"
      "0x7FFF0 < ns + nu" "ns + nu \<le> 0xFFFF0"
    and io: "serves disk int13" "at_7c00 disk m"
  shows "bootsect int13 inp a20 m = None"
proof -
  have l: "512 \<le> length img" using img(4) by simp
  have z: "disk 497 = 0"
    using patched_nth [OF img(1-3) l, of 497]
    by (simp add: boot_data_def gdt_bytes_def words_bytes_def low_half_def high_half_def)
  have "0x8000 \<le> unat (disk_word disk 500)" unfolding patched_size [OF img(2,3) l img(6)] using img(5) by simp
  then show ?thesis by (rule bootsect_too_big [OF io z])
qed

section \<open>The first process\<close>

text \<open>\<^verbatim>\<open>return_gate\<close> writes the last word of the data pages; the program below it is untouched.\<close>

lemma boot_data_frame: "boot_space L s \<Longrightarrow> k < 20 \<Longrightarrow> data_frame s 8 k = code_frame (8 + k)"
  using code_frame_lt [of "8 + k"] unat_of_nat32 [of "code_frame (8 + k)"] by (simp add: boot_space_def data_frame_def code_frame_def)

lemma program_below_last_word:
  assumes "boot_space L s" "n < 28 * 4096 - 4"
  shows "data_loc code_frame n \<notin> data_loc (data_frame s 8) ` {81916..<81920}"
proof
  assume "data_loc code_frame n \<in> data_loc (data_frame s 8) ` {81916..<81920}"
  then obtain j where j: "81916 \<le> j" "j < 81920" "data_loc code_frame n = data_loc (data_frame s 8) j" by auto
  have "j div 4096 = 19" using j(1,2) by simp
  then have "data_frame s 8 (j div 4096) = 310" using boot_data_frame [OF assms(1), of 19] by (simp add: code_frame_def)
  then have dj: "data_loc (data_frame s 8) j = of_nat (4096 * 310 + j mod 4096)" by (simp add: data_loc_def)
  have dn: "data_loc code_frame n = of_nat (4096 * (256 + 2 * (n div 4096)) + n mod 4096)" by (simp add: data_loc_def code_frame_def)
  have n: "n div 4096 \<le> 27" using assms(2) by simp
  have "unat (data_loc (data_frame s 8) j) = 4096 * 310 + j mod 4096"
    unfolding dj by (rule unat_of_nat32) (use mod_less_divisor [of 4096 j] in simp)
  moreover have "unat (data_loc code_frame n) = 4096 * (256 + 2 * (n div 4096)) + n mod 4096"
    unfolding dn by (rule unat_of_nat32) (use n mod_less_divisor [of 4096 n] in simp)
  ultimately have eq: "4096 * (256 + 2 * (n div 4096)) + n mod 4096 = 4096 * 310 + j mod 4096" using j(3) by simp
  have "j mod 4096 = j - 19 * 4096" using \<open>j div 4096 = 19\<close> by (simp add: modulo_nat_def)
  then have jm: "4092 \<le> j mod 4096" "j mod 4096 < 4096" using j(1,2) by simp_all
  have q: "q < 28 \<and> 26 < q" if "4096 * (256 + 2 * q) + r = 4096 * 310 + x" "4092 \<le> x" "x < 4096" "r < 4096" for q r x :: nat
    using that by simp
  have "n div 4096 = 27" using q [OF eq jm] by simp
  then have "n div 4096 = 27" "n mod 4096 = j mod 4096" using eq by simp_all
  then have "n = 27 * 4096 + j mod 4096" using div_mult_mod_eq [of n 4096] by simp
  then show False using assms(2) jm by simp
qed

text \<open>
  A machine that starts from a disk with the image: the BIOS serves that disk and has put its
  first sector at \<open>0x7c00\<close>, and the address line comes on at some time.
\<close>

definition pc_ready :: "byte list \<Rightarrow> disk_service \<Rightarrow> (nat \<Rightarrow> bool) \<Rightarrow> (dword \<Rightarrow> byte) \<Rightarrow> bool" where
  "pc_ready img int13 a20 m \<longleftrightarrow> (\<exists>disk n. image_on img disk \<and> serves disk int13 \<and> at_7c00 disk m \<and> (\<forall>j\<ge>n. a20 j))"

text \<open>The kernel's state when the sector jumps to it: its memory is the one the sector loaded.\<close>

definition after_boot :: "booted_pc \<Rightarrow> machine \<Rightarrow> machine" where
  "after_boot pc m = m\<lparr>kern := (kern m)\<lparr>mem := pc_mem pc\<rparr>\<rparr>"

lemma build_patched:
  assumes f: "files h bn = Some (mh @ bt)" "minix_header mh" "assembled bt" "files h sn = Some sys" "files h un = Some usr"
    and ok: "stat_ok h" "seekable h" "512 + length sys + length usr \<le> capacity h" "image b = []" "out_pos b = 0"
    and len: "12 \<le> length sys" "length sys + length usr \<le> 0xF0000" "length usr \<le> 28 * 4096"
  shows "\<exists>b'. build_main h [bn, sn, un] b = Inr b' \<and> length (image b') = 512 + length sys + length usr
    \<and> patched bt (image b') (length sys) (length usr)
    \<and> (\<forall>m. loaded (image b') m \<longrightarrow> image_ok m \<and> mem_dword m 0x10000 = of_nat (length sys)
         \<and> mem_dword m 0x10004 = of_nat (length usr)
         \<and> (\<forall>n<length usr. m (0x10000 + of_nat (length sys) + of_nat n) = usr ! n))"
  using image_boots [OF f(1,2) assembled_ok [OF f(3)] f(4,5) ok len] unfolding patched_def by blast

lemma kernel_starts_program:
  assumes m: "image_ok (mem (kern m))" "mem_dword (mem (kern m)) 0x10000 = of_nat (length sys)"
      "mem_dword (mem (kern m)) 0x10004 = of_nat (length usr)"
      "\<And>n. n < length usr \<Longrightarrow> mem (kern m) (0x10000 + of_nat (length sys) + of_nat n) = usr ! n"
    and len: "length usr \<le> 28 * 4096 - 4"
    and L: "layout_ok L" and pid: "PID_MAX (kern m) = 1"
    and lib: "\<And>s. \<exists>g. set_handlers s = s\<lparr>idt := g\<rparr>" "\<And>s. init_policy s = s"
      "\<And>s. console_init s = on_links (INIT_LIST_HEAD (Ptr CONSOLE_BLOCKED)) s"
  shows "\<exists>m'. kernel_main L set_handlers init_policy console_init m = Some m' \<and> in_user L 8 m'
    \<and> u_eip (context_of m') = L_USER_START \<and> gates_set L (kern m') \<and> port_21 m' = 0xfc
    \<and> (\<forall>n<length usr. mem (kern m') (data_loc code_frame n) = usr ! n)"
proof -
  obtain s' m' where k: "main_boot L set_handlers init_policy console_init (kern m) = Some s'"
    "kernel_main L set_handlers init_policy console_init m = Some m'" "in_user L 8 m'" "gates_set L (kern m')" "port_21 m' = 0xfc"
    "u_eip (context_of m') = L_USER_START"
    "\<And>a. a \<notin> data_loc (data_frame s' 8) ` {81916..<81920} \<Longrightarrow> mem (kern m') a = mem s' a"
    using kernel_main_ok [OF L m(1) pid lib] by blast
  have u: "unat (of_nat (length usr) :: dword) = length usr" using len by (intro unat_of_nat32) simp
  have b: "boot_space L s'" "\<And>n. n < length usr \<Longrightarrow> mem s' (data_loc code_frame n) = usr ! n"
    using main_boot_ok [OF L m(1) pid lib] k(1) m(2,3,4) u by auto
  have "mem (kern m') (data_loc code_frame n) = usr ! n" if "n < length usr" for n
  proof -
    have "data_loc code_frame n \<notin> data_loc (data_frame s' 8) ` {81916..<81920}"
      by (rule program_below_last_word [OF b(1)]) (use that len in simp)
    then show ?thesis using k(7) b(2) [OF that] by simp
  qed
  then show ?thesis using k(2-6) by blast
qed

section \<open>A small image\<close>

definition demo_header :: "byte list" where "demo_header = minix_hdr @ replicate 24 0"
definition demo_sector :: "byte list" where "demo_sector = replicate 435 0 @ boot_data"

definition demo_host :: host where
  "demo_host = \<lparr>files = [''bootsect'' \<mapsto> demo_header @ demo_sector, ''short'' \<mapsto> demo_header,
       ''system'' \<mapsto> replicate 16 7, ''user'' \<mapsto> [11, 22, 33, 44]],
     stat_ok = True, seekable = True, capacity = 1474560\<rparr>"

definition demo_build :: build where
  "demo_build = \<lparr>input = [], buf = (\<lambda>_. 0), image = [], out_pos = 0\<rparr>"

lemma demo_host_ok:
  "files demo_host ''bootsect'' = Some (demo_header @ demo_sector)" "minix_header demo_header" "assembled demo_sector"
  "files demo_host ''system'' = Some (replicate 16 7)" "files demo_host ''user'' = Some [11, 22, 33, 44]"
  "stat_ok demo_host" "seekable demo_host" "capacity demo_host = 1474560" "image demo_build = []" "out_pos demo_build = 0"
proof -
  show "minix_header demo_header"
    by (auto simp: minix_header_def demo_header_def minix_hdr_def nth_append)
  show "assembled demo_sector" by (simp add: assembled_def demo_sector_def)
qed (simp_all add: demo_host_def demo_build_def)

text \<open>A diskette with the image and nothing else, in a machine that serves it.\<close>

definition demo_disk :: "byte list \<Rightarrow> nat \<Rightarrow> byte" where
  "demo_disk img k = (if k < length img then img ! k else 0)"

definition demo_memory :: "byte list \<Rightarrow> dword \<Rightarrow> byte" where
  "demo_memory img a = demo_disk img (unat (a - 0x7c00))"

lemma demo_ready: "pc_ready img (bios_read (demo_disk img)) (\<lambda>_. True) (demo_memory img)"
proof -
  have "at_7c00 (demo_disk img) (demo_memory img)"
    unfolding at_7c00_def demo_memory_def using unat_of_nat32 by simp
  then show ?thesis
    unfolding pc_ready_def by (intro exI [of _ "demo_disk img"]) (simp add: image_on_def serves_def demo_disk_def)
qed

end
