(* ===== verification/Sockets.thy ===== *)
theory Sockets
  imports Kernel_Utils
begin

text \<open>
  The second program of the repository, the socket exercise under \<^verbatim>\<open>sockets/\<close>: connection set-up
  (\<^verbatim>\<open>socketMng.c\<close>), the server with its four schemes (\<^verbatim>\<open>serverSocket.c\<close>) and the client
  (\<^verbatim>\<open>clientSocket.c\<close>).  The results of the operating
  system's calls are inputs of the definitions; \<^verbatim>\<open>exit\<close> is a value of the result type.
  A result \<^const>\<open>None\<close> is an access outside a buffer.
\<close>

section \<open>socketMng.c\<close>

datatype 'a proc = Exits cint | Returns 'a

record sockaddr_in =
  sin_family :: hword
  sin_port :: hword
  s_addr :: dword

definition AF_INET :: hword where [simp]: "AF_INET = 2"
definition INADDR_ANY :: dword where [simp]: "INADDR_ANY = 0"
definition BACKLOG :: nat where [simp]: "BACKLOG = 10"

definition htons :: "hword \<Rightarrow> hword" where
  "htons w = push_bit 8 w OR drop_bit 8 w"

text \<open>\<open>socket_r\<close>, \<open>bind_r\<close>, \<open>listen_r\<close>: the results of \<^verbatim>\<open>socket\<close>, \<^verbatim>\<open>bind\<close> and \<^verbatim>\<open>listen\<close>.\<close>

definition createServerSocket :: "cint \<Rightarrow> (cint \<Rightarrow> sockaddr_in \<Rightarrow> cint) \<Rightarrow> (cint \<Rightarrow> nat \<Rightarrow> cint) \<Rightarrow> cint \<Rightarrow> cint proc" where
  "createServerSocket socket_r bind_r listen_r port =
     (let fd = socket_r
      in if fd = - 1 then Exits 1
         else let address = \<lparr>sin_family = AF_INET, sin_port = htons (ucast port), s_addr = INADDR_ANY\<rparr>
              in if bind_r fd address \<noteq> 0 then Exits 1
                 else if listen_r fd BACKLOG = - 1 then Exits 1
                 else Returns fd)"

definition acceptNewConnections :: "(cint \<Rightarrow> cint) \<Rightarrow> cint \<Rightarrow> cint proc" where
  "acceptNewConnections accept_r socket_fd =
     (let channel = accept_r socket_fd in if channel = - 1 then Exits 1 else Returns channel)"

text \<open>The descriptors closed on the way are the second component of the result.\<close>

definition clientConnection :: "cint \<Rightarrow> dword option \<Rightarrow> (cint \<Rightarrow> sockaddr_in \<Rightarrow> cint) \<Rightarrow> cint \<Rightarrow> cint \<times> cint list" where
  "clientConnection socket_r gethostbyname_r connect_r port =
     (let socket_fd = socket_r
      in if sint socket_fd < 0 then (socket_fd, [])
         else case gethostbyname_r of
             None \<Rightarrow> (- 1, [socket_fd])
           | Some h_addr \<Rightarrow>
               let ret = connect_r socket_fd \<lparr>sin_family = AF_INET, sin_port = htons (ucast port), s_addr = h_addr\<rparr>
               in if sint ret < 0 then (ret, [socket_fd]) else (socket_fd, []))"

section \<open>Text\<close>

definition BUFF :: nat where [simp]: "BUFF = 80"

definition bytes :: "string \<Rightarrow> byte list" where "bytes s = map of_char s"

text \<open>The string a buffer holds: its bytes before the first null byte.\<close>

definition cstr :: "byte list \<Rightarrow> byte list" where "cstr bs = takeWhile (\<lambda>b. b \<noteq> 0) bs"

text \<open>The conversion \<^verbatim>\<open>%d\<close> of \<^verbatim>\<open>sprintf\<close>.\<close>

fun decimal_text :: "nat \<Rightarrow> byte list" where
  "decimal_text n = (if n < 10 then [48 + of_nat n] else decimal_text (n div 10) @ [48 + of_nat (n mod 10)])"

declare decimal_text.simps [simp del]

definition percent_d :: "cint \<Rightarrow> byte list" where
  "percent_d v = (if sint v < 0 then 45 # decimal_text (nat (- sint v)) else decimal_text (nat (sint v)))"

lemma decimal_text_length: "n < 10 ^ k \<Longrightarrow> 0 < k \<Longrightarrow> length (decimal_text n) \<le> k"
proof (induction n arbitrary: k rule: decimal_text.induct)
  case (1 n)
  show ?case
  proof (cases "n < 10")
    case True
    then show ?thesis using 1(3) by (subst decimal_text.simps) simp
  next
    case False
    then obtain j where j: "k = Suc j" "0 < j" using 1(2,3) by (cases k; cases "k - 1") auto
    have "n div 10 < 10 ^ j" using 1(2) by (simp add: j(1) less_mult_imp_div_less mult.commute)
    then show ?thesis using 1(1) [OF False _ j(2)] False j(1) by (subst decimal_text.simps) simp
  qed
qed

lemma percent_d_length: "length (percent_d v) \<le> 11"
proof -
  have "nat (sint v) < 10 ^ 10" "nat (- sint v) < 10 ^ 10" using sint_lt [of v] sint_ge [of v] by simp_all
  from this [THEN decimal_text_length] show ?thesis by (simp add: percent_d_def)
qed

section \<open>doService\<close>

text \<open>
  The messages of the server and of the client; \<open>pid\<close> is the decimal text of \<^verbatim>\<open>getpid()\<close>.
\<close>

definition received_line :: "string \<Rightarrow> byte list \<Rightarrow> byte list \<Rightarrow> byte list" where
  "received_line who pid bs = bytes who @ bytes '' ['' @ pid @ bytes ''] received: '' @ cstr bs @ [10]"

definition end_line :: "byte list \<Rightarrow> byte list" where
  "end_line pid = bytes ''Server ['' @ pid @ bytes ''] ends service'' @ [10]"

text \<open>
  The stores stay inside the buffers: \<^verbatim>\<open>buff[ret] = 0\<close>, and the \<^verbatim>\<open>sprintf\<close> into \<^verbatim>\<open>buff2\<close> with
  its final null byte.
\<close>

definition message_fits :: "string \<Rightarrow> byte list \<Rightarrow> byte list \<Rightarrow> bool" where
  "message_fits who pid bs \<longleftrightarrow> length bs < BUFF \<and> length (received_line who pid bs) < BUFF"

datatype service_end = Ended | Exited

text \<open>
  \<open>sent\<close> are the messages written to the socket, \<open>terminal\<close> and \<open>errors\<close> the output to the
  descriptors 1 and 2, without the messages of \<^verbatim>\<open>perror\<close>; \<open>deleted\<close> are the sockets closed.
\<close>

record service =
  sent :: "byte list list"
  terminal :: "byte list"
  errors :: "byte list"
  deleted :: "cint list"

definition no_service :: service where
  "no_service = \<lparr>sent = [], terminal = [], errors = [], deleted = []\<rparr>"

definition deleteSocket :: "cint \<Rightarrow> service \<Rightarrow> service" where
  "deleteSocket socket_fd v = v\<lparr>deleted := deleted v @ [socket_fd]\<rparr>"

definition hola :: "byte list" where "hola = bytes ''hola ''"
definition caracola :: "byte list" where "caracola = take 8 (bytes ''caracola '')"

text \<open>
  The lists are the results of the successive calls of \<^verbatim>\<open>read\<close> (an error, or up to 80 bytes, none
  at the end of the stream) and of \<^verbatim>\<open>write\<close> to the socket (an error or not); the stream ends when
  the first list does, and a write past the second one fails.
\<close>

definition end_service :: "byte list \<Rightarrow> service \<Rightarrow> service" where
  "end_service pid v = v\<lparr>terminal := terminal v @ end_line pid\<rparr>"

fun doService :: "byte list \<Rightarrow> byte list option list \<Rightarrow> bool list \<Rightarrow> service \<Rightarrow> (service_end \<times> service) option" where
  "doService pid [] ws v = Some (Ended, end_service pid v)"
| "doService pid (None # rs) ws v = Some (Ended, end_service pid v)"
| "doService pid (Some bs # rs) ws v =
     (if bs = [] then Some (Ended, end_service pid v)
      else if \<not> message_fits ''Server'' pid bs then None
      else let v = v\<lparr>terminal := terminal v @ received_line ''Server'' pid bs\<rparr>
           in case ws of
                [] \<Rightarrow> Some (Exited, v)
              | w # ws' \<Rightarrow> if w then doService pid rs ws' (v\<lparr>sent := sent v @ [caracola]\<rparr>) else Some (Exited, v))"

section \<open>The server\<close>

text \<open>
  \<open>running\<close> are the children that have not ended.  A delivery of \<^verbatim>\<open>SIGCHLD\<close> stands for all
  children that ended since the last one: pending signals of one kind are merged.
\<close>

record server =
  MAX_CLIENTS :: cint
  NUM_CONECTIONS :: cint
  running :: nat

definition func_sigchild :: "server \<Rightarrow> server" where
  "func_sigchild s = s\<lparr>NUM_CONECTIONS := NUM_CONECTIONS s - 1\<rparr>"

definition child_signal :: "nat \<Rightarrow> server \<Rightarrow> server" where
  "child_signal n s = func_sigchild (s\<lparr>running := running s - n\<rparr>)"

text \<open>
  In the parent: \<open>pid\<close> is the result of \<^verbatim>\<open>fork\<close>.  \<^verbatim>\<open>NUM_CONECTIONS++\<close> is a load and a store; \<open>rs\<close>
  are the signals delivered before the load, \<open>rs'\<close> those between the two.
\<close>

definition doServiceFork :: "nat list \<Rightarrow> nat list \<Rightarrow> cint \<Rightarrow> server \<Rightarrow> server proc" where
  "doServiceFork rs rs' pid s =
     (if sint pid < 0 then Exits 1
      else let s = s\<lparr>running := running s + 1\<rparr>;
               s = fold child_signal rs s;
               n = NUM_CONECTIONS s;
               s = fold child_signal rs' s
           in Returns (s\<lparr>NUM_CONECTIONS := n + 1\<rparr>))"

text \<open>
  \<^verbatim>\<open>while (waitpid(-1,NULL,0) > 0);\<close> returns when no child is left; \<open>ds\<close> are the signals
  delivered meanwhile.
\<close>

definition wait_children :: "nat list \<Rightarrow> server \<Rightarrow> server" where
  "wait_children ds s = fold child_signal ds s"

definition boundedServerLoop :: "nat list \<Rightarrow> nat list \<Rightarrow> nat list \<Rightarrow> (cint \<Rightarrow> cint) \<Rightarrow> cint \<Rightarrow> cint \<Rightarrow> server \<Rightarrow> server proc" where
  "boundedServerLoop ds rs rs' accept_r pid socketFD s =
     (let s = (if sint (NUM_CONECTIONS s) \<ge> sint (MAX_CLIENTS s) then wait_children ds s else s)
      in case acceptNewConnections accept_r socketFD of
           Exits e \<Rightarrow> Exits e
         | Returns connectionFD \<Rightarrow> if sint connectionFD < 0 then Exits 1 else doServiceFork rs rs' pid s)"

definition unboundedServerLoop :: "nat list \<Rightarrow> nat list \<Rightarrow> (cint \<Rightarrow> cint) \<Rightarrow> cint \<Rightarrow> cint \<Rightarrow> server \<Rightarrow> server proc" where
  "unboundedServerLoop rs rs' accept_r pid socketFD s =
     (case acceptNewConnections accept_r socketFD of
        Exits e \<Rightarrow> Exits e
      | Returns connectionFD \<Rightarrow> if sint connectionFD < 0 then Exits 1 else doServiceFork rs rs' pid s)"

text \<open>The sequential scheme serves the connection itself; a failed service ends the server.\<close>

definition sequentialServerLoop :: "(cint \<Rightarrow> cint) \<Rightarrow> byte list \<Rightarrow> byte list option list \<Rightarrow> bool list \<Rightarrow> cint \<Rightarrow> service
    \<Rightarrow> service proc option" where
  "sequentialServerLoop accept_r pid rs ws socketFD v =
     (case acceptNewConnections accept_r socketFD of
        Exits e \<Rightarrow> Some (Exits e)
      | Returns connectionFD \<Rightarrow>
          if sint connectionFD < 0 then Some (Exits 1)
          else map_option (\<lambda>(e, v). if e = Exited then Exits 1 else Returns v) (doService pid rs ws v))"

text \<open>
  \<open>create_r\<close> is the result of \<^verbatim>\<open>pthread_create\<close>; the new thread runs \<^verbatim>\<open>doServiceThread\<close> on the
  connection.  \<^verbatim>\<open>exit\<close> in a thread ends the whole server.
\<close>

definition doServiceThread :: "byte list \<Rightarrow> byte list option list \<Rightarrow> bool list \<Rightarrow> service \<Rightarrow> service proc option" where
  "doServiceThread pid rs ws v =
     map_option (\<lambda>(e, v). if e = Exited then Exits 1 else Returns v) (doService pid rs ws v)"

definition threadedServerLoop :: "(cint \<Rightarrow> cint) \<Rightarrow> cint \<Rightarrow> cint \<Rightarrow> cint proc" where
  "threadedServerLoop accept_r create_r socketFD =
     (case acceptNewConnections accept_r socketFD of
        Exits e \<Rightarrow> Exits e
      | Returns connectionFD \<Rightarrow> if create_r \<noteq> 0 then Exits 1 else Returns connectionFD)"

datatype scheme = Sequential | Unbounded | Bounded | Threaded

text \<open>An unknown number leaves the function pointer as it is.\<close>

definition setScheme :: "cint \<Rightarrow> scheme option \<Rightarrow> scheme option" where
  "setScheme s ServerLoop =
     (if s = 1 then Some Sequential else if s = 2 then Some Unbounded else if s = 3 then Some Bounded
      else if s = 4 then Some Threaded else ServerLoop)"

text \<open>
  \<^verbatim>\<open>main\<close> up to its loop: \<open>args\<close> are the values of \<^verbatim>\<open>atoi\<close> of the arguments, \<open>create\<close> is
  \<^verbatim>\<open>createServerSocket\<close>.  The global pointer is null before \<^verbatim>\<open>setScheme\<close>.
\<close>

definition server_main :: "cint list \<Rightarrow> (cint \<Rightarrow> cint proc) \<Rightarrow> (cint \<times> scheme option \<times> server) proc" where
  "server_main args create =
     (if length args < 2 then Exits 1
      else let port = args ! 0; schem = args ! 1;
               max_clients = (if length args = 3 then args ! 2 else 100)
           in case create port of
                Exits e \<Rightarrow> Exits e
              | Returns socketFD \<Rightarrow>
                  if sint socketFD < 0 then Exits 1
                  else Returns (socketFD, setScheme schem None,
                         \<lparr>MAX_CLIENTS = max_clients, NUM_CONECTIONS = 0, running = 0\<rparr>))"

section \<open>The client\<close>

text \<open>The differences of the two fields of the two \<^verbatim>\<open>struct timeval\<close>, stored in an \<^verbatim>\<open>int\<close>.\<close>

definition msec_elapsed :: "int \<Rightarrow> int \<Rightarrow> int \<Rightarrow> int \<Rightarrow> cint" where
  "msec_elapsed init_sec init_usec end_sec end_usec =
     word_of_int (end_sec * 1000 + end_usec div 1000 - init_sec * 1000 + init_usec div 1000)"

text \<open>
  The loop of \<^verbatim>\<open>main\<close>: each iteration writes \<^verbatim>\<open>"hola "\<close> and reads the answer.  The list has the
  results of \<^verbatim>\<open>write\<close> and \<^verbatim>\<open>read\<close> of the successive iterations; an operation past its end fails.
\<close>

fun client_loop :: "byte list \<Rightarrow> nat \<Rightarrow> (bool \<times> byte list option) list \<Rightarrow> service \<Rightarrow> service proc option" where
  "client_loop pid 0 io v = Some (Returns v)"
| "client_loop pid (Suc k) [] v = Some (Exits 1)"
| "client_loop pid (Suc k) ((w, r) # io) v =
     (if \<not> w then Some (Exits 1)
      else let v = v\<lparr>sent := sent v @ [hola]\<rparr>
           in case r of
                None \<Rightarrow> Some (Exits 1)
              | Some bs \<Rightarrow>
                  if message_fits ''Client'' pid bs
                  then client_loop pid k io (v\<lparr>terminal := terminal v @ received_line ''Client'' pid bs\<rparr>)
                  else None)"

definition client_usage :: "byte list \<Rightarrow> byte list" where
  "client_usage arg0 = bytes ''Usage: '' @ arg0 @ bytes '' num_it hostname port'' @ [10]"

definition time_line :: "cint \<Rightarrow> byte list" where
  "time_line ms = bytes ''Time '' @ percent_d ms @ [10]"

text \<open>
  \<open>num_it\<close> is the value of \<^verbatim>\<open>atoi(argv[1])\<close>, \<open>connectionFD\<close> the result of
  \<^verbatim>\<open>clientConnection\<close>, \<open>ms\<close> the elapsed time \<^const>\<open>msec_elapsed\<close> gives for the two readings of
  the clock.
\<close>

definition client_main :: "byte list list \<Rightarrow> cint \<Rightarrow> cint \<Rightarrow> byte list \<Rightarrow> cint \<Rightarrow> (bool \<times> byte list option) list
    \<Rightarrow> service proc option" where
  "client_main argv num_it connectionFD pid ms io =
     (if length argv \<noteq> 4 then (if length (client_usage (argv ! 0)) < BUFF then Some (Exits 1) else None)
      else if sint connectionFD < 0 then Some (Exits 1)
      else case client_loop pid (nat (sint num_it)) io no_service of
             Some (Returns v) \<Rightarrow>
               let v = v\<lparr>terminal := terminal v @ [10] @ bytes ''Client ['' @ pid @ bytes ''] finishes'' @ [10]\<rparr>;
                   v = v\<lparr>errors := errors v @ time_line ms\<rparr>
               in Some (Returns (deleteSocket connectionFD v))
           | r \<Rightarrow> r)"

section \<open>Connections\<close>

lemma htons_involution: "htons (htons w) = w"
proof (rule bit_eqI)
  fix n assume "possible_bit TYPE(hword) n"
  then have "n < 16" by simp
  then show "bit (htons (htons w)) n = bit w n" by (cases "n < 8") (auto simp: htons_def bit_simps)
qed

lemma clientConnection_cases:
  "clientConnection fd host conn port = (v, closed) \<Longrightarrow>
     (0 \<le> sint v \<and> v = fd \<and> closed = []) \<or> (sint v < 0 \<and> (if 0 \<le> sint fd then closed = [fd] else closed = []))"
  by (auto simp: clientConnection_def Let_def split: if_splits option.splits)

section \<open>A conversation\<close>

lemma line_lengths [simp]: "length hola = 5" "length caracola = 8" "cstr hola = hola" "cstr caracola = caracola"
  by (simp_all add: hola_def caracola_def bytes_def cstr_def)

lemma doService_session:
  assumes "length pid \<le> 10"
  shows "doService pid (replicate k (Some hola) @ [Some []]) (replicate k True) v
    = Some (Ended, v\<lparr>sent := sent v @ replicate k caracola,
        terminal := terminal v @ concat (replicate k (received_line ''Server'' pid hola)) @ end_line pid\<rparr>)"
proof (induction k arbitrary: v)
  case (Suc k)
  have "message_fits ''Server'' pid hola" "hola \<noteq> []"
    using assms by (simp_all add: message_fits_def received_line_def bytes_def hola_def cstr_def)
  then show ?case by (simp add: Suc.IH Let_def)
qed (simp add: end_service_def)

lemma client_session:
  assumes "length pid \<le> 10"
  shows "client_loop pid k (replicate k (True, Some caracola)) v
    = Some (Returns (v\<lparr>sent := sent v @ replicate k hola,
        terminal := terminal v @ concat (replicate k (received_line ''Client'' pid caracola))\<rparr>))"
proof (induction k arbitrary: v)
  case (Suc k)
  have "message_fits ''Client'' pid caracola"
    using assms by (simp add: message_fits_def received_line_def bytes_def)
  then show ?case by (simp add: Suc.IH Let_def)
qed simp

text \<open>A message that fills the buffer is stored one byte past its end.\<close>

lemma doService_overflow: "length bs = 80 \<Longrightarrow> doService pid (Some bs # rs) ws v = None"
  by (auto simp: message_fits_def)

section \<open>The bound on the connections\<close>

text \<open>
  The server as a transition system: a signal for some ended children at any time, or one
  iteration of its loop, waiting for all children when the limit is reached, with signals
  in the middle of its increment of the counter.
\<close>

inductive server_step :: "server \<Rightarrow> server \<Rightarrow> bool" where
  signal: "0 < n \<Longrightarrow> n \<le> running s \<Longrightarrow> server_step s (child_signal n s)"
| iteration: "\<forall>d\<in>set (ds @ rs @ rs'). 0 < d \<Longrightarrow> sum_list ds = running s \<Longrightarrow>
    sum_list (rs @ rs') \<le> 1 + (if sint (MAX_CLIENTS s) \<le> sint (NUM_CONECTIONS s) then 0 else running s) \<Longrightarrow>
    sint (NUM_CONECTIONS s) < 2147483647 \<Longrightarrow>
    boundedServerLoop ds rs rs' accept_r pid socketFD s = Returns s' \<Longrightarrow> server_step s s'"

inductive_cases server_stepE: "server_step s s'"

definition server_inv :: "server \<Rightarrow> bool" where
  "server_inv s \<longleftrightarrow> int (running s) \<le> sint (NUM_CONECTIONS s) \<and> running s \<le> max 1 (nat (sint (MAX_CLIENTS s)))"

lemma child_signal_sels [simp]:
  "running (child_signal n s) = running s - n" "MAX_CLIENTS (child_signal n s) = MAX_CLIENTS s"
  "NUM_CONECTIONS (child_signal n s) = NUM_CONECTIONS s - 1"
  by (simp_all add: child_signal_def func_sigchild_def)

text \<open>
  A sequence of signals, with the counter up to \<open>e\<close> behind: a merged signal leaves it higher,
  and the difference never shrinks.
\<close>

definition behind :: "int \<Rightarrow> server \<Rightarrow> server \<Rightarrow> nat \<Rightarrow> bool" where
  "behind e s s' n \<longleftrightarrow> running s' = running s - n \<and> MAX_CLIENTS s' = MAX_CLIENTS s
     \<and> int (running s') \<le> sint (NUM_CONECTIONS s') + e \<and> sint (NUM_CONECTIONS s') \<le> sint (NUM_CONECTIONS s)
     \<and> sint (NUM_CONECTIONS s) - int (running s) \<le> sint (NUM_CONECTIONS s') - int (running s')"

lemma child_signals:
  assumes "\<forall>d\<in>set ds. 0 < d" "sum_list ds \<le> running s" "int (running s) \<le> sint (NUM_CONECTIONS s) + e" "e \<le> 1"
  shows "behind e s (fold child_signal ds s) (sum_list ds)"
  using assms(1-3)
proof (induction ds arbitrary: s)
  case (Cons d ds)
  have d: "0 < d" "d \<le> running s" using Cons.prems by auto
  have "sint (NUM_CONECTIONS (child_signal d s)) = sint (NUM_CONECTIONS s) - 1"
    using d Cons.prems(3) assms(4) sint_lt [of "NUM_CONECTIONS s"]
    by (simp add: sint_word_ariths signed_take_bit_int_eq_self)
  moreover from this have "behind e (child_signal d s) (fold child_signal ds (child_signal d s)) (sum_list ds)"
    using Cons.prems d by (intro Cons.IH) (simp_all add: of_nat_diff)
  ultimately show ?case using d Cons.prems(2) by (auto simp: behind_def of_nat_diff)
qed (simp add: behind_def)

text \<open>One iteration: the child is forked first and counted later.\<close>

lemma doServiceFork_behind:
  assumes r: "doServiceFork rs rs' pid s = Returns s'" "\<forall>d\<in>set (rs @ rs'). 0 < d" "sum_list (rs @ rs') \<le> running s + 1"
    and s: "int (running s) \<le> sint (NUM_CONECTIONS s)" "sint (NUM_CONECTIONS s) < 2147483647"
  shows "running s' \<le> running s + 1 \<and> MAX_CLIENTS s' = MAX_CLIENTS s \<and> int (running s') \<le> sint (NUM_CONECTIONS s')
    \<and> sint (NUM_CONECTIONS s) - int (running s) \<le> sint (NUM_CONECTIONS s') - int (running s')"
proof -
  let ?s = "s\<lparr>running := running s + 1\<rparr>"
  define s1 where "s1 = fold child_signal rs ?s"
  define s2 where "s2 = fold child_signal rs' s1"
  have s1: "behind 1 ?s s1 (sum_list rs)" unfolding s1_def by (rule child_signals) (use r s in auto)
  then have s2: "behind 1 s1 s2 (sum_list rs')" unfolding s2_def by (intro child_signals) (use r in \<open>auto simp: behind_def\<close>)
  have "s' = s2\<lparr>NUM_CONECTIONS := NUM_CONECTIONS s1 + 1\<rparr>"
    using r(1) by (auto simp: doServiceFork_def Let_def s1_def s2_def split: if_splits)
  moreover have "sint (NUM_CONECTIONS s1 + 1) = sint (NUM_CONECTIONS s1) + 1"
    using s1 s(2) by (simp add: behind_def sint_word_ariths signed_take_bit_int_eq_self)
  ultimately show ?thesis using s1 s2 by (auto simp: behind_def)
qed

lemma server_step_keeps:
  assumes "server_step s s'" "server_inv s"
  shows "server_inv s' \<and> MAX_CLIENTS s' = MAX_CLIENTS s
    \<and> sint (NUM_CONECTIONS s) - int (running s) \<le> sint (NUM_CONECTIONS s') - int (running s')"
  using assms(1)
proof cases
  case (signal n)
  then show ?thesis using assms(2) child_signals [of "[n]" s 0] by (auto simp: server_inv_def behind_def)
next
  case (iteration ds rs rs' accept_r pid socketFD)
  have i: "int (running s) \<le> sint (NUM_CONECTIONS s)" "running s \<le> max 1 (nat (sint (MAX_CLIENTS s)))"
    using assms(2) by (auto simp: server_inv_def)
  define s1 where "s1 = (if sint (NUM_CONECTIONS s) \<ge> sint (MAX_CLIENTS s) then wait_children ds s else s)"
  have w: "behind 0 s (wait_children ds s) (sum_list ds)"
    unfolding wait_children_def by (rule child_signals) (use iteration(1,2) i in auto)
  have s1: "int (running s1) \<le> sint (NUM_CONECTIONS s1)" "sint (NUM_CONECTIONS s1) < 2147483647" "MAX_CLIENTS s1 = MAX_CLIENTS s"
    "running s1 + 1 \<le> max 1 (nat (sint (MAX_CLIENTS s)))" "sum_list (rs @ rs') \<le> running s1 + 1"
    "sint (NUM_CONECTIONS s) - int (running s) \<le> sint (NUM_CONECTIONS s1) - int (running s1)"
    using w i iteration(2-4) by (auto simp: s1_def behind_def)
  have "doServiceFork rs rs' pid s1 = Returns s'"
    using iteration(5) unfolding boundedServerLoop_def s1_def [symmetric] Let_def by (auto split: proc.splits if_splits)
  from doServiceFork_behind [OF this _ s1(5,1,2)] iteration(1) s1(3,4,6) show ?thesis by (auto simp: server_inv_def)
qed

lemma server_run_inv:
  assumes "server_step\<^sup>*\<^sup>* s s'" "server_inv s"
  shows "server_inv s' \<and> MAX_CLIENTS s' = MAX_CLIENTS s
    \<and> sint (NUM_CONECTIONS s) - int (running s) \<le> sint (NUM_CONECTIONS s') - int (running s')"
  using assms by (induction rule: rtranclp_induct) (fastforce dest: server_step_keeps)+

end
