(* ===== verification/Launcher.thy ===== *)
theory Launcher
  imports Sockets
begin

text \<open>
  \<^verbatim>\<open>launchClient.c\<close>: a process that starts a number of clients, counts those alive at the same
  time and writes the counts to a file.  The results of the operating system's calls are
  inputs; a result \<^const>\<open>None\<close> is a store behind the buffer \<^verbatim>\<open>buf\<close>.
\<close>

section \<open>The program\<close>

text \<open>\<open>l_running\<close> are the clients not yet reaped, \<open>launch_info\<close> the bytes written to that file.\<close>

record launcher =
  max_concurrent :: cint
  current_concurrent :: cint
  l_running :: nat
  launch_info :: "byte list"

text \<open>The handler reaps every client that has ended, up to \<open>n\<close> of them.\<close>

definition trat_sigchld :: "nat \<Rightarrow> launcher \<Rightarrow> launcher" where
  "trat_sigchld n s =
     (let n = min n (l_running s)
      in s\<lparr>l_running := l_running s - n, current_concurrent := current_concurrent s - of_nat n\<rparr>)"

text \<open>The file is not checked after \<^verbatim>\<open>open\<close>; a write to the descriptor \<open>-1\<close> does nothing.\<close>

definition write_info :: "cint \<Rightarrow> byte list \<Rightarrow> launcher \<Rightarrow> launcher" where
  "write_info fd bs s = (if sint fd < 0 then s else s\<lparr>launch_info := launch_info s @ bs\<rparr>)"

definition current_line :: "cint \<Rightarrow> byte list" where
  "current_line v = bytes ''CURRENT MAX CONCURRENT CLIENTS: '' @ percent_d v @ [10]"

definition max_line :: "cint \<Rightarrow> byte list" where
  "max_line v = bytes ''MAX CONCURRENT CLIENTS: '' @ percent_d v @ [10]"

text \<open>
  The child of an iteration, with the results of \<^verbatim>\<open>open\<close> and \<^verbatim>\<open>execlp\<close>: its standard error goes to
  a file of its own when that can be opened, and it becomes a client.
\<close>

record client_start =
  results :: "byte list option"
  client_argv :: "byte list list"

definition launch_child :: "(byte list \<Rightarrow> cint) \<Rightarrow> bool \<Rightarrow> byte list \<Rightarrow> byte list list \<Rightarrow> cint \<Rightarrow> client_start proc option" where
  "launch_child open_r exec_ok dirName argv i =
     (let buf = dirName @ bytes ''/client_'' @ percent_d i
      in if BUFF \<le> length buf then None
         else let err = (if sint (open_r buf) < 0 then None else Some buf)
              in Some (if exec_ok
                       then Returns \<lparr>results = err, client_argv = [bytes ''clientSocket'', argv ! 2, argv ! 3, argv ! 4]\<rparr>
                       else Exits 1))"

text \<open>
  The parent's side: \<open>pidh\<close> is the result of \<^verbatim>\<open>fork\<close>.  \<^verbatim>\<open>current_concurrent++\<close> is a load and a
  store; \<open>rs\<close> are the signals handled before the load, \<open>ss\<close> those between the two.
\<close>

definition launch_one :: "cint \<Rightarrow> nat list \<Rightarrow> nat list \<Rightarrow> cint \<Rightarrow> launcher \<Rightarrow> launcher proc" where
  "launch_one pidh rs ss fd s =
     (if pidh = - 1 then Exits 1
      else let s = fold trat_sigchld rs (s\<lparr>l_running := l_running s + 1\<rparr>);
               n = current_concurrent s;
               s = fold trat_sigchld ss s;
               s = s\<lparr>current_concurrent := n + 1\<rparr>
           in Returns (if sint (current_concurrent s) > sint (max_concurrent s)
                       then let s = s\<lparr>max_concurrent := current_concurrent s\<rparr>
                            in write_info fd (current_line (max_concurrent s)) s
                       else s))"

text \<open>
  The loop: the list has for each iteration the result of \<^verbatim>\<open>fork\<close> and the signals handled before,
  inside and after the increment; a \<^verbatim>\<open>fork\<close> past its end fails.
\<close>

type_synonym launch = "cint \<times> nat list \<times> nat list \<times> nat list"

fun launch_loop :: "nat \<Rightarrow> launch list \<Rightarrow> cint \<Rightarrow> launcher \<Rightarrow> launcher proc" where
  "launch_loop 0 ls fd s = Returns s"
| "launch_loop (Suc k) [] fd s = Exits 1"
| "launch_loop (Suc k) ((pidh, rs, ss, rs') # ls) fd s =
     (case launch_one pidh rs ss fd s of
        Exits e \<Rightarrow> Exits e
      | Returns s \<Rightarrow> launch_loop k ls fd (fold trat_sigchld rs' s))"

text \<open>
  \<^verbatim>\<open>while (waitpid(-1,NULL,0) > 0);\<close> returns when no client is left.  A client reaped here is not
  seen by the handler; \<open>rs\<close> are the signals that found some.
\<close>

definition wait_clients :: "nat list \<Rightarrow> launcher \<Rightarrow> launcher" where
  "wait_clients rs s = (fold trat_sigchld rs s)\<lparr>l_running := 0\<rparr>"

definition launch_usage :: "byte list \<Rightarrow> byte list" where
  "launch_usage arg0 = bytes ''usage: '' @ arg0 @ bytes '' num_clients num_it hostname port [FolderName]'' @ [10]"

text \<open>
  \<^verbatim>\<open>main\<close>: \<open>nclients\<close> is \<^verbatim>\<open>atoi(argv[1])\<close>, \<open>stat_r\<close>, \<open>mkdir_r\<close> and \<open>open_r\<close> are the results of
  these calls for a name, \<open>ms\<close> is the elapsed time, with the expression of \<^const>\<open>msec_elapsed\<close>.
\<close>

definition launcher_main :: "byte list list \<Rightarrow> cint \<Rightarrow> (byte list \<Rightarrow> cint) \<Rightarrow> (byte list \<Rightarrow> cint) \<Rightarrow> (byte list \<Rightarrow> cint)
    \<Rightarrow> launch list \<Rightarrow> nat list \<Rightarrow> cint \<Rightarrow> launcher proc option" where
  "launcher_main argv nclients stat_r mkdir_r open_r ls rs ms =
     (if length argv < 5 then (if length (launch_usage (argv ! 0)) < BUFF then Some (Exits 1) else None)
      else let dirName = (if length argv = 6 then argv ! 5 else bytes ''execClient'')
           in if stat_r dirName = - 1 \<and> mkdir_r dirName = - 1 then Some (Exits 1)
              else let buf = dirName @ bytes ''/launch_info''
                   in if BUFF \<le> length buf then None
                      else let fd = open_r buf
                           in case launch_loop (nat (sint nclients)) ls fd
                                     \<lparr>max_concurrent = 0, current_concurrent = 0, l_running = 0, launch_info = []\<rparr> of
                                Exits e \<Rightarrow> Some (Exits e)
                              | Returns s \<Rightarrow>
                                  let s = wait_clients rs s;
                                      s = write_info fd (max_line (max_concurrent s)) s;
                                      s = write_info fd (time_line ms) s
                                  in Some (Returns s))"

section \<open>What it counts\<close>

text \<open>
  The clients alive when each one is counted, from the forks and the ends alone: the reference
  for the two counters.
\<close>

fun alive :: "launch list \<Rightarrow> nat \<Rightarrow> nat list" where
  "alive [] r = []"
| "alive ((pidh, rs, ss, rs') # ls) r =
     (let n = r + 1 - sum_list rs - sum_list ss in n # alive ls (n - sum_list rs'))"

text \<open>No signal is handled between the load and the store of an increment.\<close>

definition undisturbed :: "launch list \<Rightarrow> bool" where
  "undisturbed ls \<longleftrightarrow> (\<forall>l\<in>set ls. fst (snd (snd l)) = [])"

lemma lines_fit: "length (current_line v) < BUFF" "length (max_line v) < BUFF" "length (time_line v) < BUFF"
  using percent_d_length [of v] by (simp_all add: current_line_def max_line_def time_line_def bytes_def)

lemma trat_sigchld_sels [simp]:
  "l_running (trat_sigchld n s) = l_running s - n" "max_concurrent (trat_sigchld n s) = max_concurrent s"
  "current_concurrent (trat_sigchld n s) = current_concurrent s - of_nat (min n (l_running s))"
  "launch_info (trat_sigchld n s) = launch_info s"
  by (auto simp: trat_sigchld_def Let_def)

lemma trat_sigchld_run:
  "l_running (fold trat_sigchld rs s) = l_running s - sum_list rs
   \<and> current_concurrent (fold trat_sigchld rs s) - of_nat (l_running (fold trat_sigchld rs s))
       = current_concurrent s - of_nat (l_running s)
   \<and> max_concurrent (fold trat_sigchld rs s) = max_concurrent s \<and> launch_info (fold trat_sigchld rs s) = launch_info s"
proof (induction rs arbitrary: s)
  case (Cons n rs)
  have "of_nat (l_running s - n) = (of_nat (l_running s) - of_nat (min n (l_running s)) :: cint)"
    by (cases "n \<le> l_running s") (simp_all add: of_nat_diff)
  then show ?case using Cons.IH [of "trat_sigchld n s"] by (auto simp: diff_diff_eq)
qed simp

lemma trat_sigchld_current:
  "current_concurrent (fold trat_sigchld rs s) = current_concurrent s - of_nat (l_running s) + of_nat (l_running s - sum_list rs)"
proof -
  have "current_concurrent (fold trat_sigchld rs s) - of_nat (l_running s - sum_list rs)
      = current_concurrent s - of_nat (l_running s)" using trat_sigchld_run [of rs s] by metis
  then show ?thesis by (metis diff_add_cancel)
qed

text \<open>
  Between iterations \<open>r\<close> clients are alive, the counter is \<open>c\<close> and \<open>M\<close> is the largest number
  counted; a disturbed increment leaves the counter too high.
\<close>

definition counts :: "launcher \<Rightarrow> nat \<Rightarrow> nat \<Rightarrow> nat \<Rightarrow> bool" where
  "counts s r c M \<longleftrightarrow> l_running s = r \<and> current_concurrent s = of_nat c \<and> max_concurrent s = of_nat M \<and> r \<le> c \<and> c \<le> M"

lemma counts_signals:
  assumes "counts s r c M"
  shows "counts (fold trat_sigchld rs s) (r - sum_list rs) (c - (r - (r - sum_list rs))) M"
proof -
  have c: "r \<le> c" "current_concurrent s = of_nat c" "l_running s = r" using assms by (auto simp: counts_def)
  have "current_concurrent (fold trat_sigchld rs s) = of_nat c - of_nat r + of_nat (r - sum_list rs)"
    unfolding trat_sigchld_current c(2,3) ..
  also have "\<dots> = of_nat (c - (r - (r - sum_list rs)))"
    using c(1) by (cases "sum_list rs \<le> r") (simp_all add: of_nat_diff)
  finally have "current_concurrent (fold trat_sigchld rs s) = of_nat (c - (r - (r - sum_list rs)))" .
  moreover have "l_running (fold trat_sigchld rs s) = r - sum_list rs" "max_concurrent (fold trat_sigchld rs s) = of_nat M"
    using trat_sigchld_run [of rs s] assms by (simp_all add: counts_def)
  moreover have "r - sum_list rs \<le> c - (r - (r - sum_list rs))" "c - (r - (r - sum_list rs)) \<le> M"
    using assms unfolding counts_def by linarith+
  ultimately show ?thesis unfolding counts_def by blast
qed

lemma launch_one_ok:
  fixes rs ss :: "nat list"
  assumes "counts s r c M" "pidh \<noteq> - 1" "M < 2147483647" "0 \<le> sint fd"
  defines "n \<equiv> r + 1 - sum_list rs - sum_list ss"
  shows "\<exists>s' c'. launch_one pidh rs ss fd s = Returns s' \<and> counts s' n c' (max M c') \<and> c' \<le> M + 1
    \<and> (ss = [] \<and> c = r \<longrightarrow> c' = n)
    \<and> launch_info s' = launch_info s @ concat (map (\<lambda>m. current_line (of_nat m)) [M + 1..<max M c' + 1])"
proof -
  define a where "a = r + 1 - (r + 1 - sum_list rs)"
  define c' where "c' = c + 1 - a"
  define s1 where "s1 = fold trat_sigchld rs (s\<lparr>l_running := l_running s + 1\<rparr>)"
  define s2 where "s2 = fold trat_sigchld ss s1"
  have c: "l_running s = r" "current_concurrent s = of_nat c" "max_concurrent s = of_nat M" "r \<le> c" "c \<le> M"
    using assms(1) by (auto simp: counts_def)
  have "current_concurrent s1 + 1 = of_nat c + 1 - of_nat (r + 1) + of_nat (r + 1 - sum_list rs)"
    unfolding s1_def trat_sigchld_current using c(1,2) by simp
  also have "\<dots> = of_nat c'" using c(4) by (cases "sum_list rs \<le> r + 1") (simp_all add: c'_def a_def of_nat_diff)
  finally have n1: "current_concurrent s1 + 1 = of_nat c'" .
  have s2: "l_running s2 = n" "max_concurrent s2 = of_nat M" "launch_info s2 = launch_info s"
    using trat_sigchld_run [of ss s1] trat_sigchld_run [of rs "s\<lparr>l_running := l_running s + 1\<rparr>"] c
    by (auto simp: s2_def s1_def n_def)
  have b: "n \<le> c'" "c' \<le> M + 1" "ss = [] \<and> c = r \<longrightarrow> c' = n" using c(4,5) by (auto simp: n_def c'_def a_def)
  have si: "sint (of_nat c' :: cint) = int c'" "sint (of_nat M :: cint) = int M"
    using b(2) assms(3) by (simp_all add: sint_of_nat_small)
  have eq: "launch_one pidh rs ss fd s = Returns (let s = s2\<lparr>current_concurrent := of_nat c'\<rparr>
      in if sint (current_concurrent s) > sint (max_concurrent s)
         then write_info fd (current_line (current_concurrent s)) (s\<lparr>max_concurrent := current_concurrent s\<rparr>) else s)"
    using assms(2) n1 by (simp add: launch_one_def s2_def s1_def Let_def)
  show ?thesis
  proof (cases "M < c'")
    case True
    then have m: "c' = M + 1" using b(2) by simp
    define s' where "s' = s2\<lparr>current_concurrent := of_nat c', max_concurrent := of_nat c', launch_info := launch_info s @ current_line (of_nat c')\<rparr>"
    have "launch_one pidh rs ss fd s = Returns s'"
      unfolding eq using True assms(4) s2 si by (simp add: Let_def write_info_def s'_def)
    moreover have "counts s' n c' (max M c')" using s2 b(1) True by (simp add: s'_def counts_def)
    moreover have "launch_info s' = launch_info s @ concat (map (\<lambda>m. current_line (of_nat m)) [M + 1..<max M c' + 1])"
      using m by (simp add: s'_def)
    ultimately show ?thesis using b by blast
  next
    case False
    define s' where "s' = s2\<lparr>current_concurrent := of_nat c'\<rparr>"
    have "launch_one pidh rs ss fd s = Returns s'" unfolding eq using False s2 si by (simp add: Let_def s'_def)
    moreover have "counts s' n c' (max M c')" using s2 b(1) False by (simp add: s'_def counts_def max_absorb1)
    moreover have "launch_info s' = launch_info s @ concat (map (\<lambda>m. current_line (of_nat m)) [M + 1..<max M c' + 1])"
      using False s2(3) by (simp add: s'_def max_absorb1)
    ultimately show ?thesis using b by blast
  qed
qed

lemma upt_append: "i \<le> j \<Longrightarrow> j \<le> k \<Longrightarrow> [i..<j] @ [j..<k] = [i..<k]"
  using upt_add_eq_append [of i j "k - j"] by simp

lemma fold_max_mono: "(M :: nat) \<le> N \<Longrightarrow> fold max xs M \<le> fold max xs N"
  by (induction xs arbitrary: M N) (auto intro: max.mono)

text \<open>
  The run of the loop.  The lines are the numbers from the old maximum to the new one, each
  once; the new maximum is at least the reference count, and equal to it when the counter
  was exact and no increment is disturbed.
\<close>

definition counted :: "nat \<Rightarrow> nat \<Rightarrow> nat \<Rightarrow> launch list \<Rightarrow> nat \<Rightarrow> bool" where
  "counted r c M ls M' \<longleftrightarrow> M \<le> M' \<and> M' \<le> M + length ls \<and> fold max (alive ls r) M \<le> M'
     \<and> (undisturbed ls \<and> c = r \<longrightarrow> M' = fold max (alive ls r) M)"

lemma counted_step:
  assumes "counted (n - sum_list rs') c2 (max M c1) ls M'" "n \<le> c1" "c1 \<le> M + 1" "n = r + 1 - sum_list rs - sum_list ss"
    and "ss = [] \<and> c = r \<Longrightarrow> c1 = n" "c1 = n \<Longrightarrow> c2 = n - sum_list rs'"
  shows "counted r c M ((pidh, rs, ss, rs') # ls) M'"
proof -
  have "fold max (alive ls (n - sum_list rs')) (max n M) \<le> fold max (alive ls (n - sum_list rs')) (max M c1)"
    by (rule fold_max_mono) (use assms(2) in auto)
  moreover have "undisturbed ((pidh, rs, ss, rs') # ls) \<longleftrightarrow> ss = [] \<and> undisturbed ls" by (simp add: undisturbed_def)
  moreover have A: "fold max (alive ((pidh, rs, ss, rs') # ls) r) M = fold max (alive ls (n - sum_list rs')) (max n M)"
    using assms(4) by (simp add: Let_def)
  moreover have mc: "M \<le> max M c1" "max M c1 \<le> Suc M" using assms(3) by simp_all
  moreover have "M \<le> M'" "M' \<le> M + Suc (length ls)" "fold max (alive ls (n - sum_list rs')) (max M c1) \<le> M'"
    "undisturbed ls \<and> c2 = n - sum_list rs' \<longrightarrow> M' = fold max (alive ls (n - sum_list rs')) (max M c1)"
    using assms(1) mc unfolding counted_def by linarith+
  ultimately show ?thesis using assms(5,6) unfolding counted_def A by (auto simp: max.commute simp del: alive.simps)
qed

lemma launch_loop_ok:
  assumes "counts s r c M" "\<forall>l\<in>set ls. fst l \<noteq> - 1" "M + length ls < 2147483648" "0 \<le> sint fd"
  shows "\<exists>s' r' c' M'. launch_loop (length ls) ls fd s = Returns s' \<and> counts s' r' c' M' \<and> counted r c M ls M'
    \<and> launch_info s' = launch_info s @ concat (map (\<lambda>m. current_line (of_nat m)) [M + 1..<M' + 1])"
  using assms(1-3)
proof (induction ls arbitrary: s r c M)
  case Nil
  then show ?case by (intro exI [of _ s] exI [of _ r] exI [of _ c] exI [of _ M]) (simp add: counted_def)
next
  case (Cons l ls)
  obtain pidh rs ss rs' where l: "l = (pidh, rs, ss, rs')" by (cases l)
  define n where "n = r + 1 - sum_list rs - sum_list ss"
  obtain s1 c1 where s1: "launch_one pidh rs ss fd s = Returns s1" "counts s1 n c1 (max M c1)" "c1 \<le> M + 1" "ss = [] \<and> c = r \<longrightarrow> c1 = n"
    "launch_info s1 = launch_info s @ concat (map (\<lambda>m. current_line (of_nat m)) [M + 1..<max M c1 + 1])"
    using launch_one_ok [OF Cons.prems(1) _ _ assms(4), of pidh rs ss] Cons.prems(2,3) by (auto simp: l n_def)
  define c2 where "c2 = c1 - (n - (n - sum_list rs'))"
  define s2 where "s2 = fold trat_sigchld rs' s1"
  have s2: "counts s2 (n - sum_list rs') c2 (max M c1)" "launch_info s2 = launch_info s1"
    using counts_signals [OF s1(2)] trat_sigchld_run [of rs' s1] by (simp_all add: s2_def c2_def)
  have "max M c1 + length ls < 2147483648" using Cons.prems(3) s1(3) by simp
  from Cons.IH [OF s2(1) _ this] Cons.prems(2) obtain s' r' c' M' where
    s': "launch_loop (length ls) ls fd s2 = Returns s'" "counts s' r' c' M'" "counted (n - sum_list rs') c2 (max M c1) ls M'"
    "launch_info s' = launch_info s2 @ concat (map (\<lambda>m. current_line (of_nat m)) [max M c1 + 1..<M' + 1])"
    by auto
  have "[M + 1..<max M c1 + 1] @ [max M c1 + 1..<M' + 1] = [M + 1..<M' + 1]"
    using s'(3) by (intro upt_append) (auto simp: counted_def)
  then have "launch_info s' = launch_info s @ concat (map (\<lambda>m. current_line (of_nat m)) [M + 1..<M' + 1])"
    unfolding s'(4) s2(2) s1(5) by (metis append.assoc concat_append map_append)
  moreover have "counted r c M (l # ls) M'"
    unfolding l by (rule counted_step [OF s'(3) _ s1(3) n_def]) (use s1(2,4) in \<open>auto simp: counts_def c2_def\<close>)
  moreover have "launch_loop (length (l # ls)) (l # ls) fd s = Returns s'" using s1(1) s'(1) by (simp add: l s2_def)
  ultimately show ?case using s'(2) by blast
qed

text \<open>A whole run.\<close>

lemma launcher_main_log:
  assumes "5 \<le> length argv" "sint nclients = int (length ls)" "\<forall>l\<in>set ls. fst l \<noteq> - 1"
    and dir: "dir = (if length argv = 6 then argv ! 5 else bytes ''execClient'')" "length dir < 68"
    and "stat_r dir \<noteq> - 1 \<or> mkdir_r dir \<noteq> - 1" "0 \<le> sint (open_r (dir @ bytes ''/launch_info''))"
  shows "\<exists>s M. launcher_main argv nclients stat_r mkdir_r open_r ls rs ms = Some (Returns s)
    \<and> launch_info s = concat (map (\<lambda>m. current_line (of_nat m)) [1..<M + 1]) @ max_line (of_nat M) @ time_line ms
    \<and> l_running s = 0 \<and> sint (max_concurrent s) = int M \<and> fold max (alive ls 0) 0 \<le> M \<and> M \<le> length ls
    \<and> (undisturbed ls \<longrightarrow> M = fold max (alive ls 0) 0)"
proof -
  let ?s = "\<lparr>max_concurrent = 0, current_concurrent = 0, l_running = 0, launch_info = []\<rparr> :: launcher"
  let ?fd = "open_r (dir @ bytes ''/launch_info'')"
  have len: "length ls < 2147483648" using assms(2) sint_lt [of nclients] by simp
  have "counts ?s 0 0 0" by (simp add: counts_def)
  from launch_loop_ok [OF this assms(3) _ assms(7)] len obtain s r c M where
    s: "launch_loop (length ls) ls ?fd ?s = Returns s" "counts s r c M" "counted 0 0 0 ls M"
      "launch_info s = concat (map (\<lambda>m. current_line (of_nat m)) [1..<M + 1])"
    by auto
  have M: "fold max (alive ls 0) 0 \<le> M" "M \<le> length ls" "undisturbed ls \<longrightarrow> M = fold max (alive ls 0) 0"
    using s(3) by (auto simp: counted_def)
  have buf: "length (bytes ''/launch_info'') = 12" by (simp add: bytes_def)
  define s1 where "s1 = wait_clients rs s"
  have s1: "launch_info s1 = launch_info s" "l_running s1 = 0" "max_concurrent s1 = of_nat M"
    using s(2) trat_sigchld_run [of rs s] by (simp_all add: s1_def wait_clients_def counts_def)
  have "launcher_main argv nclients stat_r mkdir_r open_r ls rs ms
    = Some (Returns (write_info ?fd (time_line ms) (write_info ?fd (max_line (max_concurrent s1)) s1)))"
    unfolding launcher_main_def dir(1) [symmetric] using assms(1,2,6) dir(2) s(1) buf by (auto simp: Let_def s1_def)
  then show ?thesis
    using s1 s(4) assms(7) M len by (intro exI [of _ "write_info ?fd (time_line ms) (write_info ?fd (max_line (max_concurrent s1)) s1)"]
      exI [of _ M]) (simp add: write_info_def sint_of_nat_small)
qed

end
