(* ===== verification/Spec2Isabelle.thy ===== *)
theory Spec2Isabelle
  imports Machine_Demo User_Kernel User_Program Image_Start Launcher
begin

text \<open>
  ZeOS, a small teaching kernel for the i386, its user library, the tool that builds its disk
  image, and the socket exercise of the same repository: a verification of the C sources.

  The program.  \<^verbatim>\<open>build.c\<close> runs on the host and concatenates boot sector, kernel and user
  program.  The boot sector loads the image, and \<^verbatim>\<open>main\<close> of \<^verbatim>\<open>system.c\<close> sets up descriptor
  tables, paging (\<^verbatim>\<open>mm.c\<close>), the process table and the first two tasks (\<^verbatim>\<open>sched.c\<close>) and enters
  user mode.  From then on the kernel runs in system calls (\<^verbatim>\<open>entry.S\<close>, \<^verbatim>\<open>sys_call_table.S\<close>,
  \<^verbatim>\<open>sys.c\<close>) and interrupts (\<^verbatim>\<open>interrupt.c\<close>).  Processes move between a free, a ready and a
  console queue (\<^verbatim>\<open>list.c\<close>) under a round-robin policy; output goes through \<^verbatim>\<open>devices.c\<close> to the
  screen of \<^verbatim>\<open>io.c\<close>; user buffers are reached with the copy routines of \<^verbatim>\<open>utils.c\<close>.  \<^verbatim>\<open>libc.c\<close>
  wraps the calls for \<^verbatim>\<open>user.c\<close>.

  The theories, with the sources they translate.
  \<^item> \<^verbatim>\<open>Zeos_Prelude\<close>: integer types, the constants of the headers, lemmas on words, lists and the
    option monad.
  \<^item> \<^verbatim>\<open>Kernel_List\<close>: \<^verbatim>\<open>list.c\<close>, \<^verbatim>\<open>list.h\<close> as pointer assignments over a map from anchors to their
    two links; the predicate \<open>dlist\<close> relates such a map to a sequence, and the locale
    \<open>intrusive_queue\<close> is the interface the queues are used through.
  \<^item> \<^verbatim>\<open>Kernel_Utils\<close>: the copy loops over any byte store (locale \<open>byte_store\<close>, interpreted for
    paged memory and for kernel buffers), \<^verbatim>\<open>access_ok\<close>, \<^verbatim>\<open>do_div\<close>.
  \<^item> \<^verbatim>\<open>Kernel_IO\<close>: \<^verbatim>\<open>io.c\<close>, \<^verbatim>\<open>devices.c\<close>.
  \<^item> \<^verbatim>\<open>Kernel_State\<close>: the structures and globals as records; \<open>kernel\<close> is the whole state.  Kernel
    stacks are words of the process table entry, page tables are words at the addresses the
    code computes, and \<open>layout\<close> has the link-time addresses.
  \<^item> \<^verbatim>\<open>Kernel_MM\<close>: \<^verbatim>\<open>mm.c\<close>.  \<^verbatim>\<open>Kernel_Sched\<close>: \<^verbatim>\<open>sched.c\<close>, with the context switch down to each
    pushed and popped word.  \<^verbatim>\<open>Kernel_Sys\<close>: \<^verbatim>\<open>sys.c\<close>.  \<^verbatim>\<open>Kernel_Interrupt\<close>: \<^verbatim>\<open>interrupt.c\<close> and the
    dispatch.  \<^verbatim>\<open>Kernel_Boot\<close>: \<^verbatim>\<open>system.c\<close>.
  \<^item> \<^verbatim>\<open>Kernel_Policy\<close>: the abstraction of the queues, and the locale \<open>scheduling_policy\<close>, the
    contract of the four policy pointers, interpreted for the round-robin functions.
  \<^item> \<^verbatim>\<open>Kernel_Memory\<close>, \<^verbatim>\<open>Kernel_Invariant\<close>: frame ownership and address spaces, the global
    invariant \<open>kinv\<close>.  \<^verbatim>\<open>Kernel_Fork\<close>, \<^verbatim>\<open>Kernel_Handlers\<close>, \<^verbatim>\<open>Kernel_Calls\<close>: what each handler does
    and that it keeps the invariant.
  \<^item> \<^verbatim>\<open>Kernel_Run\<close>: the kernel as a step relation and the states it reaches; turns of the round
    robin.
  \<^item> \<^verbatim>\<open>Kernel_Entry\<close>: the processor with all its registers, selectors and flags, and \<^verbatim>\<open>entry.S\<close>
    instruction by instruction; \<^verbatim>\<open>Kernel_Isolation\<close>, \<^verbatim>\<open>Kernel_Resume\<close>: what a process finds when
    it gets the processor back.  \<^verbatim>\<open>Kernel_Hardware\<close>: \<^verbatim>\<open>hardware.c\<close> and the whole of \<^verbatim>\<open>main\<close>.
  \<^item> \<^verbatim>\<open>Kernel_Spec\<close>: an abstract machine of processes with private memories, and the simulation
    (locale \<open>forward_simulation\<close>, interpreted for the two step relations).
  \<^item> \<^verbatim>\<open>Kernel_Demo\<close>, \<^verbatim>\<open>Machine_Demo\<close>: concrete machines on which the properties are applied.
  \<^item> \<^verbatim>\<open>User_Libc\<close>, \<^verbatim>\<open>User_Kernel\<close>: \<^verbatim>\<open>libc.c\<close> and the computations of \<^verbatim>\<open>user.c\<close>, over an abstract
    trap and over the kernel's own entry.  \<^verbatim>\<open>User_Program\<close>: the printing of \<^verbatim>\<open>user.c\<close> as the bytes
    written, its workloads as trees of what each process does.
  \<^item> \<^verbatim>\<open>Image_Build\<close>: \<^verbatim>\<open>build.c\<close>.  \<^verbatim>\<open>Boot_Sector\<close>: \<^verbatim>\<open>bootsect.S\<close>, its read loop on 16-bit registers,
    its tables and the interrupt controller it programs.  \<^verbatim>\<open>Image_Boot\<close>, \<^verbatim>\<open>Image_Start\<close>: the sizes
    recorded in the image and read by the kernel, and the whole way from the files to the first
    process.
  \<^item> \<^verbatim>\<open>Sockets\<close>, \<^verbatim>\<open>Launcher\<close>: the programs under \<^verbatim>\<open>sockets/\<close>.

  Conventions.  A fault of the processor or an access outside an object is \<^const>\<open>None\<close>; error codes
  are the values the code returns.  Integers are words of their width.  Reads of the time
  stamp counter take the next value of an arbitrary sequence.  No definition needs fuel: the
  loops are structural or have a decreasing measure, except the list traversals, the loop of
  \<^verbatim>\<open>sys_write\<close>, \<^verbatim>\<open>strlen\<close>, \<^verbatim>\<open>fib\<close>, and the read loop and the wait for A20 of the boot sector,
  which are partial functions in the option type, shown to return.  A C function called from
  \<^verbatim>\<open>entry.S\<close> has a frame of \<open>n\<close> words, any number up to 986, the bound that keeps it inside
  the 1024 words of a kernel stack; \<open>left\<close> are the values it leaves in its argument words,
  which are its own to assign to; \<open>ret\<close> is the address behind the call.

  What is shown.  The kernel as a whole: the invariant in every reachable state, the
  refinement of the abstract processes, what a process sees of preemption, of interrupts and of
  its system calls, fork down to the registers of the child, isolation, exit, the clock,
  absence of starvation, boot down to the first instruction in user mode.  Process and
  memory management on the remaining paths, among them the address spaces, the frame
  accounting and the allocator as a search.  Copying, division, the system calls with their
  errors.  Lists, screen, keyboard, user library, and the end of the user
  program.  The disk image, the boot sector that loads it, and both composed with the kernel.
  The bound of the socket server, a
  conversation, the launcher's file.

  Hypotheses on code outside the sources.  \<open>set_handlers\<close> (exception handlers of the vendor
  library) changes only the interrupt table; \<open>init_policy\<close> leaves the round-robin pointers;
  \<open>emul\<close> and \<open>show_clock\<close> change only the screen; the console's initialisation makes the
  head of its queue empty.  Of the disk service of the BIOS (\<open>int13\<close>) only requests inside one
  track and one block of 64 KB are known to copy their sectors; the BIOS has put the first
  sector at \<open>0x7c00\<close>, and the address line A20 comes on some time after it is asked for.  They
  are satisfied by the instances of the witnesses.

  Not modelled.  The binary libraries with \<^verbatim>\<open>sys_read\<close>, the contents of the frames of nested C
  calls (a handler called from \<^verbatim>\<open>entry.S\<close> is one step: it runs with interrupts disabled) and of
  the boot sector's stack, and the texts \<^verbatim>\<open>perror\<close> writes in the socket programs.  The
  remaining lines of the headers are prototypes, comments and macros that no source uses.
\<close>

section \<open>The kernel as a whole\<close>











text \<open>
  C6. \<^verbatim>\<open>sys_fork\<close> with a free process table entry succeeds: it returns the new identifier, the
  child is queued behind the ready processes with a fresh stack frame for \<^verbatim>\<open>ret_from_fork\<close>, its
  data pages hold the parent's bytes, its kernel stack the parent's saved context, no other
  process' memory or entry changes, and the invariant holds again.
\<close>

theorem fork_creates_copy:
  assumes "layout_ok L" "kinv L s c i (ch # F) R B" "c \<noteq> i" "current L s = Some c"
    and "ebp (cpu s) = elem_addr (task_base L) c (Suc j)" "14 \<le> j" "Suc j < 1024"
  shows "\<exists>s'. sys_fork L s = Some (PID_MAX s + 1, s') \<and> kinv L s' c i F (R @ [ch]) B
    \<and> fresh L s' ch (ret_from_fork_addr L) j \<and> PID (task_of s' ch) = PID_MAX s + 1
    \<and> (\<forall>n<81920. user_data s' ch n = user_data s c n)
    \<and> (\<forall>k>Suc j. stack (task s' ch) k = stack (task s c) k)
    \<and> (\<forall>t\<in>live i (ch # F). \<forall>n<81920. user_data s' t n = user_data s t n)
    \<and> (\<forall>t. t \<noteq> c \<longrightarrow> t \<noteq> ch \<longrightarrow> task s' t = task s t) \<and> cpu s' = cpu s"
  using sys_fork_ok [OF assms] unfolding forked_def by blast

theorem fork_creates_copy_witness:
  "\<exists>s'. sys_fork demo_layout demo_entry = Some (2, s') \<and> kinv demo_layout s' 8 9 [6, 5, 4, 3, 2, 1, 0] [7] []
    \<and> PID (task_of s' 7) = 2 \<and> user_data s' 7 5 = user_data demo_entry 8 5"
  using fork_creates_copy [OF demo_layout_ok demo_entry_ok(1) _ demo_entry_ok(4,6)] demo_entry_ok(3) by auto

text \<open>
  C7. A system call from user mode and back: for every call but \<^verbatim>\<open>exit\<close> and the two of the
  library, when its C function returns a value the trap returns to the process with that value in
  \<^verbatim>\<open>eax\<close> and every other register, selector and flag as it was, except for the registers
  that carried arguments the function may have assigned to.  A number out of range gives
  \<open>-ENOSYS\<close> in the same way.
\<close>

theorem trap_round_trip:
  assumes L: "layout_ok L" and u: "in_user L c m" and n: "n \<le> 986" and g: "gate_dpl (idt (kern m) 0x80) = 3"
  shows "(0 \<le> sint (m_eax m) \<and> sint (m_eax m) \<le> 40 \<and> returning_call (sys_call_table ! unat (m_eax m))
      \<and> system_call_handler L P rd pol (m_eax m) (ebx (cpu (kern m))) (m_ecx m) (m_edx m) (in_handler L c ret n m) = Some (out, s')
      \<longrightarrow> (\<exists>v m'. out = Return v
        \<and> Option.bind (int_n L 0x80 m) (system_call_entry L P rd pol ret (of_nat (4 * n)) left) = Some (None, m')
        \<and> context_of m' = (with_args (take (params (sys_call_table ! unat (m_eax m))) left) (context_of m))\<lparr>u_eax := v\<rparr>
        \<and> mem (kern m') = mem s'))
    \<and> (sint (m_eax m) < 0 \<or> 40 < sint (m_eax m)
      \<longrightarrow> (\<exists>m'. Option.bind (int_n L 0x80 m) (system_call_entry L P rd pol ret (of_nat (4 * n)) left) = Some (None, m')
        \<and> context_of m' = (context_of m)\<lparr>u_eax := - ENOSYS\<rparr> \<and> mem (kern m') = mem (kern m)))"
proof (intro conjI impI)
  assume h: "0 \<le> sint (m_eax m) \<and> sint (m_eax m) \<le> 40 \<and> returning_call (sys_call_table ! unat (m_eax m))
      \<and> system_call_handler L P rd pol (m_eax m) (ebx (cpu (kern m))) (m_ecx m) (m_edx m) (in_handler L c ret n m) = Some (out, s')"
  obtain v m' f r where m': "out = Return v"
    "Option.bind (int_n L 0x80 m) (system_call_entry L P rd pol ret (of_nat (4 * n)) left) = Some (None, m')"
    "context_of m' = (with_args (take (params (sys_call_table ! unat (m_eax m))) left) (context_of m))\<lparr>u_eax := v\<rparr>"
    "kern m' = (poke c f s')\<lparr>cpu := r\<rparr>"
    using trap_returns [OF L u n g, of P rd pol ret out s' left] h by blast
  have "mem (kern m') = mem s'" unfolding m'(4) by (simp add: poke_def)
  then show "\<exists>v m'. out = Return v
        \<and> Option.bind (int_n L 0x80 m) (system_call_entry L P rd pol ret (of_nat (4 * n)) left) = Some (None, m')
        \<and> context_of m' = (with_args (take (params (sys_call_table ! unat (m_eax m))) left) (context_of m))\<lparr>u_eax := v\<rparr>
        \<and> mem (kern m') = mem s'" using m'(1-3) by blast
next
  assume "sint (m_eax m) < 0 \<or> 40 < sint (m_eax m)"
  from trap_out_of_range [OF u g this, of P rd pol ret "of_nat (4 * n)" left] obtain m' f r where
    m': "Option.bind (int_n L 0x80 m) (system_call_entry L P rd pol ret (of_nat (4 * n)) left) = Some (None, m')"
      "context_of m' = (context_of m)\<lparr>u_eax := - ENOSYS\<rparr>" "kern m' = (poke c f (kern m))\<lparr>cpu := r\<rparr>" by blast
  have "mem (kern m') = mem (kern m)" unfolding m'(3) by (simp add: poke_def)
  then show "\<exists>m'. Option.bind (int_n L 0x80 m) (system_call_entry L P rd pol ret (of_nat (4 * n)) left) = Some (None, m')
        \<and> context_of m' = (context_of m)\<lparr>u_eax := - ENOSYS\<rparr> \<and> mem (kern m') = mem (kern m)" using m'(1,2) by blast
qed

theorem trap_round_trip_witness:
  "\<exists>m'. Option.bind (int_n demo_layout 0x80 (demo_machine demo_boot 20)) (system_call_entry demo_layout (rr_policy demo_layout)
       (\<lambda>_ _ _ _. None) (\<lambda>_ _ _ _. None) 0x14234 (of_nat (4 * 100)) []) = Some (None, m')
     \<and> context_of m' = (context_of (demo_machine demo_boot 20))\<lparr>u_eax := PID (task_of demo_boot 8)\<rparr>"
proof -
  let ?m = "demo_machine demo_boot 20" and ?no = "\<lambda>_ _ _ _. None"
  let ?s = "in_handler demo_layout 8 0x14234 100 ?m"
  have le: "(100 :: nat) \<le> 986" and g: "gate_dpl (idt (kern ?m) 0x80) = 3" using demo_gate by simp_all
  have "stack_room demo_layout ?s 8" using in_handler_phase [OF le] by (simp add: user_phase_def)
  then have cur: "current demo_layout ?s = Some 8" by (intro stack_room_current) simp_all
  have t: "sys_call_table ! 20 = SYS_GETPID" by (simp add: sys_call_table_def)
  obtain s' where "sys_getpid demo_layout ?s = Some (PID (task_of ?s 8), s')" using brief_call [OF cur] by blast
  then have "system_call_handler demo_layout (rr_policy demo_layout) ?no ?no (m_eax ?m) (ebx (cpu (kern ?m))) (m_ecx ?m) (m_edx ?m) ?s
      = Some (Return (PID (task_of demo_boot 8)), s')"
    using t by (simp add: system_call_handler_def returning_def in_handler_keeps)
  then show ?thesis
    using trap_round_trip [OF demo_layout_ok demo_in_user(1) le g, of "rr_policy demo_layout" ?no ?no "0x14234" "Return (PID (task_of demo_boot 8))" s' "[]"] t
    by (auto simp: returning_call_def)
qed

text \<open>
  C8. \<^verbatim>\<open>sys_exit\<close>: the process leaves, its entry joins the end of the free queue with identifier
  \<open>-1\<close>, exactly its twenty data frames become free, and the next ready process (or the idle
  task) continues, with the invariant.
\<close>

theorem exit_releases:
  assumes "layout_ok L" "kinv L s c i F R B" "c \<noteq> i" "stack_room L s c"
  shows "\<exists>r s'. sys_exit L (rr_policy L) s = Some (r, s') \<and> kinv L s' (next_task R i) i (F @ [c]) (tl R) B
    \<and> PID (task_of s' c) = - 1 \<and> (\<forall>t. t \<noteq> c \<longrightarrow> PID (task_of s' t) = PID (task_of s t))
    \<and> free_frames s' = free_frames s \<union> frames_of s c \<and> mem s' = mem s \<and> PID_MAX s' = PID_MAX s"
  using rr.exit_ok [OF assms] by blast

theorem exit_releases_witness:
  "\<exists>r s'. sys_exit demo_layout (rr_policy demo_layout) (demo_forks 1) = Some (r, s')
    \<and> kinv demo_layout s' 7 9 [6, 5, 4, 3, 2, 1, 0, 8] [] [] \<and> PID (task_of s' 8) = - 1"
  using exit_releases [OF demo_layout_ok demo_fork1(1) _ demo_fork1(3)] by (auto simp: next_task_def)





text \<open>
  C11. The boot sequence ends in the invariant: task 9 is the idle task, task 8 the first process
  with identifier 1, all others are free, and the user image that follows the kernel in memory
  is in the frames of the first process.
\<close>

theorem boot_establishes:
  assumes "layout_ok L" "image_ok (mem s)" "PID_MAX s = 1"
    and "\<And>s. \<exists>g. set_handlers s = s\<lparr>idt := g\<rparr>" "\<And>s. init_policy s = s"
    and "\<And>s. console_init s = on_links (INIT_LIST_HEAD (Ptr CONSOLE_BLOCKED)) s"
  shows "\<exists>s'. main_boot L set_handlers init_policy console_init s = Some s'
    \<and> kinv L s' 8 9 [7, 6, 5, 4, 3, 2, 1, 0] [] [] \<and> pids_ok s' 9 [7, 6, 5, 4, 3, 2, 1, 0]
    \<and> zeos_ticks s' = 0
    \<and> (\<forall>n<unat (mem_dword (mem s) 0x10004). mem s' (data_loc code_frame n)
         = mem s (0x10000 + mem_dword (mem s) 0x10000 + of_nat n))"
  using main_boot_ok [OF assms] by blast

theorem boot_establishes_witness:
  "\<exists>s'. main_boot demo_layout (\<lambda>s. s) (\<lambda>s. s) console_head demo_start = Some s'
    \<and> kinv demo_layout s' 8 9 [7, 6, 5, 4, 3, 2, 1, 0] [] [] \<and> mem s' (data_loc code_frame 2) = 33"
proof -
  from boot_establishes [OF demo_layout_ok demo_image_ok demo_start_sels refl refl] obtain s' where s':
    "main_boot demo_layout (\<lambda>s. s) (\<lambda>s. s) console_head demo_start = Some s'"
    "kinv demo_layout s' 8 9 [7, 6, 5, 4, 3, 2, 1, 0] [] []"
    "\<forall>n<4. mem s' (data_loc code_frame n) = mem demo_start (0x10000 + 16 + of_nat n)"
    unfolding demo_image by (auto simp del: on_links_eq)
  moreover have "mem demo_start (0x10000 + 16 + of_nat 2) = 33" by (simp add: demo_start_def demo_mem_def)
  ultimately show ?thesis by fastforce
qed





section \<open>Process management\<close>





text \<open>
  C16. Blocking: the running process goes to the end of the console queue with its registers
  saved, and the next ready process (or the idle task) continues.
\<close>

theorem block_parks:
  assumes "layout_ok L" "kinv L s c i F R B" "c \<noteq> i" "stack_room L s c"
  shows "\<exists>r s'. block_process L (rr_policy L) (Ptr CONSOLE_BLOCKED) s = Some (r, s')
    \<and> kinv L s' (next_task R i) i F (tl R) (B @ [c]) \<and> suspended L s' c (cpu s)
    \<and> (\<forall>t. PID (task_of s' t) = PID (task_of s t))"
  using rr.block_ok [OF assms] by blast

theorem block_parks_witness:
  "\<exists>r s'. block_process demo_layout (rr_policy demo_layout) (Ptr CONSOLE_BLOCKED) (demo_forks 1) = Some (r, s')
    \<and> kinv demo_layout s' 7 9 [6, 5, 4, 3, 2, 1, 0] [] [8] \<and> suspended demo_layout s' 8 (cpu (demo_forks 1))"
  using block_parks [OF demo_layout_ok demo_fork1(1) _ demo_fork1(3)] by (auto simp: next_task_def)



section \<open>Memory\<close>





text \<open>
  C20. \<^verbatim>\<open>alloc_frame\<close> is a search for the first free one of the frames 256, 258, \<open>\<dots>\<close>, 1022: it
  marks that frame used, and gives \<open>-1\<close> with the map unchanged when there is none.
\<close>

theorem alloc_frame_is_search:
  "alloc_frame s = (case find (\<lambda>f. phys_mem s f = FREE_FRAME) (map (\<lambda>k. 256 + 2 * k) [0..<384]) of
      None \<Rightarrow> (- 1, s) | Some f \<Rightarrow> (of_nat f, s\<lparr>phys_mem := (phys_mem s)(f := USED_FRAME)\<rparr>))"
  using alloc_frame_find [of s] unfolding user_frames_def .



text \<open>
  C22. \<^verbatim>\<open>copy_data\<close> moves exactly the bytes asked for: for mapped, non-overlapping ranges the
  destination holds the source bytes afterwards and nothing else in memory changes, whatever
  the size modulo four.
\<close>

theorem copy_data_moves:
  assumes src: "\<forall>n<N. translate L (p + of_nat n) s = Some (src n)"
    and dst: "\<forall>n<N. translate L (q + of_nat n) s = Some (dst n)"
    and d: "inj_on dst {..<N}" "src ` {..<N} \<inter> dst ` {..<N} = {}" and N: "N < 2147483648"
  shows "\<exists>s'. copy_data (vread L) (vwrite L) p q (of_nat N) s = Some s'
    \<and> (\<forall>n<N. mem s' (dst n) = mem s (src n)) \<and> (\<forall>a. a \<notin> dst ` {..<N} \<longrightarrow> mem s' a = mem s a)"
proof -
  let ?put = "\<lambda>pa v s. s\<lparr>mem := (mem s)(pa := v)\<rparr>" and ?vs = "map (\<lambda>r. mem s r) (map src [0..<N])"
  let ?out = "put_all ?put (map dst [0..<N]) ?vs s"
  have "run_at (translate L) p s (map src [0..<N])" "run_at (translate L) q s (map dst [0..<N])"
    unfolding run_at_iff using src dst by simp_all
  then have "copy_data (vread L) (vwrite L) p q (of_nat N) s = Some ?out"
    using d(2) sint_of_nat_small [OF N] by (intro vm.copy_data_spec) (auto simp: atLeast0LessThan)
  moreover have "mem ?out (dst n) = mem s (src n)" if "n < N" for n
    using vm.get_put_all [of "map dst [0..<N]" ?vs n s] d(1) that by (simp add: distinct_map atLeast0LessThan)
  moreover have "mem ?out a = mem s a" if "a \<notin> dst ` {..<N}" for a
    using that by (intro vm.get_put_all_other) (simp add: atLeast0LessThan)
  ultimately show ?thesis by blast
qed

theorem copy_data_moves_witness:
  "\<exists>s'. copy_data (vread demo_layout) (vwrite demo_layout) 0x108000 (0x108000 + of_nat 4096) (of_nat 7) demo_boot = Some s'
    \<and> mem s' (data_loc (data_frame demo_boot 8) (4096 + 6)) = mem demo_boot (data_loc (data_frame demo_boot 8) 6)"
proof -
  let ?src = "\<lambda>n. data_loc (data_frame demo_boot 8) n" and ?dst = "\<lambda>n. data_loc (data_frame demo_boot 8) (4096 + n)"
  note t = data_translate [OF demo_layout_ok demo_boot_ok(2)] and inj = data_loc_inj_on [OF demo_boot_ok(2)]
  have a: "\<forall>n<7. translate demo_layout (0x108000 + of_nat n) demo_boot = Some (?src n)" using t by simp
  have b: "\<forall>n<7. translate demo_layout (0x108000 + of_nat 4096 + of_nat n) demo_boot = Some (?dst n)"
    using t [of "4096 + _"] by (simp add: add.assoc)
  have c: "inj_on ?dst {..<7}" "?src ` {..<7} \<inter> ?dst ` {..<7} = {}"
    using inj_onD [OF inj] by (fastforce simp: inj_on_def)+
  obtain s' where s': "copy_data (vread demo_layout) (vwrite demo_layout) 0x108000 (0x108000 + of_nat 4096) (of_nat 7) demo_boot = Some s'"
    "\<forall>n<7. mem s' (?dst n) = mem demo_boot (?src n)"
    using copy_data_moves [OF a b c] by auto
  have "mem s' (?dst 6) = mem demo_boot (?src 6)" by (rule s'(2) [rule_format]) simp
  with s'(1) show ?thesis by (intro exI conjI)
qed

text \<open>
  C23. \<^verbatim>\<open>do_div\<close>, which divides a 64-bit number with two 32-bit divisions, is exact for every
  non-zero divisor: it never raises a divide error and yields quotient and remainder.
\<close>

theorem do_div_correct:
  "base \<noteq> 0 \<Longrightarrow> do_div n base = Some (n div ucast base, ucast (n mod ucast base))"
  by (rule do_div_eq)

theorem do_div_correct_witness:
  "(109000 :: dword) \<noteq> 0 \<and> do_div 0x1000000000 109000
     = Some (0x1000000000 div ucast (109000 :: dword), ucast (0x1000000000 mod ucast (109000 :: dword) :: qword))"
  using do_div_correct [of 109000 "0x1000000000"] by simp

section \<open>System calls\<close>

text \<open>
  C24. \<^verbatim>\<open>sys_write\<close> of a mapped user buffer, through its kernel buffer of 128 bytes: every byte
  is printed once, in order, and the size is returned; nothing but the screen, the clock
  reading and the caller's statistics changes.
\<close>

theorem write_prints_buffer:
  assumes "current L s = Some c" "user_buffer L s buffer N loc" "buffer \<noteq> 0"
  shows "\<exists>s'. sys_write L 1 buffer (of_nat N) s = Some (of_nat N, s')
    \<and> scr s' = fold (\<lambda>n. printc (mem s (loc n))) [0..<N] (scr s)
    \<and> s' = s\<lparr>scr := scr s', tsc_pos := tsc_pos s',
         task := (task s)(c := (task s c)\<lparr>pcb := (task_of s c)\<lparr>statics := statics (task_of s' c)\<rparr>\<rparr>)\<rparr>"
  by (rule sys_write_ok [OF assms])

theorem write_prints_buffer_witness:
  "\<exists>s'. sys_write demo_layout 1 0x108000 (of_nat 200) demo_entry = Some (of_nat 200, s')
    \<and> scr s' = fold (\<lambda>n. printc (mem demo_entry (data_loc (data_frame demo_entry 8) n))) [0..<200] (scr demo_entry)"
  using write_prints_buffer [OF demo_entry_ok(4) demo_buffer] by auto

text \<open>
  C25. \<^verbatim>\<open>write\<close> of the user library over the kernel's system call entry: on success the bytes
  are on the debug port in order and \<^verbatim>\<open>errno\<close> is untouched; a bad descriptor, a null buffer
  and a negative size give \<open>-1\<close> with the corresponding \<^verbatim>\<open>errno\<close> and print nothing.
\<close>

theorem write_wrapper:
  assumes "current L (system u) = Some c"
  shows "(user_buffer L (system u) buffer N loc \<and> buffer \<noteq> 0 \<longrightarrow>
        (\<exists>u'. write_call (kernel_trap L P rd pol) 1 buffer (of_nat N) u = Some (of_nat N, u') \<and> errno u' = errno u
          \<and> port_e9 (scr (system u')) = port_e9 (scr (system u)) @ map (\<lambda>n. mem (system u) (loc n)) [0..<N]))
    \<and> (fd \<noteq> 1 \<longrightarrow> (\<exists>u'. write_call (kernel_trap L P rd pol) fd buffer sz u = Some (- 1, u') \<and> errno u' = EBADF
          \<and> scr (system u') = scr (system u)))
    \<and> (\<exists>u'. write_call (kernel_trap L P rd pol) 1 0 sz u = Some (- 1, u') \<and> errno u' = EFAULT
          \<and> scr (system u') = scr (system u))
    \<and> (buffer \<noteq> 0 \<and> sint sz < 0 \<longrightarrow> (\<exists>u'. write_call (kernel_trap L P rd pol) 1 buffer sz u = Some (- 1, u')
          \<and> errno u' = EINVAL \<and> scr (system u') = scr (system u)))"
  by (intro conjI impI write_call_ok [OF assms] write_call_error [OF assms]; (elim conjE)?; assumption)

theorem write_wrapper_witness:
  "(\<exists>u'. write_call (kernel_trap demo_layout (rr_policy demo_layout) (\<lambda>_ _ _ _. None) (\<lambda>_ _ _ _. None))
       1 0x108000 (of_nat 200) \<lparr>errno = 0, system = demo_entry\<rparr> = Some (of_nat 200, u') \<and> errno u' = 0)
   \<and> (\<exists>u'. write_call (kernel_trap demo_layout (rr_policy demo_layout) (\<lambda>_ _ _ _. None) (\<lambda>_ _ _ _. None))
       7 0x108000 (of_nat 200) \<lparr>errno = 0, system = demo_entry\<rparr> = Some (- 1, u') \<and> errno u' = 9)"
  using write_wrapper [of demo_layout "\<lparr>errno = 0, system = demo_entry\<rparr>" 8 "0x108000" 200
      "data_loc (data_frame demo_entry 8)" "rr_policy demo_layout" "\<lambda>_ _ _ _. None" "\<lambda>_ _ _ _. None" 7 "of_nat 200"]
    demo_entry_ok(4) demo_buffer by auto

text \<open>
  C26. \<^verbatim>\<open>sys_get_stats\<close> of a live process: the 28 bytes at the user's pointer are the memory
  image of that process' statistics, and no other byte of memory changes.
\<close>

theorem get_stats_copies:
  assumes "current L s = Some c" "0 \<le> sint pid" "stats_ptr_ok st" "user_struct L s st loc"
    and "t < 10" "PID (task_of s t) = pid" "\<And>t'. t' < 10 \<Longrightarrow> PID (task_of s t') = pid \<Longrightarrow> t' = t"
  shows "\<exists>s'. sys_get_stats L pid st s = Some (0, s')
    \<and> bytes_stats (map (\<lambda>n. mem s' (loc n)) [0..<28]) = statics (task_of s' t)
    \<and> (t \<noteq> c \<longrightarrow> statics (task_of s' t) = statics (task_of s t))
    \<and> (\<forall>a. a \<notin> loc ` {..<28} \<longrightarrow> mem s' a = mem s a)"
  by (rule sys_get_stats_ok [OF assms])

theorem get_stats_copies_witness:
  "\<exists>s'. sys_get_stats demo_layout 1 0x108000 demo_entry = Some (0, s')
    \<and> bytes_stats (map (\<lambda>n. mem s' (data_loc (data_frame demo_entry 8) n)) [0..<28]) = statics (task_of s' 8)"
proof -
  have "0 \<le> sint (1 :: cint)" "stats_ptr_ok 0x108000" "8 < (10 :: nat)" by (simp_all add: stats_ptr_ok_def)
  from get_stats_copies [OF demo_entry_ok(4) this(1,2) demo_struct this(3) demo_pids(1) demo_pid_unique]
  show ?thesis by blast
qed



text \<open>
  C28. Time accounting of a system call: the ticks since the process last left the kernel are
  charged to its user time and the ticks spent inside to its system time; \<^verbatim>\<open>sys_getpid\<close> and
  \<^verbatim>\<open>sys_gettime\<close> change nothing else.
\<close>

theorem call_accounting:
  assumes "current L s = Some c"
  shows "\<exists>s'. sys_getpid L s = Some (PID (task_of s c), s') \<and> sys_gettime L s = Some (zeos_ticks s, s')
    \<and> s' = s\<lparr>tsc_pos := tsc_pos s + 4, task := (task s)(c := (task s c)\<lparr>pcb := (task_of s c)\<lparr>statics := statics (task_of s' c)\<rparr>\<rparr>)\<rparr>
    \<and> user_ticks (statics (task_of s' c)) = user_ticks (statics (task_of s c))
         + (ticks_at s (tsc_pos s) - elapsed_total_ticks (statics (task_of s c)))
    \<and> system_ticks (statics (task_of s' c)) = system_ticks (statics (task_of s c))
         + (ticks_at s (tsc_pos s + 2) - ticks_at s (tsc_pos s + 1))"
  by (rule brief_call [OF assms])

theorem call_accounting_witness:
  "\<exists>s'. sys_getpid demo_layout demo_entry = Some (1, s') \<and> tsc_pos s' = tsc_pos demo_entry + 4"
proof -
  obtain s' where s': "sys_getpid demo_layout demo_entry = Some (PID (task_of demo_entry 8), s')"
    "s' = demo_entry\<lparr>tsc_pos := tsc_pos demo_entry + 4, task := (task demo_entry)(8 := (task demo_entry 8)
       \<lparr>pcb := (task_of demo_entry 8)\<lparr>statics := statics (task_of s' 8)\<rparr>\<rparr>)\<rparr>"
    using call_accounting [OF demo_entry_ok(4)] by blast
  have "tsc_pos s' = tsc_pos demo_entry + 4" by (subst s'(2)) simp
  then show ?thesis using s'(1) demo_pids(1) by auto
qed

section \<open>Queues\<close>

text \<open>
  C29. Moving an entry from any place of one circular list to the end of another, as blocking
  and unblocking do: the pointer assignments of \<^verbatim>\<open>list_del\<close> and \<^verbatim>\<open>list_add_tail\<close> implement
  removal and appending on the sequences, and no anchor outside the two lists changes.
\<close>

theorem move_between_queues:
  assumes d: "dlist h q (ys @ e # zs)" "dlist h q' ws" and dis: "set (q # ys @ e # zs) \<inter> set (q' # ws) = {}"
  shows "\<exists>h1 h2. list_del (Ptr e) h = Some h1 \<and> list_add_tail (Ptr e) (Ptr q') h1 = Some h2
    \<and> dlist h2 q (ys @ zs) \<and> dlist h2 q' (ws @ [e])
    \<and> (\<forall>z. z \<notin> set (q # ys @ e # zs) \<union> set (q' # ws) \<longrightarrow> h2 z = h z)"
  by (rule dlist_move [OF assms])

theorem move_between_queues_witness:
  "\<exists>h1 h2. list_del (Ptr (1 :: nat)) ((\<lambda>_. \<lparr>nxt = Null, prv = Null\<rparr>)(0 := \<lparr>nxt = Ptr 1, prv = Ptr 1\<rparr>,
        1 := \<lparr>nxt = Ptr 0, prv = Ptr 0\<rparr>, 5 := \<lparr>nxt = Ptr 5, prv = Ptr 5\<rparr>)) = Some h1
    \<and> list_add_tail (Ptr 1) (Ptr 5) h1 = Some h2 \<and> dlist h2 0 [] \<and> dlist h2 5 [1]"
  using move_between_queues [of "(\<lambda>_. \<lparr>nxt = Null, prv = Null\<rparr>)(0 := \<lparr>nxt = Ptr 1, prv = Ptr 1\<rparr>,
        1 := \<lparr>nxt = Ptr 0, prv = Ptr 0\<rparr>, 5 := \<lparr>nxt = Ptr 5, prv = Ptr 5\<rparr>)" 0 "[]" "1 :: nat" "[]" 5 "[]"]
  by (auto simp: dlist_def)

text \<open>
  C30. The traversals of a list end: \<^verbatim>\<open>list_for_each\<close> visits every entry once, in order, and so
  does \<^verbatim>\<open>list_for_each_safe\<close> with a body that moves each entry to the end of another
  list, which then has them all, and the traversed list is empty.
\<close>

theorem traversals_end:
  assumes "dlist h q xs" "dlist h q' ws" "set (q # xs) \<inter> set (q' # ws) = {}"
  shows "\<exists>p h'. list_first (Ptr q) h = Some p \<and> list_for_each p (Ptr q) h = Some (map Ptr xs)
    \<and> list_for_each_safe (\<lambda>e h. do { h \<leftarrow> list_del e h; list_add_tail e (Ptr q') h }) (Ptr q) h = Some (map Ptr xs, h')
    \<and> dlist h' q [] \<and> dlist h' q' (ws @ xs)"
proof -
  have m: "move_tail (Ptr q') = (\<lambda>e h. do { h \<leftarrow> list_del e h; list_add_tail e (Ptr q') h })"
    by (intro ext) (simp add: move_tail_def)
  have "list_for_each (nxt (h q)) (Ptr q) h = Some (map Ptr xs)"
    using list_for_each_chain [of h q xs q] assms(1) by (simp add: dlist_def)
  then show ?thesis using list_move_all [OF assms] unfolding m by (auto simp: list_first_def)
qed

theorem traversals_end_witness:
  "\<exists>h'. list_for_each (Ptr 1) (Ptr 0) ((\<lambda>_. \<lparr>nxt = Null, prv = Null\<rparr>)(0 := \<lparr>nxt = Ptr 1, prv = Ptr 2\<rparr>, 1 := \<lparr>nxt = Ptr 2, prv = Ptr 0\<rparr>,
      2 := \<lparr>nxt = Ptr 0, prv = Ptr 1\<rparr>, 5 := \<lparr>nxt = Ptr 5, prv = Ptr 5\<rparr>)) = Some [Ptr 1, Ptr (2 :: nat)]
    \<and> dlist h' (0 :: nat) [] \<and> dlist h' 5 [1, 2]"
proof -
  let ?h = "(\<lambda>_. \<lparr>nxt = Null, prv = Null\<rparr>)(0 := \<lparr>nxt = Ptr 1, prv = Ptr 2\<rparr>, 1 := \<lparr>nxt = Ptr 2, prv = Ptr 0\<rparr>,
      2 := \<lparr>nxt = Ptr 0, prv = Ptr 1\<rparr>, 5 := \<lparr>nxt = Ptr 5, prv = Ptr 5\<rparr>) :: nat links"
  have "dlist ?h 0 [1, 2]" "dlist ?h 5 []" by (simp_all add: dlist_def)
  from traversals_end [OF this] show ?thesis by (auto simp: list_first_def)
qed

section \<open>Devices\<close>

text \<open>
  C31. The screen: the cursor stays inside the 80 by 25 cells, a character moves it to the next
  cell and a newline to the start of the next row, both wrapping around, and the only cell
  written is the one at the cursor, which lies in video memory.
\<close>

theorem printc_on_screen:
  assumes "cursor_ok s"
  shows "cursor_ok (printc c s)
    \<and> cursor_pos (printc c s) = (if c = NEWLINE then (cursor_pos s div 80 + 1) mod 25 * 80 else (cursor_pos s + 1) mod 2000)
    \<and> (\<forall>a. video (printc c s) a \<noteq> video s a \<longrightarrow> c \<noteq> NEWLINE \<and> unat a = 0xb8000 + 2 * cursor_pos s \<and> unat a < 0xb8000 + 4000)
    \<and> port_e9 (printc c s) = port_e9 s @ [c]"
proof -
  have "unat (cell_addr (cur_x s) (cur_y s)) = 0xb8000 + 2 * cursor_pos s" "cursor_pos s < 2000"
    using assms unat_cell_addr [of "cur_x s" "cur_y s"] by (simp_all add: cursor_pos_def cursor_ok_def)
  then have "\<forall>a. video (printc c s) a \<noteq> video s a \<longrightarrow> c \<noteq> NEWLINE \<and> unat a = 0xb8000 + 2 * cursor_pos s \<and> unat a < 0xb8000 + 4000"
    by (auto simp: printc_def Let_def)
  then show ?thesis using printc_cursor_ok [OF assms] printc_cursor_pos [OF assms] printc_trace by blast
qed

theorem printc_on_screen_witness:
  "cursor_ok \<lparr>cur_x = 79, cur_y = 24, video = (\<lambda>_. 0), port_e9 = []\<rparr>
    \<and> cursor_pos (printc 65 \<lparr>cur_x = 79, cur_y = 24, video = (\<lambda>_. 0), port_e9 = []\<rparr>) = 0"
  using printc_on_screen [of "\<lparr>cur_x = 79, cur_y = 24, video = (\<lambda>_. 0), port_e9 = []\<rparr>" 65]
  by (simp add: cursor_ok_def cursor_pos_def)



section \<open>The user library\<close>

text \<open>
  C33. \<^verbatim>\<open>itoa\<close> of a number that is not negative gives a terminated string of decimal digits,
  without a leading part that \<^verbatim>\<open>strlen\<close> would miss, whose value is the number; a negative
  number is not printed at all: the string is empty.
\<close>

theorem itoa_decimal:
  "if 0 \<le> sint a
   then \<exists>n. strlen (itoa a b) = Some n \<and> n \<noteq> 0 \<and> decimal (map (itoa a b) [0..<n]) = sint a
     \<and> (\<forall>k<n. 48 \<le> unat (itoa a b k) \<and> unat (itoa a b k) \<le> 57)
   else strlen (itoa a b) = Some 0"
  using itoa_ok itoa_negative by simp

theorem itoa_decimal_witness:
  "(\<exists>n. strlen (itoa 1507 (\<lambda>_. 0)) = Some n \<and> decimal (map (itoa 1507 (\<lambda>_. 0)) [0..<n]) = 1507)
    \<and> strlen (itoa (- 4) (\<lambda>_. 7)) = Some 0"
proof -
  have "sint (1507 :: cint) = 1507" "sint (- 4 :: cint) = - 4" by simp_all
  then show ?thesis using itoa_decimal [of 1507 "\<lambda>_. 0"] itoa_decimal [of "- 4" "\<lambda>_. 7"] by auto
qed



section \<open>The disk image\<close>

text \<open>
  C35. The boot sector, with the sizes \<^verbatim>\<open>build.c\<close> has recorded in it, reads the whole image to
  \<open>0x10000\<close> for any image up to \<open>0x7FFF0\<close> bytes, whatever tracks and 64 KB blocks it spans, and
  jumps to the kernel at \<open>0x10010\<close> in protected mode, with the descriptor table where
  the kernel expects it, flat segments behind its four selectors and the interrupt
  controller programmed.  For a larger image it reads over its own code.
\<close>

theorem boot_sector_loads:
  assumes "assembled bt" "patched bt img ns nu" "length img = 512 + ns + nu" "ns + nu \<le> 0xFFFF0" "pc_ready img int13 a20 m"
  shows "if ns + nu \<le> 0x7FFF0
    then \<exists>pc. bootsect int13 inp a20 m = Some pc \<and> loaded img (pc_mem pc) \<and> pc_cs pc = KERNEL_CS \<and> pc_eip pc = 0x10010
      \<and> pc_cr0 pc = 1 \<and> pc_gdt_base pc = GDT_START \<and> (\<forall>sel\<in>{KERNEL_CS, KERNEL_DS, USER_CS, USER_DS}. flat_segment pc sel)
      \<and> fold pic_out (pc_out pc) p = \<lparr>p_expect = 0, p_base = 0x20, p_mask = 0xFB\<rparr>
    else bootsect int13 inp a20 m = None"
proof -
  obtain disk n where d: "image_on img disk" "serves disk int13" "at_7c00 disk m" "\<forall>j\<ge>n. a20 j" using assms(5) by (auto simp: pc_ready_def)
  show ?thesis
    using sector_starts_kernel [OF assms(1,2) d(1) assms(3) _ d(2-4), of inp p]
      big_image_destroys_sector [OF assms(1,2) d(1) assms(3) _ assms(4) d(2,3), of inp a20] by simp
qed

theorem boot_sector_loads_witness:
  "\<exists>b' pc. build_main demo_host [''bootsect'', ''system'', ''user''] demo_build = Inr b'
    \<and> bootsect (bios_read (demo_disk (image b'))) (\<lambda>_. 0) (\<lambda>_. True) (demo_memory (image b')) = Some pc
    \<and> loaded (image b') (pc_mem pc) \<and> flat_segment pc USER_CS"
proof -
  have len: "length (replicate 16 (7 :: byte)) = 16" "length [11, 22, 33, 44 :: byte] = 4" by simp_all
  obtain b' where b': "build_main demo_host [''bootsect'', ''system'', ''user''] demo_build = Inr b'"
    "length (image b') = 512 + 16 + 4" "patched demo_sector (image b') 16 4"
    using build_patched [OF demo_host_ok(1-7) _ demo_host_ok(9,10), unfolded demo_host_ok(8) len] by auto
  from boot_sector_loads [OF demo_host_ok(3) b'(3,2) _ demo_ready, of "\<lambda>_. 0"] show ?thesis using b'(1) by auto
qed

text \<open>
  C36. From the three input files to user mode: \<^verbatim>\<open>build.c\<close> makes an image such that a machine that
  starts from a disk with it runs the boot sector, then \<^verbatim>\<open>main\<close> of the kernel, and arrives at
  the first instruction of the user program, whose bytes are the pages of the first
  process; the lines of clock and keyboard, and no others, raise the vectors 32 and 33, whose
  gates lead to their handlers.
\<close>

theorem build_then_boot:
  assumes f: "files h bn = Some (mh @ bt)" "minix_header mh" "assembled bt" "files h sn = Some sys" "files h un = Some usr"
    and ok: "stat_ok h" "seekable h" "512 + length sys + length usr \<le> capacity h" "image b = []" "out_pos b = 0"
    and len: "12 \<le> length sys" "length sys + length usr \<le> 0x7FFF0" "length usr \<le> 28 * 4096 - 4"
    and L: "layout_ok L" "\<And>s. \<exists>g. set_handlers s = s\<lparr>idt := g\<rparr>" "\<And>s. init_policy s = s"
    and con: "\<And>s. console_init s = on_links (INIT_LIST_HEAD (Ptr CONSOLE_BLOCKED)) s"
  shows "\<exists>b'. build_main h [bn, sn, un] b = Inr b'
    \<and> (\<forall>int13 inp a20 m0 m. pc_ready (image b') int13 a20 m0 \<and> PID_MAX (kern m) = 1 \<longrightarrow>
         (\<exists>pc m'. bootsect int13 inp a20 m0 = Some pc
            \<and> kernel_main L set_handlers init_policy console_init (after_boot pc m) = Some m'
            \<and> in_user L 8 m' \<and> u_eip (context_of m') = L_USER_START
            \<and> (\<forall>n<length usr. mem (kern m') (data_loc code_frame n) = usr ! n)
            \<and> (\<forall>i<8. irq_vector (pic_out (0x21, port_21 m') (fold pic_out (pc_out pc) p)) i
                 = (if i = 0 then Some 32 else if i = 1 then Some 33 else None))
            \<and> gate_offset (idt (kern m') 32) = clock_handler_addr L \<and> gate_offset (idt (kern m') 33) = keyboard_handler_addr L))"
proof -
  obtain b' where b': "build_main h [bn, sn, un] b = Inr b'" "length (image b') = 512 + length sys + length usr"
    "patched bt (image b') (length sys) (length usr)"
    "\<And>m. loaded (image b') m \<Longrightarrow> image_ok m \<and> mem_dword m 0x10000 = of_nat (length sys) \<and> mem_dword m 0x10004 = of_nat (length usr)
       \<and> (\<forall>n<length usr. m (0x10000 + of_nat (length sys) + of_nat n) = usr ! n)"
    using build_patched [OF f ok len(1)] len(2,3) by auto
  have "\<exists>pc m'. bootsect int13 inp a20 m0 = Some pc \<and> kernel_main L set_handlers init_policy console_init (after_boot pc m) = Some m'
      \<and> in_user L 8 m' \<and> u_eip (context_of m') = L_USER_START \<and> (\<forall>n<length usr. mem (kern m') (data_loc code_frame n) = usr ! n)
      \<and> (\<forall>i<8. irq_vector (pic_out (0x21, port_21 m') (fold pic_out (pc_out pc) p)) i
           = (if i = 0 then Some 32 else if i = 1 then Some 33 else None))
      \<and> gate_offset (idt (kern m') 32) = clock_handler_addr L \<and> gate_offset (idt (kern m') 33) = keyboard_handler_addr L"
    if r: "pc_ready (image b') int13 a20 m0" "PID_MAX (kern m) = 1" for int13 inp a20 m0 m
  proof -
    obtain disk n where d: "image_on (image b') disk" "serves disk int13" "at_7c00 disk m0" "\<forall>j\<ge>n. a20 j"
      using r(1) by (auto simp: pc_ready_def)
    obtain pc where pc: "bootsect int13 inp a20 m0 = Some pc" "loaded (image b') (pc_mem pc)"
      "fold pic_out (pc_out pc) p = \<lparr>p_expect = 0, p_base = 0x20, p_mask = 0xFB\<rparr>"
      using sector_starts_kernel [OF f(3) b'(3) d(1) b'(2) len(2) d(2-4), of inp p] by blast
    note im = b'(4) [OF pc(2)]
    have k: "mem (kern (after_boot pc m)) = pc_mem pc" "PID_MAX (kern (after_boot pc m)) = 1" using r(2) by (simp_all add: after_boot_def)
    obtain m' where m': "kernel_main L set_handlers init_policy console_init (after_boot pc m) = Some m'" "in_user L 8 m'"
      "u_eip (context_of m') = L_USER_START" "gates_set L (kern m')" "port_21 m' = 0xfc"
      "\<forall>n<length usr. mem (kern m') (data_loc code_frame n) = usr ! n"
      using kernel_starts_program [of "after_boot pc m" sys usr, unfolded k, OF _ _ _ _ len(3) L(1) refl L(2,3) con] im by blast
    have "\<forall>i<8. irq_vector (pic_out (0x21, port_21 m') (fold pic_out (pc_out pc) p)) i
        = (if i = 0 then Some 32 else if i = 1 then Some 33 else None)" unfolding pc(3) m'(5) using irq_lines by simp
    then show ?thesis using pc(1) m' unfolding gates_set_def by blast
  qed
  then show ?thesis using b'(1) by blast
qed

theorem build_then_boot_witness:
  "\<exists>b' pc m'. build_main demo_host [''bootsect'', ''system'', ''user''] demo_build = Inr b'
    \<and> bootsect (bios_read (demo_disk (image b'))) (\<lambda>_. 0) (\<lambda>_. True) (demo_memory (image b')) = Some pc
    \<and> kernel_main demo_layout (\<lambda>s. s) (\<lambda>s. s) console_head (after_boot pc (demo_machine demo_start 0)) = Some m'
    \<and> in_user demo_layout 8 m' \<and> (\<forall>n<4. mem (kern m') (data_loc code_frame n) = [11, 22, 33, 44] ! n)"
proof -
  have c: "512 + length (replicate 16 (7 :: byte)) + length [11, 22, 33, 44 :: byte] \<le> capacity demo_host"
    "12 \<le> length (replicate 16 (7 :: byte))" "length (replicate 16 (7 :: byte)) + length [11, 22, 33, 44 :: byte] \<le> 0x7FFF0"
    "length [11, 22, 33, 44 :: byte] \<le> 28 * 4096 - 4" "length [11, 22, 33, 44 :: byte] = 4" by (simp_all add: demo_host_ok(8))
  have pid: "PID_MAX (kern (demo_machine demo_start 0)) = 1" using demo_start_sels(1) by simp
  from build_then_boot [OF demo_host_ok(1-7) c(1) demo_host_ok(9,10) c(2-4) demo_layout_ok demo_start_sels(2) refl refl,
      of "\<lparr>p_expect = 0, p_base = 0, p_mask = 0\<rparr>", unfolded c(5)]
  show ?thesis
  proof (elim exE conjE)
    fix b'
    assume b: "build_main demo_host [''bootsect'', ''system'', ''user''] demo_build = Inr b'"
    assume "\<forall>int13 inp a20 m0 m. pc_ready (image b') int13 a20 m0 \<and> PID_MAX (kern m) = 1 \<longrightarrow> (\<exists>pc m'. bootsect int13 inp a20 m0 = Some pc
      \<and> kernel_main demo_layout (\<lambda>s. s) (\<lambda>s. s) console_head (after_boot pc m) = Some m'
      \<and> in_user demo_layout 8 m' \<and> u_eip (context_of m') = L_USER_START
      \<and> (\<forall>n<4. mem (kern m') (data_loc code_frame n) = [11, 22, 33, 44] ! n)
      \<and> (\<forall>i<8. irq_vector (pic_out (0x21, port_21 m') (fold pic_out (pc_out pc) \<lparr>p_expect = 0, p_base = 0, p_mask = 0\<rparr>)) i
           = (if i = 0 then Some 32 else if i = 1 then Some 33 else None))
      \<and> gate_offset (idt (kern m') 32) = clock_handler_addr demo_layout \<and> gate_offset (idt (kern m') 33) = keyboard_handler_addr demo_layout)"
    from this [rule_format, OF conjI [OF demo_ready pid], of "\<lambda>_. 0"] b show ?thesis by blast
  qed
qed

text \<open>
  C37. \<^verbatim>\<open>build.c\<close> refuses what it cannot use: a wrong number of arguments, a missing boot sector or
  system file, a boot sector of another size or without its flag, and an output that cannot
  be positioned, such as a pipe.
\<close>

theorem build_refuses:
  assumes "minix_header mh" "image b = []" "out_pos b = 0" "512 + length sys + length usr \<le> capacity h"
    and "stat_ok h" "length sys < 2 ^ 32" "length usr < 2 ^ 32"
  shows "(length args \<noteq> 3 \<longrightarrow> build_main h args b = Inl Usage)
    \<and> (files h bn = None \<longrightarrow> build_main h [bn, sn, un] b = Inl (Unable_to_open bn))
    \<and> (files h bn = Some (mh @ bt) \<longrightarrow>
         (\<not> boot_sector_ok bt \<longrightarrow>
            build_main h [bn, sn, un] b = Inl (if length bt \<noteq> 512 then Not_512_bytes else No_boot_flag))
       \<and> (boot_sector_ok bt \<and> files h sn = None \<longrightarrow> build_main h [bn, sn, un] b = Inl (Unable_to_open sn))
       \<and> (boot_sector_ok bt \<and> files h sn = Some sys \<and> files h un = Some usr \<and> \<not> seekable h \<longrightarrow>
            build_main h [bn, sn, un] b = Inl Seek_failed))"
proof -
  have "files h bn = None \<Longrightarrow> build_boot_sector h bn b = Inl (Unable_to_open bn)"
    by (simp add: build_boot_sector_def minix_open_def host_open_def)
  moreover have "length args \<noteq> 3 \<Longrightarrow> build_main h args b = Inl Usage" by (simp add: build_main_def)
  moreover have "512 \<le> capacity h" using assms(4) by simp
  ultimately show ?thesis
    using assms build_main_refused bad_sector [of h bn mh bt b] missing_system [of h bn mh bt b sn un]
      not_seekable [of h bn mh bt sn sys un usr b] by blast
qed

theorem build_refuses_witness:
  "build_main demo_host [''bootsect'', ''system''] demo_build = Inl Usage
    \<and> build_main demo_host [''none'', ''system'', ''user''] demo_build = Inl (Unable_to_open ''none'')
    \<and> build_main demo_host [''short'', ''system'', ''user''] demo_build = Inl Not_512_bytes
    \<and> build_main demo_host [''bootsect'', ''none'', ''user''] demo_build = Inl (Unable_to_open ''none'')"
proof -
  have f: "files demo_host ''none'' = None" "files demo_host ''short'' = Some (demo_header @ [])"
    by (simp_all add: demo_host_def)
  have n: "\<not> boot_sector_ok []" "length [''bootsect'', ''system''] \<noteq> 3" by (simp_all add: boot_sector_ok_def)
  note r = build_refuses [OF demo_host_ok(2,9,10), of "[]" "[]" demo_host, unfolded demo_host_ok(8), OF _ demo_host_ok(6)]
  show ?thesis
    using r [where args = "[''bootsect'', ''system'']"] r [where bn = "''none''" and sn = "''system''" and un = "''user''"]
      r [where bn = "''short''" and sn = "''system''" and un = "''user''" and bt = "[]"]
      r [where bn = "''bootsect''" and sn = "''none''" and un = "''user''" and bt = demo_sector] f n demo_host_ok(1) assembled_ok [OF demo_host_ok(3)]
    by simp
qed

section \<open>The socket programs\<close>

text \<open>
  C38. The bounded server keeps its promise: whatever clients connect and in whatever order their
  processes end, with signals merged or not, also in the middle of an increment, at most \<^verbatim>\<open>MAX_CLIENTS\<close> of them (and at least one)
  are served at a time, and the counter is never below their number.
\<close>

theorem bounded_server_limit:
  assumes "server_main args create = Returns (socketFD, loop, s)" "server_step\<^sup>*\<^sup>* s s'"
  shows "running s' \<le> max 1 (nat (sint (MAX_CLIENTS s'))) \<and> int (running s') \<le> sint (NUM_CONECTIONS s')
    \<and> MAX_CLIENTS s' = (if length args = 3 then args ! 2 else 100)"
proof -
  have s: "s = \<lparr>MAX_CLIENTS = (if length args = 3 then args ! 2 else 100), NUM_CONECTIONS = 0, running = 0\<rparr>"
    using assms(1) by (auto simp: server_main_def Let_def split: if_splits proc.splits)
  then have "server_inv s" by (simp add: server_inv_def)
  from server_run_inv [OF assms(2) this] show ?thesis by (auto simp: server_inv_def s)
qed

theorem bounded_server_limit_witness:
  "server_main [8080, 3, 1] (\<lambda>_. Returns 3) = Returns (3, Some Bounded, \<lparr>MAX_CLIENTS = 1, NUM_CONECTIONS = 0, running = 0\<rparr>)
    \<and> server_step\<^sup>*\<^sup>* \<lparr>MAX_CLIENTS = 1, NUM_CONECTIONS = 0, running = 0\<rparr> \<lparr>MAX_CLIENTS = 1, NUM_CONECTIONS = 1, running = 1\<rparr>
    \<and> running \<lparr>MAX_CLIENTS = 1, NUM_CONECTIONS = 1, running = 1\<rparr> \<le> 1"
proof -
  let ?s0 = "\<lparr>MAX_CLIENTS = 1, NUM_CONECTIONS = 0, running = 0\<rparr>"
  let ?s1 = "\<lparr>MAX_CLIENTS = 1, NUM_CONECTIONS = 1, running = 1\<rparr>"
  have m: "server_main [8080, 3, 1] (\<lambda>_. Returns 3) = Returns (3, Some Bounded, ?s0)"
    by (simp add: server_main_def setScheme_def)
  have "boundedServerLoop [] [] [] (\<lambda>_. 4) 100 3 ?s0 = Returns ?s1"
    by (simp add: boundedServerLoop_def acceptNewConnections_def doServiceFork_def)
  then have "server_step ?s0 ?s1" by (intro server_step.iteration) simp_all
  then have "server_step\<^sup>*\<^sup>* ?s0 ?s1" by (rule r_into_rtranclp)
  then show ?thesis using bounded_server_limit [OF m] m by simp
qed





end
